(* ===== verification/GoPrelude.thy ===== *)
theory GoPrelude
  imports Main "HOL-Library.Word" "HOL-Library.Signed_Division" "HOL-Library.Sublist"
begin

text \<open>
  The part of the Go language and of its standard library that every component of gowait
  uses: the result of a call (a value, an error, or a panic), 64-bit integer arithmetic with
  its wrap-around, instants and durations, decimal formatting, and \<open>sort.Search\<close>, with the
  generic lemmas about them and about lists that the component theories share.
\<close>

section \<open>Results of a call\<close>

text \<open>
  A Go function of gowait that returns \<open>(T, error)\<close> ends in one of three ways: with a value
  and a nil error, with a non-nil error, or with a run-time panic (a nil pointer is
  dereferenced, an integer is divided by zero).
\<close>

type_synonym error = string

datatype 'a result = Ok 'a | Err error | Panic

primrec is_ok :: "'a result \<Rightarrow> bool" where
  "is_ok (Ok _) = True"
| "is_ok (Err _) = False"
| "is_ok Panic = False"

primrec map_res :: "('a \<Rightarrow> 'b) \<Rightarrow> 'a result \<Rightarrow> 'b result" where
  "map_res f (Ok v) = Ok (f v)"
| "map_res f (Err e) = Err e"
| "map_res f Panic = Panic"

lemma is_ok_iff: "is_ok r \<longleftrightarrow> (\<exists>v. r = Ok v)"
  by (cases r) auto

lemma map_res_Ok_iff [simp]: "map_res f r = Ok v \<longleftrightarrow> (\<exists>u. r = Ok u \<and> v = f u)"
  by (cases r) auto

lemma map_res_Err_iff [simp]: "map_res f r = Err e \<longleftrightarrow> r = Err e"
  by (cases r) auto

lemma map_res_Panic_iff [simp]: "map_res f r = Panic \<longleftrightarrow> r = Panic"
  by (cases r) auto

text \<open>
  A statement sequence whose first call may fail: \<open>if err != nil { return ..., err }\<close> passes an
  error on and skips the rest, keeping the state changes made so far; so does a panic.
\<close>

definition and_then :: "'a result \<times> 'c \<Rightarrow> ('a \<Rightarrow> 'c \<Rightarrow> 'b result \<times> 'c) \<Rightarrow> 'b result \<times> 'c" where
  "and_then m k = (case m of (Ok v, c) \<Rightarrow> k v c | (Err e, c) \<Rightarrow> (Err e, c) | (Panic, c) \<Rightarrow> (Panic, c))"

lemma and_then_simps [simp]:
  "and_then (Ok v, c) k = k v c" "and_then (Err e, c) k = (Err e, c)"
  "and_then (Panic, c) k = (Panic, c)"
  by (simp_all add: and_then_def)

text \<open>The same for expressions that carry no state, and \<open>fmt.Errorf\<close> with \<open>%w\<close>: the text of the
  wrapped error follows the prefix.\<close>

definition wrap_err :: "string \<Rightarrow> 'a result \<Rightarrow> 'a result" where
  "wrap_err p r = (case r of Err e \<Rightarrow> Err (p @ e) | _ \<Rightarrow> r)"

definition and_also :: "'a result \<Rightarrow> ('a \<Rightarrow> 'b result) \<Rightarrow> 'b result" where
  "and_also r k = (case r of Ok v \<Rightarrow> k v | Err e \<Rightarrow> Err e | Panic \<Rightarrow> Panic)"

section \<open>64-bit integers\<close>

text \<open>
  Go's \<open>int\<close> (on the 64-bit platforms gowait is built for) and \<open>int64\<close> are two's complement:
  an operation whose exact result leaves the range wraps around. A value is modelled as an
  \<^typ>\<open>int\<close>, and \<open>s64\<close> is written wherever the code's arithmetic can leave the range.
\<close>

definition s64 :: "int \<Rightarrow> int" where
  "s64 x = (x + 2 ^ 63) mod 2 ^ 64 - 2 ^ 63"

definition in_s64 :: "int \<Rightarrow> bool" where
  "in_s64 x \<longleftrightarrow> - (2 ^ 63) \<le> x \<and> x < 2 ^ 63"

lemma s64_id [simp]: "in_s64 x \<Longrightarrow> s64 x = x"
  by (simp add: s64_def in_s64_def)

lemma s64_range: "in_s64 (s64 x)"
  by (simp add: s64_def in_s64_def)

lemma s64_diff_left: "s64 (s64 x - y) = s64 (x - y)"
proof -
  have "s64 x - y + 2 ^ 63 = (x + 2 ^ 63) mod 2 ^ 64 - y" by (simp add: s64_def)
  then show ?thesis by (simp add: s64_def mod_diff_left_eq algebra_simps)
qed

lemma s64_add_left: "s64 (s64 x + y) = s64 (x + y)"
  using s64_diff_left [of x "- y"] by simp

lemma in_s64_nonneg: "0 \<le> x \<Longrightarrow> x < 2 ^ 63 \<Longrightarrow> in_s64 x"
  by (simp add: in_s64_def)

text \<open>\<open>sat64\<close> is the saturation \<open>time.Time.Sub\<close> applies instead of wrapping.\<close>

definition sat64 :: "int \<Rightarrow> int" where
  "sat64 x = max (- (2 ^ 63)) (min (2 ^ 63 - 1) x)"

lemma sat64_id [simp]: "in_s64 x \<Longrightarrow> sat64 x = x"
  by (simp add: sat64_def in_s64_def)

lemma sat64_mono: "x \<le> y \<Longrightarrow> sat64 x \<le> sat64 y"
  by (auto simp: sat64_def)

lemma sat64_nonneg: "0 \<le> x \<Longrightarrow> 0 \<le> sat64 x"
  by (simp add: sat64_def)

lemma sat64_le: "0 \<le> x \<Longrightarrow> sat64 x \<le> x"
  by (simp add: sat64_def)

lemma sat64_range: "in_s64 (sat64 x)"
  by (simp add: sat64_def in_s64_def)

text \<open>
  Go's integer division truncates towards zero, which is \<open>sdiv\<close> and \<open>smod\<close>; division by zero
  panics and is guarded where it can happen.
\<close>

lemma sdiv_nonneg: "0 \<le> a \<Longrightarrow> 0 \<le> b \<Longrightarrow> (a::int) sdiv b = a div b"
  by (cases "a = 0"; cases "b = 0") (simp_all add: signed_divide_int_def)

lemma smod_nonneg: "0 \<le> a \<Longrightarrow> 0 \<le> b \<Longrightarrow> (a::int) smod b = a mod b"
  by (cases "a = 0") (simp_all add: signed_modulo_int_def)

lemma sdiv_mult_cancel: "0 < b \<Longrightarrow> (n * b) sdiv b = (n::int)"
  by (auto simp: signed_divide_int_def sgn_mult abs_mult mult_sgn_abs)

lemma smod_mult_zero: "(n * b) smod b = (0::int)"
  by (auto simp: signed_modulo_int_def sgn_mult abs_mult)

section \<open>Instants and durations\<close>

text \<open>
  A \<open>time.Time\<close> is its number of nanoseconds since the Unix epoch (its range exceeds 64
  bits, so it is an unbounded integer here); a \<open>time.Duration\<close> is an \<open>int64\<close> number of
  nanoseconds. The monotonic reading Go may carry along is the same clock here.
\<close>

type_synonym time = int
type_synonym dur = int

abbreviation second :: dur where
  "second \<equiv> 1000000000"

abbreviation millisecond :: dur where
  "millisecond \<equiv> 1000000"

text \<open>The zero \<open>time.Time\<close> is January 1 of year 1, 62135596800 seconds before the epoch.\<close>

definition zero_time :: time where
  "zero_time = - 62135596800000000000"

definition time_sub :: "time \<Rightarrow> time \<Rightarrow> dur" where
  "time_sub t u = sat64 (t - u)"

definition unix_nano :: "time \<Rightarrow> int" where
  "unix_nano t = s64 t"

lemma time_sub_self [simp]: "time_sub t t = 0"
  by (simp add: time_sub_def sat64_def)

section \<open>Decimal formatting\<close>

text \<open>\<open>strconv.Itoa\<close>, which is also the verb \<open>%d\<close>.\<close>

fun itoa_nat :: "nat \<Rightarrow> string" where
  "itoa_nat n = (if n < 10 then [char_of (48 + n)]
                 else itoa_nat (n div 10) @ [char_of (48 + n mod 10)])"

declare itoa_nat.simps [simp del]

definition itoa :: "int \<Rightarrow> string" where
  "itoa n = (if n < 0 then CHR ''-'' # itoa_nat (nat (- n)) else itoa_nat (nat n))"

section \<open>Binary search\<close>

text \<open>
  \<open>sort.Search(n, f)\<close>: the loop keeps \<open>f (i - 1) = false\<close> and \<open>f j = true\<close> and halves
  \<open>j - i\<close>. Lengths of slices are far below \<open>2 ^ 63\<close>, so the midpoint does not overflow
  (Go computes it on \<open>uint\<close>).
\<close>

function sort_search_loop :: "(nat \<Rightarrow> bool) \<Rightarrow> nat \<Rightarrow> nat \<Rightarrow> nat" where
  "sort_search_loop f i j =
     (if i < j
      then let h = (i + j) div 2
           in if \<not> f h then sort_search_loop f (h + 1) j else sort_search_loop f i h
      else i)"
  by pat_completeness auto
termination
  by (relation "measure (\<lambda>(f, i, j). j - i)") auto

declare sort_search_loop.simps [simp del]

definition sort_search :: "nat \<Rightarrow> (nat \<Rightarrow> bool) \<Rightarrow> nat" where
  "sort_search n f = sort_search_loop f 0 n"

text \<open>On a predicate that is false and then true, the loop finds where it turns true.\<close>

lemma sort_search_loop_least:
  assumes "i \<le> j" and "\<And>k. k < i \<Longrightarrow> \<not> f k" and "\<And>k. j \<le> k \<Longrightarrow> k < n \<Longrightarrow> f k"
    and "\<And>k l. k \<le> l \<Longrightarrow> l < n \<Longrightarrow> f k \<Longrightarrow> f l" and "j \<le> n"
  shows "sort_search_loop f i j \<le> j \<and> (\<forall>k. k < sort_search_loop f i j \<longrightarrow> \<not> f k) \<and>
         (\<forall>k. sort_search_loop f i j \<le> k \<and> k < n \<longrightarrow> f k)"
  using assms
proof (induction f i j rule: sort_search_loop.induct)
  case (1 f i j)
  show ?case
  proof (cases "i < j")
    case False
    with "1.prems"(1) have ij: "j = i" by simp
    have "sort_search_loop f i j = i" by (simp add: ij sort_search_loop.simps [of f i i])
    with "1.prems"(2,3) show ?thesis by (auto simp: ij)
  next
    case True
    define h where "h = (i + j) div 2"
    have h: "i \<le> h" "h < j" using True by (auto simp: h_def)
    have step: "sort_search_loop f i j =
        (if \<not> f h then sort_search_loop f (h + 1) j else sort_search_loop f i h)"
      using True by (subst sort_search_loop.simps) (simp add: h_def Let_def)
    show ?thesis
    proof (cases "f h")
      case True
      have "f k" if "h \<le> k" "k < n" for k
        using "1.prems"(4) [OF that True] .
      with "1.IH"(2) [OF \<open>i < j\<close> h_def] True "1.prems" h show ?thesis
        by (simp add: step)
    next
      case False
      have "\<not> f k" if "k < h + 1" for k
      proof
        assume "f k"
        moreover have "k \<le> h" "h < n" using that h "1.prems"(5) by auto
        ultimately show False using "1.prems"(4) False by blast
      qed
      with "1.IH"(1) [OF \<open>i < j\<close> h_def] False "1.prems" h show ?thesis
        by (simp add: step)
    qed
  qed
qed

lemma sort_search_least:
  assumes "\<And>k l. k \<le> l \<Longrightarrow> l < n \<Longrightarrow> f k \<Longrightarrow> f l"
  shows "sort_search n f \<le> n" and "\<And>k. k < sort_search n f \<Longrightarrow> \<not> f k"
    and "\<And>k. sort_search n f \<le> k \<Longrightarrow> k < n \<Longrightarrow> f k"
  using sort_search_loop_least [of 0 n f n] assms by (auto simp: sort_search_def)

text \<open>
  Over a strictly increasing slice and an upward closed test, \<open>sort.Search\<close> is the number of
  elements that fail the test, and it splits the slice there.
\<close>

lemma sort_search_takeWhile:
  fixes xs :: "'a::linorder list"
  assumes "sorted_wrt (<) xs" and "\<And>x y. x < y \<Longrightarrow> P x \<Longrightarrow> P y"
  shows "sort_search (length xs) (\<lambda>i. P (xs ! i)) = length (takeWhile (\<lambda>x. \<not> P x) xs)"
    (is "?r = ?t")
proof -
  have up: "P (xs ! l)" if "k \<le> l" "l < length xs" "P (xs ! k)" for k l
  proof (cases "k = l")
    case False
    with that have "xs ! k < xs ! l"
      using sorted_wrt_nth_less [OF assms(1)] by simp
    with that assms(2) show ?thesis by blast
  qed (use that in simp)
  have least: "?r \<le> length xs" "\<And>k. k < ?r \<Longrightarrow> \<not> P (xs ! k)"
      "\<And>k. ?r \<le> k \<Longrightarrow> k < length xs \<Longrightarrow> P (xs ! k)"
    using sort_search_least [of "length xs" "\<lambda>i. P (xs ! i)"] up by blast+
  have "\<not> ?r < ?t"
  proof
    assume lt: "?r < ?t"
    have "?t \<le> length xs" by (rule length_takeWhile_le)
    with lt have "P (xs ! ?r)" using least(3) [of ?r] by simp
    moreover have "\<not> P (xs ! ?r)"
      using lt nth_mem [OF lt] by (metis set_takeWhileD takeWhile_nth)
    ultimately show False by simp
  qed
  moreover have "\<not> ?t < ?r"
  proof
    assume lt: "?t < ?r"
    with least(1) have "P (xs ! ?t)"
      using nth_length_takeWhile [of "\<lambda>x. \<not> P x" xs] by simp
    with least(2) [OF lt] show False by simp
  qed
  ultimately show ?thesis by simp
qed

lemma takeWhile_eq_filter_sorted:
  assumes "sorted_wrt (<) xs" and "\<And>x y. x < y \<Longrightarrow> P x \<Longrightarrow> P y"
  shows "takeWhile (\<lambda>x. \<not> P x) xs = filter (\<lambda>x. \<not> P x) xs"
  using assms
proof (induction xs)
  case (Cons x xs)
  then show ?case
    by (cases "P x") (auto intro!: filter_False [symmetric])
qed simp

lemma dropWhile_eq_filter_sorted:
  assumes "sorted_wrt (<) xs" and "\<And>x y. x < y \<Longrightarrow> P x \<Longrightarrow> P y"
  shows "dropWhile (\<lambda>x. \<not> P x) xs = filter P xs"
  using assms
proof (induction xs)
  case (Cons x xs)
  then show ?case
    by (cases "P x") (auto intro!: filter_True [symmetric])
qed simp

lemma sort_search_filter:
  fixes xs :: "'a::linorder list"
  assumes "sorted_wrt (<) xs" and "\<And>x y. x < y \<Longrightarrow> P x \<Longrightarrow> P y"
  shows "sort_search (length xs) (\<lambda>i. P (xs ! i)) = length (filter (\<lambda>x. \<not> P x) xs)"
    and "drop (sort_search (length xs) (\<lambda>i. P (xs ! i))) xs = filter P xs"
    and "take (sort_search (length xs) (\<lambda>i. P (xs ! i))) xs = filter (\<lambda>x. \<not> P x) xs"
  using sort_search_takeWhile [of xs P] takeWhile_eq_filter_sorted [of xs P]
    dropWhile_eq_filter_sorted [of xs P] assms
    dropWhile_eq_drop [of "\<lambda>x. \<not> P x" xs] takeWhile_eq_take [of "\<lambda>x. \<not> P x" xs]
  by simp_all

section \<open>Lists\<close>

lemma sorted_wrt_less_distinct: "sorted_wrt (<) (xs :: 'a::linorder list) \<Longrightarrow> distinct xs"
  by (induction xs) auto

lemma sorted_wrt_remove1: "sorted_wrt R xs \<Longrightarrow> sorted_wrt R (remove1 x xs)"
  by (induction xs) (auto dest: set_remove1_subset [THEN subsetD])

lemma map_remove1_inj:
  "inj_on f (insert x (set xs)) \<Longrightarrow> map f (remove1 x xs) = remove1 (f x) (map f xs)"
  by (induction xs) (auto simp: inj_on_def)

end
