(* ===== verification/GoFloat.thy ===== *)
theory GoFloat
  imports GoPrelude Complex_Main "HOL-Library.Log_Nat"
begin

text \<open>
  Go's \<open>float64\<close>, as far as gowait uses it: finite IEEE 754 binary64 values, each modelled by
  the rational number it denotes, and operations that round the exact result to the nearest
  representable value, ties to even. The values gowait computes are sums, scaled sums and
  quotients of numbers of seconds; overflow to an infinity would need more than \<open>2 ^ 1000\<close> of
  them and is not modelled, and no operation of gowait makes a NaN. Go may fuse a
  multiplication and an addition on some architectures; the model rounds after each, as on
  amd64.
\<close>

section \<open>Rounding to nearest, ties to even\<close>

type_synonym float64 = rat

definition round_even :: "rat \<Rightarrow> int" where
  "round_even y =
     (let f = floor y; r = y - of_int f
      in if r < 1 / 2 then f else if 1 / 2 < r then f + 1 else if even f then f else f + 1)"

text \<open>The position of the leading bit of a positive rational, \<open>\<lfloor>log\<^sub>2 x\<rfloor>\<close>.\<close>

definition ilog2 :: "rat \<Rightarrow> int" where
  "ilog2 x =
     (let (p, q) = quotient_of x; e = bitlen p - bitlen q
      in if x < 2 powi e then e - 1 else e)"

text \<open>
  The exponent of the last place: 53 significant bits, and not below \<open>-1074\<close>, where the
  subnormal numbers are evenly spaced.
\<close>

definition last_place :: "rat \<Rightarrow> int" where
  "last_place x = max (ilog2 \<bar>x\<bar> - 52) (- 1074)"

definition f64 :: "rat \<Rightarrow> float64" where
  "f64 x = (if x = 0 then 0
            else of_int (round_even (x / 2 powi last_place x)) * 2 powi last_place x)"

definition f_add :: "float64 \<Rightarrow> float64 \<Rightarrow> float64" where
  "f_add x y = f64 (x + y)"

definition f_mul :: "float64 \<Rightarrow> float64 \<Rightarrow> float64" where
  "f_mul x y = f64 (x * y)"

definition f_div :: "float64 \<Rightarrow> float64 \<Rightarrow> float64" where
  "f_div x y = f64 (x / y)"

definition f_of_int :: "int \<Rightarrow> float64" where
  "f_of_int n = f64 (of_int n)"

section \<open>Laws of rounding\<close>

lemma round_even_bounds: "of_int (round_even y) \<le> y + 1 / 2" "y - 1 / 2 \<le> of_int (round_even y)"
proof -
  have f: "of_int (floor y) \<le> y" "y < of_int (floor y) + 1" by linarith+
  show "of_int (round_even y) \<le> y + 1 / 2" "y - 1 / 2 \<le> of_int (round_even y)"
    unfolding round_even_def Let_def using f by (simp_all split: if_split) linarith+
qed

lemma round_even_of_int [simp]: "round_even (of_int n) = n"
  by (simp add: round_even_def)

lemma round_even_mono:
  assumes "x \<le> y"
  shows "round_even x \<le> round_even y"
proof (cases "floor x = floor y")
  case True
  then show ?thesis
    using assms unfolding round_even_def Let_def True by auto
next
  case False
  with floor_mono [OF assms] have "floor x + 1 \<le> floor y" by linarith
  moreover have "round_even x \<le> floor x + 1" "floor y \<le> round_even y"
    by (auto simp: round_even_def Let_def)
  ultimately show ?thesis by linarith
qed

lemma bitlen_bounds_rat:
  assumes "0 < p"
  shows "2 powi (bitlen p - 1) \<le> (of_int p :: rat)" and "(of_int p :: rat) < 2 powi bitlen p"
proof -
  have b: "2 ^ nat (bitlen p - 1) \<le> p" "p < 2 ^ nat (bitlen p)"
    using bitlen_bounds [of p] assms by auto
  have pos: "0 \<le> bitlen p - 1" using assms bitlen_eq_zero_iff [of p] bitlen_nonneg [of p] by linarith
  have "(of_int (2 ^ nat (bitlen p - 1)) :: rat) \<le> of_int p"
    "(of_int p :: rat) < of_int (2 ^ nat (bitlen p))"
    using b by (simp_all only: of_int_le_iff of_int_less_iff)
  with pos show "2 powi (bitlen p - 1) \<le> (of_int p :: rat)" "(of_int p :: rat) < 2 powi bitlen p"
    by (simp_all add: power_int_def)
qed

lemma ilog2_bounds:
  assumes "0 < x"
  shows "2 powi ilog2 x \<le> x" and "x < 2 powi (ilog2 x + 1)"
proof -
  obtain p q where pq: "quotient_of x = (p, q)" by fastforce
  have q: "0 < q" using quotient_of_denom_pos [OF pq] .
  have x: "x = of_int p / of_int q" using quotient_of_div [OF pq] .
  have p: "0 < p" using assms q x by (simp add: zero_less_divide_iff)
  note bp = bitlen_bounds_rat [OF p] and bq = bitlen_bounds_rat [OF q]
  have q0: "(0::rat) < of_int q" using q by simp
  let ?e = "bitlen p - bitlen q"
  have "(2::rat) powi (?e - 1) * of_int q < 2 powi (?e - 1) * 2 powi bitlen q"
    using bq(2) by simp
  also have "\<dots> = 2 powi (bitlen p - 1)" by (simp flip: power_int_add)
  also have "\<dots> \<le> of_int p" by (rule bp(1))
  finally have lo: "2 powi (?e - 1) < x" using q0 by (simp add: x pos_less_divide_eq)
  have "(of_int p :: rat) < 2 powi bitlen p" by (rule bp(2))
  also have "\<dots> = 2 powi (?e + 1) * 2 powi (bitlen q - 1)" by (simp flip: power_int_add)
  also have "\<dots> \<le> 2 powi (?e + 1) * of_int q" using bq(1) by simp
  finally have hi: "x < 2 powi (?e + 1)" using q0 by (simp add: x pos_divide_less_eq)
  show "2 powi ilog2 x \<le> x" "x < 2 powi (ilog2 x + 1)"
    using lo hi by (auto simp: ilog2_def pq Let_def)
qed

lemma powi2_add_nat: "(2::rat) powi (a + int n) = 2 ^ n * 2 powi a"
  by (simp add: power_int_add)

lemmas powi2_52 = powi2_add_nat [of _ 52, simplified] and powi2_53 = powi2_add_nat [of _ 53, simplified]

lemma powi2_less_iff: "(2::rat) powi a < 2 powi b \<longleftrightarrow> a < b"
  by (metis one_less_numeral_iff power_int_strict_increasing power_int_increasing not_less
      less_imp_le semiring_norm(76) zero_less_numeral one_le_numeral)

lemma ilog2_mono:
  assumes "0 < x" "x \<le> y"
  shows "ilog2 x \<le> ilog2 y"
proof -
  have "(2::rat) powi ilog2 x < 2 powi (ilog2 y + 1)"
    using ilog2_bounds(1) [OF assms(1)] ilog2_bounds(2) [of y] assms by linarith
  then show ?thesis by (simp add: powi2_less_iff)
qed

lemma f64_0 [simp]: "f64 0 = 0"
  by (simp add: f64_def)

text \<open>An integral multiple of the unit in the last place is representable.\<close>

lemma f64_exact:
  assumes "x = of_int n * 2 powi last_place x"
  shows "f64 x = x"
proof (cases "x = 0")
  case False
  have "x / 2 powi last_place x = of_int n"
    using assms by (metis nonzero_mult_div_cancel_right power_int_not_zero zero_neq_numeral)
  with False assms show ?thesis by (simp add: f64_def)
qed simp

lemma f64_multiple:
  assumes "x = of_int n * 2 powi k" and "\<bar>x\<bar> < 2 powi (k + 53)" and "- 1074 \<le> k"
  shows "f64 x = x"
proof (cases "x = 0")
  case False
  then have pos: "0 < \<bar>x\<bar>" by simp
  have "(2::rat) powi ilog2 \<bar>x\<bar> < 2 powi (k + 53)"
    using ilog2_bounds(1) [OF pos] assms(2) by linarith
  then have le: "last_place x \<le> k" using assms(3) by (simp add: last_place_def powi2_less_iff)
  have "x = of_int (n * 2 ^ nat (k - last_place x)) * 2 powi last_place x"
  proof -
    have "(2::rat) powi k = 2 powi (k - last_place x) * 2 powi last_place x"
      by (simp flip: power_int_add)
    moreover have "(2::rat) powi (k - last_place x) = of_int (2 ^ nat (k - last_place x))"
      using le by (simp add: power_int_def)
    ultimately show ?thesis using assms(1) by simp
  qed
  then show ?thesis by (rule f64_exact)
qed simp

lemma f64_of_int:
  assumes "\<bar>n\<bar> < 2 ^ 53"
  shows "f64 (of_int n) = of_int n"
proof (rule f64_multiple [of _ n 0])
  have "\<bar>of_int n :: rat\<bar> = of_int \<bar>n\<bar>" by simp
  also have "\<dots> < of_int (2 ^ 53)" using assms by (simp only: of_int_less_iff)
  finally show "\<bar>of_int n :: rat\<bar> < 2 powi (0 + 53)" by (simp add: power_int_def)
qed simp_all

lemma f64_powi:
  assumes "- 1074 \<le> k"
  shows "f64 (2 powi k) = 2 powi k"
  using assms by (intro f64_multiple [of _ 1 k]) (simp_all add: power_int_add)

lemma f64_minus_mono_aux:
  assumes "0 < x" "x \<le> y"
  shows "f64 x \<le> f64 y"
proof -
  let ?a = "last_place x" and ?b = "last_place y"
  have ab: "?a \<le> ?b" using ilog2_mono [OF assms] assms by (simp add: last_place_def)
  have fx: "f64 x = of_int (round_even (x / 2 powi ?a)) * 2 powi ?a"
    and fy: "f64 y = of_int (round_even (y / 2 powi ?b)) * 2 powi ?b"
    using assms by (simp_all add: f64_def)
  have pos: "(0::rat) < 2 powi ?a" "(0::rat) < 2 powi ?b" by simp_all
  show ?thesis
  proof (cases "?a = ?b")
    case True
    have "x / 2 powi ?a \<le> y / 2 powi ?b" using assms True by (simp add: divide_right_mono)
    then have "round_even (x / 2 powi ?a) \<le> round_even (y / 2 powi ?b)" by (rule round_even_mono)
    then show ?thesis by (simp add: fx fy True)
  next
    case False
    with ab have lt: "?a < ?b" by simp
    then have b: "?b = ilog2 y - 52" using assms by (auto simp: last_place_def split: if_splits)
    have a: "ilog2 x - 52 \<le> ?a" using assms by (simp add: last_place_def)
    have "x < 2 powi (ilog2 x + 1)" using ilog2_bounds(2) assms by blast
    also have "\<dots> \<le> 2 powi (?a + 53)" using a by (intro power_int_increasing) simp_all
    finally have "x / 2 powi ?a \<le> of_int (2 ^ 53)"
      by (simp add: pos_divide_le_eq [OF pos(1)] powi2_53)
    then have "round_even (x / 2 powi ?a) \<le> round_even (of_int (2 ^ 53))" by (rule round_even_mono)
    then have "f64 x \<le> of_int (2 ^ 53) * 2 powi ?a"
      unfolding fx by (metis mult_right_mono of_int_le_iff pos(1) less_imp_le round_even_of_int)
    also have "\<dots> = 2 powi (?a + 53)" by (simp add: powi2_53)
    also have "\<dots> \<le> 2 powi (?b + 52)" using lt by (intro power_int_increasing) simp_all
    also have "\<dots> = of_int (2 ^ 52) * 2 powi ?b" by (simp add: powi2_52)
    also have "\<dots> \<le> f64 y"
    proof -
      have "2 powi (?b + 52) \<le> y" using ilog2_bounds(1) [of y] assms b by simp
      then have "of_int (2 ^ 52) \<le> y / 2 powi ?b"
        by (simp add: pos_le_divide_eq [OF pos(2)] powi2_52)
      then have "round_even (of_int (2 ^ 52)) \<le> round_even (y / 2 powi ?b)" by (rule round_even_mono)
      then show ?thesis
        unfolding fy by (metis mult_right_mono of_int_le_iff pos(2) less_imp_le round_even_of_int)
    qed
    finally show ?thesis .
  qed
qed

lemma f64_nonneg: "0 \<le> x \<Longrightarrow> 0 \<le> f64 x"
proof -
  assume x: "0 \<le> x"
  have "round_even (of_int 0) \<le> round_even (x / 2 powi last_place x)"
    using x by (intro round_even_mono) simp
  then have "0 \<le> round_even (x / 2 powi last_place x)" by (simp only: round_even_of_int)
  then show ?thesis by (simp add: f64_def)
qed

lemma f64_mono_nonneg: "0 \<le> x \<Longrightarrow> x \<le> y \<Longrightarrow> f64 x \<le> f64 y"
  by (cases "x = 0") (auto simp: f64_nonneg intro: f64_minus_mono_aux)

lemma f_add_nonneg: "0 \<le> x \<Longrightarrow> 0 \<le> y \<Longrightarrow> 0 \<le> f_add x y"
  by (simp add: f_add_def f64_nonneg)

lemma f_mul_nonneg: "0 \<le> x \<Longrightarrow> 0 \<le> y \<Longrightarrow> 0 \<le> f_mul x y"
  by (simp add: f_mul_def f64_nonneg)

lemma f_div_nonneg: "0 \<le> x \<Longrightarrow> 0 \<le> y \<Longrightarrow> 0 \<le> f_div x y"
  by (simp add: f_div_def f64_nonneg)

lemma f_of_int_nonneg: "0 \<le> n \<Longrightarrow> 0 \<le> f_of_int n"
  by (simp add: f_of_int_def f64_nonneg)

lemma f_of_int_exact: "\<bar>n\<bar> < 2 ^ 53 \<Longrightarrow> f_of_int n = of_int n"
  by (simp add: f_of_int_def f64_of_int)

section \<open>Rounding errors\<close>

text \<open>A rounded value is within half a unit in the last place: relatively, within \<open>2 ^ - 53\<close>.\<close>

definition unit_roundoff :: rat where
  "unit_roundoff = 1 / 2 ^ 53"

definition near :: "nat \<Rightarrow> rat \<Rightarrow> rat \<Rightarrow> bool" where
  "near k x y \<longleftrightarrow> y * (1 - unit_roundoff) ^ k \<le> x \<and> x \<le> y * (1 + unit_roundoff) ^ k"

lemma unit_roundoff_bounds [simp]: "0 < unit_roundoff" "0 \<le> unit_roundoff" "unit_roundoff < 1" "unit_roundoff \<le> 1"
  by (simp_all add: unit_roundoff_def)

lemma f64_error:
  assumes "2 powi (- 1000) \<le> x"
  shows "\<bar>f64 x - x\<bar> \<le> x * unit_roundoff"
proof -
  let ?p = "2 powi last_place x :: rat"
  have x: "0 < x" using assms by (rule less_le_trans [rotated]) simp
  have p: "0 < ?p" by simp
  have "\<bar>of_int (round_even (x / ?p)) - x / ?p\<bar> \<le> 1 / 2"
    using round_even_bounds [of "x / ?p"] by linarith
  then have "\<bar>of_int (round_even (x / ?p)) - x / ?p\<bar> * ?p \<le> 1 / 2 * ?p"
    using p by (intro mult_right_mono) simp_all
  moreover have "\<bar>of_int (round_even (x / ?p)) - x / ?p\<bar> * ?p = \<bar>f64 x - x\<bar>"
    using x p by (simp add: f64_def abs_mult_pos left_diff_distrib)
  moreover have "?p \<le> x * 2 * unit_roundoff"
  proof -
    have "(2::rat) powi (- 1000) < 2 powi (ilog2 x + 1)" using ilog2_bounds(2) [OF x] assms by linarith
    then have "- 1000 < ilog2 x + 1" by (simp only: powi2_less_iff)
    then have "last_place x = ilog2 x - 52" using x by (simp add: last_place_def)
    then have "2 powi ilog2 x = 2 ^ 52 * ?p" using powi2_52 [of "ilog2 x - 52"] by simp
    then have "2 ^ 52 * ?p \<le> x" using ilog2_bounds(1) [OF x] by linarith
    then show ?thesis by (simp add: unit_roundoff_def)
  qed
  ultimately show ?thesis by linarith
qed

lemma near_f64: "x = 0 \<or> 2 powi (- 1000) \<le> x \<Longrightarrow> near 1 (f64 x) x"
  using f64_error [of x] by (auto simp: near_def algebra_simps abs_le_iff)

lemma near_trans:
  assumes "near j x y" "near k y z"
  shows "near (j + k) x z"
proof -
  have "z * (1 - unit_roundoff) ^ k * (1 - unit_roundoff) ^ j \<le> y * (1 - unit_roundoff) ^ j"
    "y * (1 + unit_roundoff) ^ j \<le> z * (1 + unit_roundoff) ^ k * (1 + unit_roundoff) ^ j"
    using assms(2) by (auto simp: near_def intro!: mult_right_mono)
  moreover have "z * (1 - unit_roundoff) ^ (j + k) = z * (1 - unit_roundoff) ^ k * (1 - unit_roundoff) ^ j"
    "z * (1 + unit_roundoff) ^ (j + k) = z * (1 + unit_roundoff) ^ k * (1 + unit_roundoff) ^ j"
    by (simp_all add: power_add)
  ultimately show ?thesis using assms(1) unfolding near_def by linarith
qed

lemma near_weaken:
  assumes "near j x y" "j \<le> k" "0 \<le> y"
  shows "near k x y"
proof -
  have "(1 - unit_roundoff) ^ k \<le> (1 - unit_roundoff) ^ j" "(1 + unit_roundoff) ^ j \<le> (1 + unit_roundoff) ^ k"
    using assms(2) by (auto intro!: power_decreasing power_increasing)
  then have "y * (1 - unit_roundoff) ^ k \<le> y * (1 - unit_roundoff) ^ j"
    "y * (1 + unit_roundoff) ^ j \<le> y * (1 + unit_roundoff) ^ k"
    using assms(3) by (auto intro!: mult_left_mono)
  with assms(1) show ?thesis unfolding near_def by linarith
qed

lemma near_add: "near k x y \<Longrightarrow> near k x' y' \<Longrightarrow> near k (x + x') (y + y')"
  unfolding near_def distrib_right by linarith

lemma near_mult:
  assumes "near k x y" "0 \<le> c"
  shows "near k (c * x) (c * y)"
  using assms mult_left_mono [OF _ assms(2)] by (simp add: near_def mult.assoc)

lemma near_refl: "near 0 x x"
  by (simp add: near_def)

lemma near_nonneg: "near k x y \<Longrightarrow> 0 \<le> y \<Longrightarrow> 0 \<le> x"
  unfolding near_def by (meson mult_nonneg_nonneg order_trans diff_ge_0_iff_ge unit_roundoff_bounds(4) zero_le_power)

section \<open>Durations in seconds\<close>

text \<open>
  \<open>Duration.Seconds\<close>: the whole seconds and the nanoseconds are converted separately
  (\<open>sdiv\<close> and \<open>smod\<close> truncate towards zero, as Go's operators do).
\<close>

definition seconds :: "dur \<Rightarrow> float64" where
  "seconds d = f_add (f_of_int (d sdiv second)) (f_div (f_of_int (d smod second)) (f_of_int second))"

lemma seconds_nonneg:
  assumes "0 \<le> d"
  shows "0 \<le> seconds d"
proof -
  have "d sdiv second = d div second" "d smod second = d mod second"
    using assms by (simp_all add: sdiv_nonneg smod_nonneg)
  moreover have "0 \<le> d div second" "0 \<le> d mod second" using assms by simp_all
  ultimately show ?thesis
    by (simp add: seconds_def f_add_nonneg f_div_nonneg f_of_int_nonneg)
qed

lemma seconds_0 [simp]: "seconds 0 = 0"
  by (simp add: seconds_def f_of_int_def f_div_def f_add_def)

text \<open>A whole number of seconds converts exactly.\<close>

lemma seconds_whole:
  assumes "\<bar>n\<bar> < 2 ^ 53"
  shows "seconds (n * second) = of_int n"
proof -
  have "(n * second) sdiv second = n" "(n * second) smod second = 0"
    by (simp_all add: sdiv_mult_cancel smod_mult_zero)
  then show ?thesis
    using assms by (simp add: seconds_def f_of_int_def f_div_def f_add_def f64_of_int)
qed

text \<open>Otherwise two roundings come between a duration and its number of seconds.\<close>

lemma seconds_near:
  assumes "0 \<le> d" "d < 2 ^ 63"
  shows "near 2 (seconds d) (of_int d / of_int second)"
proof -
  let ?q = "d div second" and ?r = "d mod second"
  have qr: "d sdiv second = ?q" "d smod second = ?r" using assms by (simp_all add: sdiv_nonneg smod_nonneg)
  have q: "0 \<le> ?q" "?q < 2 ^ 53" and r: "0 \<le> ?r" "?r < 2 ^ 53" using assms by simp_all
  have exact: "f_of_int ?q = of_int ?q" "f_of_int ?r = of_int ?r" "f_of_int second = of_int second"
    using q r by (simp_all add: f_of_int_exact)
  have d: "(of_int d :: rat) = of_int ?q * of_int second + of_int ?r"
    by (metis div_mult_mod_eq of_int_add of_int_mult)
  have tiny: "y = 0 \<or> 2 powi (- 1000) \<le> y" if "y = of_int n / of_int second" "0 \<le> n" for y :: rat and n
  proof (cases "n = 0")
    case False
    have "(2::rat) powi (- 1000) \<le> 1 / of_int second" by (simp add: power_int_def field_simps)
    also have "\<dots> \<le> y" using False that by (simp add: divide_right_mono)
    finally show ?thesis ..
  qed (use that in simp)
  have frac: "near 1 (f64 (of_int ?r / of_int second)) (of_int ?r / of_int second)"
    by (rule near_f64 [OF tiny [OF refl r(1)]])
  have eq: "of_int d / of_int second = (of_int ?q + of_int ?r / of_int second :: rat)"
    by (subst d) (simp add: add_divide_distrib)
  have sum: "near 1 (of_int ?q + f64 (of_int ?r / of_int second)) (of_int d / of_int second)"
    unfolding eq using near_weaken [OF near_refl, of 1 "of_int ?q"] q frac by (intro near_add) simp_all
  let ?s = "of_int ?q + f64 (of_int ?r / of_int second) :: rat"
  have "?s = 0 \<or> 2 powi (- 1000) \<le> ?s"
  proof (cases "d = 0")
    case False
    have "(2::rat) powi (- 1000) \<le> 1 / of_int second * (1 - unit_roundoff)"
      by (simp add: power_int_def unit_roundoff_def field_simps)
    also have "\<dots> \<le> of_int d / of_int second * (1 - unit_roundoff)"
      using False assms by (intro mult_right_mono divide_right_mono) simp_all
    also have "\<dots> \<le> ?s" using sum by (simp add: near_def)
    finally show ?thesis ..
  qed simp
  from near_trans [OF near_f64 [OF this] sum] show ?thesis
    by (simp add: seconds_def qr exact f_add_def f_div_def numeral_2_eq_2)
qed

text \<open>Conversion of a float to an integer discards the fraction.\<close>

definition f_trunc :: "float64 \<Rightarrow> int" where
  "f_trunc x = (if 0 \<le> x then floor x else - floor (- x))"

text \<open>Up to forty-eight days, the roundings do not reach the next second.\<close>

lemma trunc_seconds:
  assumes "0 \<le> d" "d < 2 ^ 22 * second"
  shows "f_trunc (seconds d) = d div second"
proof -
  let ?q = "d div second" and ?r = "d mod second"
  have q: "0 \<le> ?q" "?q < 2 ^ 53" and r: "0 \<le> ?r" using assms by simp_all
  have "f64 (of_int ?q) \<le> f_add (of_int ?q) (f_div (f_of_int ?r) (f_of_int second))"
    unfolding f_add_def using q r by (intro f64_mono_nonneg) (simp_all add: f_div_nonneg f_of_int_nonneg)
  moreover have "seconds d = f_add (of_int ?q) (f_div (f_of_int ?r) (f_of_int second))"
    using assms q by (simp add: seconds_def sdiv_nonneg smod_nonneg f_of_int_exact)
  ultimately have lower: "of_int ?q \<le> seconds d" using q by (simp add: f64_of_int)
  have "d < 2 ^ 63" using assms by simp
  note near = seconds_near [OF assms(1) this]
  have e: "(of_int d :: rat) = of_int ?q * of_int second + of_int ?r"
    by (metis div_mult_mod_eq of_int_add of_int_mult)
  have "?r + 1 \<le> second" by simp
  then have "(of_int ?r :: rat) + 1 \<le> of_int second" by (metis of_int_1 of_int_add of_int_le_iff)
  then have "(of_int d :: rat) / of_int second + 1 / of_int second \<le> of_int ?q + 1"
    unfolding e by (simp add: add_divide_distrib)
  moreover have "seconds d < of_int d / of_int second + 1 / of_int second"
  proof -
    have "(of_int d :: rat) < of_int (2 ^ 22 * second)" using assms(2) by (simp only: of_int_less_iff)
    then show ?thesis using near by (simp add: near_def unit_roundoff_def eval_nat_numeral)
  qed
  ultimately have "seconds d < of_int ?q + 1" by linarith
  with lower have "floor (seconds d) = ?q" by (intro floor_unique) simp_all
  then show ?thesis using lower q by (simp add: f_trunc_def)
qed

end
