(* ===== verification/StoreTypes.thy ===== *)
theory StoreTypes
  imports GoFloat
begin

text \<open>
  \<^verbatim>\<open>internal/store/store.go\<close>: the data the store operations return and the \<open>Store\<close> interface
  itself, as a record of operations that a client (the queue controller) receives. Each
  operation takes the backend's state and returns its result and the new state; the
  \<open>context.Context\<close> argument carries no data and is dropped.
\<close>

section \<open>Data\<close>

datatype status = StatusUnknown | StatusQueued | StatusActive

record snapshot =
  sn_Status :: status
  sn_Position :: int
  sn_QueueLength :: int
  sn_ActiveCount :: int

record stats =
  st_QueueLength :: int
  st_ActiveCount :: int
  st_AvgSessionSecs :: float64

record reconcile_result =
  rr_Promoted :: int
  rr_Expired :: int
  rr_Evicted :: int
  rr_WaitedSecs :: "float64 list"

text \<open>The zero value of each struct, which Go returns beside an error and starts from.\<close>

definition zero_snapshot :: snapshot where
  "zero_snapshot = \<lparr>sn_Status = StatusUnknown, sn_Position = 0, sn_QueueLength = 0, sn_ActiveCount = 0\<rparr>"

definition zero_reconcile_result :: reconcile_result where
  "zero_reconcile_result = \<lparr>rr_Promoted = 0, rr_Expired = 0, rr_Evicted = 0, rr_WaitedSecs = []\<rparr>"

section \<open>The Store interface\<close>

record 's store_ops =
  op_TryAdmit :: "string \<Rightarrow> int \<Rightarrow> time \<Rightarrow> 's \<Rightarrow> bool result \<times> 's"
  op_Enqueue :: "string \<Rightarrow> time \<Rightarrow> 's \<Rightarrow> snapshot result \<times> 's"
  op_Lookup :: "string \<Rightarrow> time \<Rightarrow> 's \<Rightarrow> snapshot result \<times> 's"
  op_Touch :: "string \<Rightarrow> time \<Rightarrow> 's \<Rightarrow> bool result \<times> 's"
  op_Reconcile :: "int \<Rightarrow> dur \<Rightarrow> dur \<Rightarrow> time \<Rightarrow> 's \<Rightarrow> reconcile_result result \<times> 's"
  op_Stats :: "'s \<Rightarrow> stats result \<times> 's"
  op_SetCapacity :: "int \<Rightarrow> 's \<Rightarrow> unit result \<times> 's"
  op_GetCapacity :: "'s \<Rightarrow> (int \<times> bool) result \<times> 's"
  op_Flush :: "'s \<Rightarrow> int result \<times> 's"

text \<open>
  \<open>Locker\<close>: leases across replicas. A store may implement it; \<open>TryLock\<close> takes the named lease for a
  duration if it is free.
\<close>

record 's locker_ops =
  lk_TryLock :: "string \<Rightarrow> dur \<Rightarrow> 's \<Rightarrow> bool result \<times> 's"

end
