(* ===== verification/MemoryStore.thy ===== *)
theory MemoryStore
  imports StoreTypes
begin

text \<open>
  \<^verbatim>\<open>internal/store/memory/memory.go\<close>: the in-process store. Entries are heap objects that the
  \<open>entries\<close> map and the \<open>queue\<close> list share by pointer, so the model keeps an explicit heap
  from addresses to entries; the map and the list hold addresses. The mutex makes each
  operation atomic, so an operation is a function on the whole store. The order in which
  \<open>Reconcile\<close> ranges over the \<open>entries\<close> map is unspecified in Go: it is an argument.
  The queue holds pointers in order, as \<open>container/list\<close> does; the sequence numbers are
  64-bit unsigned words.
\<close>

section \<open>State\<close>

type_synonym addr = nat

record entry =
  e_id :: string
  e_status :: status
  e_enqueuedAt :: time
  e_admittedAt :: time
  e_lastSeen :: time
  e_elem :: bool \<comment> \<open>\<open>elem\<close> is not nil; the code never reads it\<close>
  e_seq :: "64 word"

record mem_store =
  heap :: "addr \<Rightarrow> entry"
  fresh :: addr \<comment> \<open>addresses from here on have not been allocated\<close>
  entries :: "string \<rightharpoonup> addr"
  queue :: "addr list"
  active :: int
  avgSession :: float64
  capacity :: int
  capacitySet :: bool
  nextSeq :: "64 word"
  holes :: "64 word list"

definition zero_entry :: entry where
  "zero_entry = \<lparr>e_id = [], e_status = StatusUnknown, e_enqueuedAt = zero_time,
     e_admittedAt = zero_time, e_lastSeen = zero_time, e_elem = False, e_seq = 0\<rparr>"

definition New :: mem_store where
  "New = \<lparr>heap = (\<lambda>_. zero_entry), fresh = 0, entries = Map.empty, queue = [], active = 0,
     avgSession = 0, capacity = 0, capacitySet = False, nextSeq = 0, holes = []\<rparr>"

text \<open>\<open>&entry{...}\<close> allocates; a field assignment through a pointer updates the heap.\<close>

definition alloc :: "entry \<Rightarrow> mem_store \<Rightarrow> addr \<times> mem_store" where
  "alloc e s = (fresh s, s\<lparr>heap := (heap s)(fresh s := e), fresh := fresh s + 1\<rparr>)"

definition update_entry :: "addr \<Rightarrow> (entry \<Rightarrow> entry) \<Rightarrow> mem_store \<Rightarrow> mem_store" where
  "update_entry a f s = s\<lparr>heap := (heap s)(a := f (heap s a))\<rparr>"

definition set_lastSeen :: "addr \<Rightarrow> time \<Rightarrow> mem_store \<Rightarrow> mem_store" where
  "set_lastSeen a now s = update_entry a (\<lambda>e. e\<lparr>e_lastSeen := now\<rparr>) s"

definition admitLocked :: "addr \<Rightarrow> time \<Rightarrow> mem_store \<Rightarrow> mem_store" where
  "admitLocked a now s =
     (update_entry a (\<lambda>e. e\<lparr>e_status := StatusActive, e_admittedAt := now, e_lastSeen := now\<rparr>) s)
       \<lparr>active := active s + 1\<rparr>"

section \<open>Snapshots and holes\<close>

text \<open>
  The position of a queued entry is its distance in sequence numbers to the front, less the
  holes in between; \<open>int(e.seq - front.seq)\<close> converts the unsigned difference to a signed
  64-bit integer. Reading the front of an empty list would dereference a nil pointer.
\<close>

definition seq_position :: "mem_store \<Rightarrow> entry \<Rightarrow> entry \<Rightarrow> int" where
  "seq_position s front e =
     (let lo = sort_search (length (holes s)) (\<lambda>i. e_seq front < holes s ! i);
          hi = sort_search (length (holes s)) (\<lambda>i. e_seq e \<le> holes s ! i)
      in s64 (s64 (sint (e_seq e - e_seq front) + 1) - (int hi - int lo)))"

definition snapshotLocked :: "mem_store \<Rightarrow> addr \<Rightarrow> snapshot result" where
  "snapshotLocked s a =
     (let e = heap s a;
          snap = \<lparr>sn_Status = e_status e, sn_Position = 0,
                  sn_QueueLength = int (length (queue s)), sn_ActiveCount = active s\<rparr>
      in if e_status e = StatusQueued
         then (case queue s of
                 [] \<Rightarrow> Panic
               | f # _ \<Rightarrow> Ok (snap\<lparr>sn_Position := seq_position s (heap s f) e\<rparr>))
         else Ok snap)"

definition addHoleLocked :: "64 word \<Rightarrow> mem_store \<Rightarrow> mem_store" where
  "addHoleLocked sq s =
     (if holes s = [] \<or> last (holes s) < sq then s\<lparr>holes := holes s @ [sq]\<rparr>
      else let i = sort_search (length (holes s)) (\<lambda>i. sq < holes s ! i)
           in s\<lparr>holes := take i (holes s) @ sq # drop i (holes s)\<rparr>)"

definition pruneHolesLocked :: "mem_store \<Rightarrow> mem_store" where
  "pruneHolesLocked s =
     (case queue s of
        [] \<Rightarrow> s\<lparr>holes := []\<rparr>
      | f # _ \<Rightarrow>
          let fs = e_seq (heap s f);
              i = sort_search (length (holes s)) (\<lambda>i. fs < holes s ! i)
          in s\<lparr>holes := drop i (holes s)\<rparr>)"

section \<open>Operations\<close>

definition TryAdmit :: "string \<Rightarrow> int \<Rightarrow> time \<Rightarrow> mem_store \<Rightarrow> bool result \<times> mem_store" where
  "TryAdmit i cap now s =
     (if (case entries s i of Some a \<Rightarrow> e_status (heap s a) = StatusActive | None \<Rightarrow> False)
      then (Ok True, set_lastSeen (the (entries s i)) now s)
      else if active s \<ge> cap \<or> length (queue s) > 0 then (Ok False, s)
      else case entries s i of
             None \<Rightarrow>
               (let (a, s1) = alloc (zero_entry\<lparr>e_id := i\<rparr>) s;
                    s2 = s1\<lparr>entries := (entries s1)(i \<mapsto> a)\<rparr>
                in (Ok True, admitLocked a now s2))
           | Some a \<Rightarrow> (Ok True, admitLocked a now s))"

definition Enqueue :: "string \<Rightarrow> time \<Rightarrow> mem_store \<Rightarrow> snapshot result \<times> mem_store" where
  "Enqueue i now s =
     (let (a, s') =
        (case entries s i of
           Some a \<Rightarrow> (a, s)
         | None \<Rightarrow>
             let s0 = s\<lparr>nextSeq := nextSeq s + 1\<rparr>;
                 (a, s1) = alloc (zero_entry\<lparr>e_id := i, e_status := StatusQueued,
                                    e_enqueuedAt := now, e_seq := nextSeq s0\<rparr>) s0;
                 s2 = s1\<lparr>entries := (entries s1)(i \<mapsto> a)\<rparr>;
                 s3 = s2\<lparr>queue := queue s2 @ [a]\<rparr>
             in (a, update_entry a (\<lambda>e. e\<lparr>e_elem := True\<rparr>) s3));
          s'' = set_lastSeen a now s'
      in (snapshotLocked s'' a, s''))"

definition Lookup :: "string \<Rightarrow> time \<Rightarrow> mem_store \<Rightarrow> snapshot result \<times> mem_store" where
  "Lookup i now s =
     (case entries s i of
        None \<Rightarrow> (Ok \<lparr>sn_Status = StatusUnknown, sn_Position = 0,
                      sn_QueueLength = int (length (queue s)), sn_ActiveCount = active s\<rparr>, s)
      | Some a \<Rightarrow> let s' = set_lastSeen a now s in (snapshotLocked s' a, s'))"

definition Touch :: "string \<Rightarrow> time \<Rightarrow> mem_store \<Rightarrow> bool result \<times> mem_store" where
  "Touch i now s =
     (case entries s i of
        None \<Rightarrow> (Ok False, s)
      | Some a \<Rightarrow> if e_status (heap s a) \<noteq> StatusActive then (Ok False, s)
                  else (Ok True, set_lastSeen a now s))"

text \<open>\<open>emaAlpha = 0.2\<close>; the constant \<open>1-emaAlpha\<close> is exact before its conversion.\<close>

definition ema_step :: "float64 \<Rightarrow> float64 \<Rightarrow> float64" where
  "ema_step avg duration =
     (if avg = 0 then duration
      else f_add (f_mul (f64 (1 / 5)) duration) (f_mul (f64 (4 / 5)) avg))"

definition session_duration :: "entry \<Rightarrow> float64" where
  "session_duration e = seconds (time_sub (e_lastSeen e) (e_admittedAt e))"

text \<open>Step 1 of \<open>Reconcile\<close>, over the ids in the order the range statement visits them.\<close>

fun expireActives ::
  "dur \<Rightarrow> time \<Rightarrow> string list \<Rightarrow> mem_store \<times> reconcile_result \<Rightarrow> mem_store \<times> reconcile_result" where
  "expireActives ttl now [] (s, res) = (s, res)"
| "expireActives ttl now (i # is) (s, res) =
     (case entries s i of
        None \<Rightarrow> expireActives ttl now is (s, res)
      | Some a \<Rightarrow>
          let e = heap s a
          in if e_status e = StatusActive \<and> time_sub now (e_lastSeen e) > ttl
             then expireActives ttl now is
                    (s\<lparr>avgSession := ema_step (avgSession s) (session_duration e),
                       entries := (entries s)(i := None),
                       active := active s - 1\<rparr>,
                     res\<lparr>rr_Expired := rr_Expired res + 1\<rparr>)
             else expireActives ttl now is (s, res))"

text \<open>
  Step 2: the cursor walks the list it edits, taking the next element before the removal, so
  it visits the elements that were there at the start.
\<close>

fun evictGhosts ::
  "dur \<Rightarrow> time \<Rightarrow> addr list \<Rightarrow> mem_store \<times> reconcile_result \<Rightarrow> mem_store \<times> reconcile_result" where
  "evictGhosts ttl now [] (s, res) = (s, res)"
| "evictGhosts ttl now (a # as) (s, res) =
     (let e = heap s a
      in if time_sub now (e_lastSeen e) > ttl
         then evictGhosts ttl now as
                (addHoleLocked (e_seq e)
                   (s\<lparr>queue := remove1 a (queue s), entries := (entries s)(e_id e := None)\<rparr>),
                 res\<lparr>rr_Evicted := rr_Evicted res + 1\<rparr>)
         else evictGhosts ttl now as (s, res))"

text \<open>Step 3: pop the front while there is a free slot.\<close>

function promoteHeads ::
  "int \<Rightarrow> time \<Rightarrow> mem_store \<times> reconcile_result \<Rightarrow> mem_store \<times> reconcile_result" where
  "promoteHeads cap now (s, res) =
     (if active s < cap
      then case queue s of
             [] \<Rightarrow> (s, res)
           | a # rest \<Rightarrow>
               let s1 = update_entry a (\<lambda>e. e\<lparr>e_elem := False\<rparr>) (s\<lparr>queue := rest\<rparr>);
                   w = seconds (time_sub now (e_enqueuedAt (heap s1 a)))
               in promoteHeads cap now
                    (admitLocked a now s1,
                     res\<lparr>rr_WaitedSecs := rr_WaitedSecs res @ [w],
                         rr_Promoted := rr_Promoted res + 1\<rparr>)
      else (s, res))"
  by pat_completeness auto
termination
  by (relation "measure (\<lambda>(_, _, s, _). length (queue s))")
     (auto simp: admitLocked_def update_entry_def)

declare promoteHeads.simps [simp del]

type_synonym range_order = "(string \<rightharpoonup> addr) \<Rightarrow> string list"

definition Reconcile ::
  "range_order \<Rightarrow> int \<Rightarrow> dur \<Rightarrow> dur \<Rightarrow> time \<Rightarrow> mem_store \<Rightarrow> reconcile_result result \<times> mem_store" where
  "Reconcile ord cap activeTTL queueTTL now s =
     (let (s1, res1) = expireActives activeTTL now (ord (entries s)) (s, zero_reconcile_result);
          (s2, res2) = evictGhosts queueTTL now (queue s1) (s1, res1);
          (s3, res3) = promoteHeads cap now (s2, res2)
      in (Ok res3, pruneHolesLocked s3))"

definition Stats :: "mem_store \<Rightarrow> stats result \<times> mem_store" where
  "Stats s = (Ok \<lparr>st_QueueLength = int (length (queue s)), st_ActiveCount = active s,
                  st_AvgSessionSecs = avgSession s\<rparr>, s)"

definition SetCapacity :: "int \<Rightarrow> mem_store \<Rightarrow> unit result \<times> mem_store" where
  "SetCapacity cap s = (Ok (), s\<lparr>capacity := cap, capacitySet := True\<rparr>)"

definition GetCapacity :: "mem_store \<Rightarrow> (int \<times> bool) result \<times> mem_store" where
  "GetCapacity s = (Ok (capacity s, capacitySet s), s)"

definition Flush :: "mem_store \<Rightarrow> int result \<times> mem_store" where
  "Flush s =
     (let n = int (length (queue s));
          es = fold (\<lambda>a m. m(e_id (heap s a) := None)) (queue s) (entries s)
      in (Ok n, s\<lparr>entries := es, queue := [], holes := []\<rparr>))"

definition memory_ops :: "range_order \<Rightarrow> mem_store store_ops" where
  "memory_ops ord = \<lparr>op_TryAdmit = TryAdmit, op_Enqueue = Enqueue, op_Lookup = Lookup,
     op_Touch = Touch, op_Reconcile = Reconcile ord, op_Stats = Stats,
     op_SetCapacity = SetCapacity, op_GetCapacity = GetCapacity, op_Flush = Flush\<rparr>"

end
