(* ===== verification/MemorySeq.thy ===== *)
theory MemorySeq
  imports MemoryStore
begin

text \<open>
  Why sequence numbers and holes give exact positions (\<open>snapshotLocked\<close>, \<open>addHoleLocked\<close>,
  \<open>pruneHolesLocked\<close> of \<^verbatim>\<open>memory.go\<close>), stated on the lists alone: \<open>seq_ok sq hs n\<close> says that
  the numbers \<open>sq\<close> of the queue and the holes \<open>hs\<close> are strictly increasing, disjoint, and
  together fill the interval from the front's number to the last number \<open>n\<close> given out.
\<close>

definition seq_ok :: "64 word list \<Rightarrow> 64 word list \<Rightarrow> 64 word \<Rightarrow> bool" where
  "seq_ok sq hs n \<longleftrightarrow>
     sorted_wrt (<) sq \<and> sorted_wrt (<) hs \<and> set sq \<inter> set hs = {} \<and>
     (\<forall>x \<in> set sq \<union> set hs. x \<le> n) \<and>
     (\<forall>x. sq \<noteq> [] \<longrightarrow> hd sq \<le> x \<longrightarrow> x \<le> n \<longrightarrow> x \<in> set sq \<union> set hs) \<and>
     unat n < 2 ^ 63 - 1"

lemma seq_okD:
  assumes "seq_ok sq hs n"
  shows "sorted_wrt (<) sq" "sorted_wrt (<) hs" "set sq \<inter> set hs = {}"
    "\<And>x. x \<in> set sq \<Longrightarrow> x \<le> n" "\<And>x. x \<in> set hs \<Longrightarrow> x \<le> n"
    "\<And>x. sq \<noteq> [] \<Longrightarrow> hd sq \<le> x \<Longrightarrow> x \<le> n \<Longrightarrow> x \<in> set sq \<union> set hs"
    "unat n < 2 ^ 63 - 1"
  using assms by (auto simp: seq_ok_def)

section \<open>Each operation keeps the numbering\<close>

lemma seq_ok_empty: "seq_ok [] [] 0"
  by (simp add: seq_ok_def)

lemma unat_succ:
  fixes n :: "64 word"
  assumes "unat n + 1 < 2 ^ 63"
  shows "unat (n + 1) = unat n + 1" and "n < n + 1" and "\<And>x. x \<le> n + 1 \<longleftrightarrow> x \<le> n \<or> x = n + 1"
proof -
  show u: "unat (n + 1) = unat n + 1"
    using assms by (simp add: unat_word_ariths)
  show "n < n + 1" by (simp add: word_less_nat_alt u)
  show "x \<le> n + 1 \<longleftrightarrow> x \<le> n \<or> x = n + 1" for x
    by (auto simp: word_le_nat_alt u le_Suc_eq word_unat_eq_iff)
qed

lemma seq_ok_enqueue:
  assumes ok: "seq_ok sq hs n" and room: "unat n + 1 < 2 ^ 63 - 1"
  shows "seq_ok (sq @ [n + 1]) hs (n + 1)"
proof -
  have "unat n + 1 < 2 ^ 63" using room by simp
  note D = seq_okD [OF ok] and S = unat_succ [OF this]
  have lt: "x < n + 1" if "x \<in> set sq \<union> set hs" for x
    using that D(4,5) S(2) by (auto intro: le_less_trans)
  have "x \<in> set (sq @ [n + 1]) \<union> set hs" if "hd (sq @ [n + 1]) \<le> x" "x \<le> n + 1" for x
  proof (cases "x = n + 1")
    case False
    with that have "x \<le> n" by (simp add: S(3))
    moreover from this have "sq \<noteq> []" using that S(2) by (cases sq) auto
    ultimately show ?thesis using D(6) that by (cases sq) auto
  qed simp
  moreover have "n + 1 \<notin> set sq" "n + 1 \<notin> set hs" using lt less_irrefl by blast+
  ultimately show ?thesis
    unfolding seq_ok_def using D lt S(1) room
    by (auto simp: sorted_wrt_append S(3) less_imp_le)
qed

lemma seq_ok_pop:
  assumes "seq_ok (x # sq) hs n"
  shows "seq_ok sq hs n"
proof -
  note D = seq_okD [OF assms]
  have "y \<in> set sq \<union> set hs" if "sq \<noteq> []" "hd sq \<le> y" "y \<le> n" for y
  proof -
    have "x < hd sq" using D(1) that(1) by (cases sq) auto
    from this that(2) have "x < y" by (rule less_le_trans)
    then show ?thesis using D(6) [of y] that by (auto simp: less_imp_le)
  qed
  with D show ?thesis by (auto simp: seq_ok_def)
qed

text \<open>Evicting anywhere in the line moves a number from the queue to the holes.\<close>

lemma seq_ok_evict:
  assumes ok: "seq_ok sq hs n" and x: "x \<in> set sq"
    and hs': "sorted_wrt (<) hs'" "set hs' = insert x (set hs)"
  shows "seq_ok (remove1 x sq) hs' n"
proof -
  note D = seq_okD [OF ok]
  have d: "distinct sq" using D(1) by (rule sorted_wrt_less_distinct)
  have sub: "set (remove1 x sq) = set sq - {x}" using d by simp
  have front: "hd sq \<le> hd (remove1 x sq)" if "remove1 x sq \<noteq> []"
  proof -
    have "hd (remove1 x sq) \<in> set sq" using that sub list.set_sel(1) by fastforce
    with D(1) show ?thesis by (cases sq) (auto simp: less_imp_le)
  qed
  have "y \<in> set (remove1 x sq) \<union> set hs'"
    if "remove1 x sq \<noteq> []" "hd (remove1 x sq) \<le> y" "y \<le> n" for y
  proof -
    have "sq \<noteq> []" using x by auto
    moreover have "hd sq \<le> y" using front that order_trans by blast
    ultimately have "y \<in> set sq \<union> set hs" using D(6) that(3) by blast
    then show ?thesis using sub hs'(2) by auto
  qed
  moreover have "sorted_wrt (<) (remove1 x sq)" using D(1) by (rule sorted_wrt_remove1)
  ultimately show ?thesis
    unfolding seq_ok_def sub hs'(2) using D x hs'(1) by auto
qed

lemma seq_ok_prune:
  assumes "seq_ok (x # sq) hs n"
  shows "seq_ok (x # sq) (filter (\<lambda>h. x < h) hs) n"
proof -
  note D = seq_okD [OF assms]
  have "y \<in> set (x # sq) \<union> set (filter (\<lambda>h. x < h) hs)" if "x \<le> y" "y \<le> n" for y
    using D(6) [of y] that by (cases "x = y") auto
  with D show ?thesis
    by (auto simp: seq_ok_def sorted_wrt_filter)
qed

lemma seq_ok_no_queue: "seq_ok sq hs n \<Longrightarrow> seq_ok [] [] n"
  by (simp add: seq_ok_def)

section \<open>The slice of holes\<close>

lemma addHoleLocked_holes:
  assumes "sorted_wrt (<) (holes s)" and "x \<notin> set (holes s)"
  shows "sorted_wrt (<) (holes (addHoleLocked x s))"
    and "set (holes (addHoleLocked x s)) = insert x (set (holes s))"
    and "addHoleLocked x s = s\<lparr>holes := holes (addHoleLocked x s)\<rparr>"
proof -
  let ?hs = "holes s"
  have split: "take (sort_search (length ?hs) (\<lambda>i. x < ?hs ! i)) ?hs = filter (\<lambda>h. \<not> x < h) ?hs"
    "drop (sort_search (length ?hs) (\<lambda>i. x < ?hs ! i)) ?hs = filter (\<lambda>h. x < h) ?hs"
    using sort_search_filter(2,3) [OF assms(1), of "\<lambda>h. x < h"] by auto
  have low: "\<forall>h \<in> set ?hs. h < x" if "last ?hs < x"
    using that assms(1)
    by (cases ?hs rule: rev_cases) (auto simp: sorted_wrt_append dest: less_trans)
  show "sorted_wrt (<) (holes (addHoleLocked x s))"
    using assms low
    by (auto simp: addHoleLocked_def split Let_def sorted_wrt_append sorted_wrt_filter not_less
        le_less)
  show "set (holes (addHoleLocked x s)) = insert x (set ?hs)"
    using assms(2) by (auto simp: addHoleLocked_def split Let_def)
  show "addHoleLocked x s = s\<lparr>holes := holes (addHoleLocked x s)\<rparr>"
    by (simp add: addHoleLocked_def Let_def)
qed

lemma pruneHolesLocked_holes:
  assumes "sorted_wrt (<) (holes s)"
  shows "pruneHolesLocked s = s\<lparr>holes := (case queue s of [] \<Rightarrow> []
           | f # _ \<Rightarrow> filter (\<lambda>h. e_seq (heap s f) < h) (holes s))\<rparr>"
  using sort_search_filter(2) [OF assms, of "\<lambda>h. e_seq (heap s f) < h" for f]
  by (simp add: pruneHolesLocked_def Let_def split: list.split)

section \<open>Positions\<close>

lemma card_word_interval:
  fixes f g :: "64 word"
  assumes "f \<le> g"
  shows "card {f..<g} = unat g - unat f"
proof -
  have "unat ` {f..<g} = {unat f..<unat g}"
  proof (safe)
    fix k assume k: "k \<in> {unat f..<unat g}"
    then have "k < 2 ^ 64" using unsigned_less [of g, where ?'a = nat] by simp
    then have u: "unat (word_of_nat k :: 64 word) = k" by (simp add: unsigned_of_nat take_bit_nat_eq_self)
    with k have "word_of_nat k \<in> {f..<g}" by (simp add: word_le_nat_alt word_less_nat_alt)
    with u show "k \<in> unat ` {f..<g}" by (metis imageI)
  qed (auto simp: word_le_nat_alt word_less_nat_alt)
  moreover have "inj_on unat {f..<g}" by (rule inj_onI) (simp add: word_unat_eq_iff)
  ultimately show ?thesis by (metis card_image card_atLeastLessThan)
qed

lemma length_filter_card:
  "distinct xs \<Longrightarrow> length (filter P xs) = card {x \<in> set xs. P x}"
  by (metis distinct_card distinct_filter set_filter)

lemma index_in_sorted:
  fixes sq :: "64 word list"
  assumes "sorted_wrt (<) sq" "k < length sq"
  shows "card {x \<in> set sq. x < sq ! k} = k"
proof -
  have "{x \<in> set sq. x < sq ! k} = set (take k sq)"
  proof (safe)
    fix x assume "x \<in> set sq" "x < sq ! k"
    then obtain j where j: "j < length sq" "x = sq ! j" by (auto simp: in_set_conv_nth)
    have "j < k"
    proof (rule ccontr)
      assume "\<not> j < k"
      then have "sq ! k \<le> sq ! j"
        using sorted_wrt_nth_less [OF assms(1), of k j] j by (cases "k = j") auto
      with \<open>x < sq ! k\<close> j show False by simp
    qed
    with j show "x \<in> set (take k sq)" by (auto simp: in_set_conv_nth)
  next
    fix x assume "x \<in> set (take k sq)"
    then obtain j where "j < k" "x = sq ! j" using assms(2) by (auto simp: in_set_conv_nth)
    then show "x < sq ! k" "x \<in> set sq"
      using sorted_wrt_nth_less [OF assms(1), of j k] assms(2) by auto
  qed
  moreover have "distinct (take k sq)"
    using sorted_wrt_less_distinct [OF assms(1)] by (rule distinct_take)
  ultimately show ?thesis using assms(2) by (simp add: distinct_card)
qed

lemma seq_ok_count:
  assumes ok: "seq_ok sq hs n" and k: "k < length sq"
  shows "unat (sq ! k) - unat (hd sq) = k + length (filter (\<lambda>h. hd sq < h \<and> h < sq ! k) hs)"
    and "hd sq \<le> sq ! k"
proof -
  note D = seq_okD [OF ok]
  have ne: "sq \<noteq> []" using k by auto
  show le: "hd sq \<le> sq ! k"
    using D(1) k by (cases k) (auto simp: hd_conv_nth ne intro!: less_imp_le sorted_wrt_nth_less)
  have front: "hd sq \<le> x" if "x \<in> set sq" for x
    using D(1) that by (cases sq) (auto simp: less_imp_le)
  have mem: "sq ! k \<le> n" using D(4) k by simp
  let ?H = "{h \<in> set hs. hd sq < h \<and> h < sq ! k}" and ?S = "{x \<in> set sq. x < sq ! k}"
  have "{hd sq..<sq ! k} = ?S \<union> ?H"
  proof (intro equalityI subsetI)
    fix x assume x: "x \<in> {hd sq..<sq ! k}"
    then have "x \<in> set sq \<union> set hs" using D(6) [of x] ne mem by auto
    moreover have "hd sq < x" if "x \<in> set hs"
      using that x D(3) ne by (metis atLeastLessThan_iff disjoint_iff hd_in_set order.not_eq_order_implies_strict)
    ultimately show "x \<in> ?S \<union> ?H" using x by auto
  qed (use front in \<open>auto simp: less_imp_le\<close>)
  moreover have "card (?S \<union> ?H) = card ?S + card ?H" using D(3) by (intro card_Un_disjoint) auto
  ultimately have "unat (sq ! k) - unat (hd sq) = card ?S + card ?H"
    by (simp add: card_word_interval [OF le, symmetric])
  also have "card ?S = k" by (rule index_in_sorted [OF D(1) k])
  also have "card ?H = length (filter (\<lambda>h. hd sq < h \<and> h < sq ! k) hs)"
    using sorted_wrt_less_distinct [OF D(2)] by (simp add: length_filter_card)
  finally show "unat (sq ! k) - unat (hd sq) = k + length (filter (\<lambda>h. hd sq < h \<and> h < sq ! k) hs)" .
qed

lemma filter_between:
  fixes hs :: "64 word list"
  assumes "f \<le> g" "f \<notin> set hs"
  shows "int (length (filter (\<lambda>h. \<not> g \<le> h) hs)) - int (length (filter (\<lambda>h. \<not> f < h) hs)) =
         int (length (filter (\<lambda>h. f < h \<and> h < g) hs))"
  using assms by (induction hs) (auto simp: not_le not_less)

lemma sint_small:
  fixes x :: "64 word"
  assumes "unat x < 2 ^ 63"
  shows "sint x = int (unat x)"
proof -
  have u: "uint x = int (unat x)" by simp
  have "int (unat x) < 2 ^ 63" using assms by (simp del: of_nat_unat)
  then have "signed_take_bit 63 (int (unat x)) = int (unat x)"
    by (intro signed_take_bit_int_eq_self) (simp_all del: of_nat_unat)
  moreover have "sint x = signed_take_bit 63 (uint x)" using sint_uint [of x] by simp
  ultimately show ?thesis by (simp only: u)
qed

text \<open>The arithmetic of \<open>snapshotLocked\<close> yields the 1-based index in the queue.\<close>

lemma seq_position_index:
  assumes ok: "seq_ok sq (holes s) n" and k: "k < length sq"
    and front: "e_seq front = hd sq" and e: "e_seq e = sq ! k"
  shows "seq_position s front e = int k + 1"
proof -
  note D = seq_okD [OF ok] and C = seq_ok_count [OF ok k]
  have ne: "sq \<noteq> []" using k by auto
  let ?lo = "length (filter (\<lambda>h. \<not> hd sq < h) (holes s))"
    and ?hi = "length (filter (\<lambda>h. \<not> sq ! k \<le> h) (holes s))"
  have lo: "sort_search (length (holes s)) (\<lambda>i. e_seq front < holes s ! i) = ?lo"
    using sort_search_filter(1) [OF D(2), of "\<lambda>h. hd sq < h"] by (auto simp: front)
  have hi: "sort_search (length (holes s)) (\<lambda>i. e_seq e \<le> holes s ! i) = ?hi"
    using sort_search_filter(1) [OF D(2), of "\<lambda>h. sq ! k \<le> h"] by (auto simp: e)
  have diff: "unat (sq ! k - hd sq) = unat (sq ! k) - unat (hd sq)"
    using C(2) by (simp add: unat_sub)
  have small: "unat (sq ! k) < 2 ^ 63 - 1"
    using D(4) [of "sq ! k"] D(7) k by (simp add: word_le_nat_alt)
  then have "sint (e_seq e - e_seq front) = int (unat (sq ! k) - unat (hd sq))"
    using diff by (simp add: front e sint_small)
  moreover have "hd sq \<notin> set (holes s)" using D(3) hd_in_set [OF ne] by blast
  then have "int ?hi - int ?lo = int (length (filter (\<lambda>h. hd sq < h \<and> h < sq ! k) (holes s)))"
    by (rule filter_between [OF C(2)])
  moreover have "k + 1 < 2 ^ 63 + 1" using C(1) small by simp
  ultimately show ?thesis
    using C(1) small by (simp add: seq_position_def lo hi s64_diff_left in_s64_def)
qed

end
