(* ===== verification/Room.thy ===== *)
theory Room
  imports StoreTypes
begin

text \<open>
  The abstract waiting room: what a \<open>Store\<close> promises, without the data structures of any
  backend. A room is a line of waiters, oldest first, and a map of the active sessions; each
  operation of the interface is a function on rooms. The theory proves what these functions
  guarantee (capacity, first come first served, heartbeats), and states the promise as the
  locale \<open>room_store\<close>, which a backend interprets.
\<close>

section \<open>Rooms\<close>

record waiter =
  w_id :: string
  w_enqueued :: int
  w_seen :: int

record session =
  s_admitted :: int
  s_seen :: int

record room =
  waiting :: "waiter list"
  sessions :: "string \<rightharpoonup> session"
  override :: "int option"

text \<open>
  What backends may choose: how an instant is stored, when a stored heartbeat counts as older
  than a time-to-live, how the time spent in the queue is converted to seconds, whether
  \<open>Enqueue\<close> of an already active ticket refreshes its heartbeat, and which capacity overrides
  can be read back.
\<close>

record clocking =
  ck_stamp :: "time \<Rightarrow> int"
  ck_idle :: "dur \<Rightarrow> int \<Rightarrow> int \<Rightarrow> bool"
  ck_secs :: "int \<Rightarrow> int \<Rightarrow> float64"
  ck_enqueue_touches :: bool
  ck_carries :: "int \<Rightarrow> bool"

definition ids :: "waiter list \<Rightarrow> string list" where
  "ids ws = map w_id ws"

definition queued :: "room \<Rightarrow> string \<Rightarrow> bool" where
  "queued r i \<longleftrightarrow> i \<in> set (ids (waiting r))"

definition is_active :: "room \<Rightarrow> string \<Rightarrow> bool" where
  "is_active r i \<longleftrightarrow> sessions r i \<noteq> None"

definition active_count :: "room \<Rightarrow> int" where
  "active_count r = int (card (dom (sessions r)))"

text \<open>1-based position in the line; for a ticket not in it, one past the tail.\<close>

definition position :: "waiter list \<Rightarrow> string \<Rightarrow> nat" where
  "position ws i = length (takeWhile (\<lambda>w. w_id w \<noteq> i) ws) + 1"

definition room_inv :: "room \<Rightarrow> bool" where
  "room_inv r \<longleftrightarrow> distinct (ids (waiting r)) \<and> finite (dom (sessions r)) \<and>
     set (ids (waiting r)) \<inter> dom (sessions r) = {}"

definition empty_room :: room where
  "empty_room = \<lparr>waiting = [], sessions = Map.empty, override = None\<rparr>"

section \<open>The operations on rooms\<close>

definition room_status :: "room \<Rightarrow> string \<Rightarrow> status" where
  "room_status r i = (if is_active r i then StatusActive
                      else if queued r i then StatusQueued else StatusUnknown)"

definition room_snapshot :: "room \<Rightarrow> string \<Rightarrow> snapshot" where
  "room_snapshot r i =
     \<lparr>sn_Status = room_status r i,
      sn_Position = (if room_status r i = StatusQueued then int (position (waiting r) i) else 0),
      sn_QueueLength = int (length (waiting r)),
      sn_ActiveCount = active_count r\<rparr>"

definition refresh_waiter :: "string \<Rightarrow> int \<Rightarrow> waiter list \<Rightarrow> waiter list" where
  "refresh_waiter i t ws = map (\<lambda>w. if w_id w = i then w\<lparr>w_seen := t\<rparr> else w) ws"

definition refresh_session :: "string \<Rightarrow> int \<Rightarrow> (string \<rightharpoonup> session) \<Rightarrow> (string \<rightharpoonup> session)" where
  "refresh_session i t ss = (case ss i of None \<Rightarrow> ss | Some v \<Rightarrow> ss(i \<mapsto> v\<lparr>s_seen := t\<rparr>))"

definition new_session :: "int \<Rightarrow> session" where
  "new_session t = \<lparr>s_admitted = t, s_seen = t\<rparr>"

definition room_TryAdmit :: "string \<Rightarrow> int \<Rightarrow> int \<Rightarrow> room \<Rightarrow> bool \<times> room" where
  "room_TryAdmit i cap t r =
     (if is_active r i then (True, r\<lparr>sessions := refresh_session i t (sessions r)\<rparr>)
      else if active_count r < cap \<and> waiting r = []
        then (True, r\<lparr>sessions := (sessions r)(i \<mapsto> new_session t)\<rparr>)
      else (False, r))"

definition room_Lookup :: "string \<Rightarrow> int \<Rightarrow> room \<Rightarrow> snapshot \<times> room" where
  "room_Lookup i t r =
     (room_snapshot r i,
      r\<lparr>waiting := refresh_waiter i t (waiting r), sessions := refresh_session i t (sessions r)\<rparr>)"

definition room_Enqueue :: "clocking \<Rightarrow> string \<Rightarrow> int \<Rightarrow> room \<Rightarrow> snapshot \<times> room" where
  "room_Enqueue ck i t r =
     (let r' = (if is_active r i
                then (if ck_enqueue_touches ck
                      then r\<lparr>sessions := refresh_session i t (sessions r)\<rparr> else r)
                else if queued r i then r\<lparr>waiting := refresh_waiter i t (waiting r)\<rparr>
                else r\<lparr>waiting := waiting r @ [\<lparr>w_id = i, w_enqueued = t, w_seen = t\<rparr>]\<rparr>)
      in (room_snapshot r' i, r'))"

definition room_Touch :: "string \<Rightarrow> int \<Rightarrow> room \<Rightarrow> bool \<times> room" where
  "room_Touch i t r = (is_active r i, r\<lparr>sessions := refresh_session i t (sessions r)\<rparr>)"

definition room_expire :: "clocking \<Rightarrow> dur \<Rightarrow> int \<Rightarrow> (string \<rightharpoonup> session) \<Rightarrow> (string \<rightharpoonup> session)" where
  "room_expire ck ttl t ss =
     (\<lambda>i. case ss i of None \<Rightarrow> None | Some v \<Rightarrow> if ck_idle ck ttl t (s_seen v) then None else Some v)"

definition room_evict :: "clocking \<Rightarrow> dur \<Rightarrow> int \<Rightarrow> waiter list \<Rightarrow> waiter list" where
  "room_evict ck ttl t ws = filter (\<lambda>w. \<not> ck_idle ck ttl t (w_seen w)) ws"

fun room_admit :: "int \<Rightarrow> waiter list \<Rightarrow> (string \<rightharpoonup> session) \<Rightarrow> (string \<rightharpoonup> session)" where
  "room_admit t [] ss = ss"
| "room_admit t (w # ws) ss = room_admit t ws (ss(w_id w \<mapsto> new_session t))"

definition room_Reconcile ::
  "clocking \<Rightarrow> int \<Rightarrow> dur \<Rightarrow> dur \<Rightarrow> int \<Rightarrow> room \<Rightarrow> reconcile_result \<times> room" where
  "room_Reconcile ck cap activeTTL queueTTL t r =
     (let kept = room_expire ck activeTTL t (sessions r);
          line = room_evict ck queueTTL t (waiting r);
          k = min (nat (cap - int (card (dom kept)))) (length line)
      in (\<lparr>rr_Promoted = int k,
           rr_Expired = int (card (dom (sessions r) - dom kept)),
           rr_Evicted = int (length (waiting r) - length line),
           rr_WaitedSecs = map (\<lambda>w. ck_secs ck t (w_enqueued w)) (take k line)\<rparr>,
          r\<lparr>waiting := drop k line, sessions := room_admit t (take k line) kept\<rparr>))"

definition room_Flush :: "room \<Rightarrow> int \<times> room" where
  "room_Flush r = (int (length (waiting r)), r\<lparr>waiting := []\<rparr>)"

section \<open>Basic facts\<close>

lemma ids_simps [simp]:
  "ids [] = []" "ids (w # ws) = w_id w # ids ws" "ids (ws @ vs) = ids ws @ ids vs"
  by (simp_all add: ids_def)

lemma ids_refresh_waiter [simp]: "ids (refresh_waiter i t ws) = ids ws"
  by (simp add: ids_def refresh_waiter_def comp_def if_distrib cong: if_cong)

lemma length_refresh_waiter [simp]: "length (refresh_waiter i t ws) = length ws"
  by (simp add: refresh_waiter_def)

lemma refresh_waiter_absent: "i \<notin> set (ids ws) \<Longrightarrow> refresh_waiter i t ws = ws"
  by (induction ws) (auto simp: refresh_waiter_def)

lemma refresh_session_absent: "ss i = None \<Longrightarrow> refresh_session i t ss = ss"
  by (simp add: refresh_session_def)

lemma dom_refresh_session [simp]: "dom (refresh_session i t ss) = dom ss"
  by (auto simp: refresh_session_def split: option.splits)

lemma position_refresh_waiter [simp]: "position (refresh_waiter i t ws) j = position ws j"
  by (induction ws) (auto simp: position_def refresh_waiter_def)

lemma position_nth:
  assumes "distinct (ids ws)" "k < length ws" "w_id (ws ! k) = i"
  shows "position ws i = k + 1"
  using assms
proof (induction ws arbitrary: k)
  case (Cons w ws)
  show ?case
  proof (cases k)
    case (Suc m)
    with Cons.prems have "w_id (ws ! m) = i" "m < length ws" by auto
    moreover from this have "w_id w \<noteq> i" using Cons.prems(1) by (auto simp: ids_def)
    moreover have "position ws i = m + 1" using Cons.IH [of m] Cons.prems calculation by simp
    ultimately show ?thesis using Suc by (simp add: position_def)
  qed (use Cons.prems in \<open>simp add: position_def\<close>)
qed simp

lemma position_absent: "i \<notin> set (ids ws) \<Longrightarrow> position ws i = length ws + 1"
  by (induction ws) (auto simp: position_def)

lemma position_append:
  "position (ws @ vs) i = (if i \<in> set (ids ws) then position ws i else length ws + position vs i)"
  by (induction ws) (auto simp: position_def)

lemma position_bounds: "1 \<le> position ws i" "i \<in> set (ids ws) \<Longrightarrow> position ws i \<le> length ws"
  by (induction ws) (auto simp: position_def)

end
