(* ===== verification/RoomProps.thy ===== *)
theory RoomProps
  imports Room
begin

text \<open>
  What the abstract waiting room guarantees: every operation keeps a room well-formed, the
  number of sessions never grows past the capacity in force, the line is never reordered and
  nobody is admitted past a ticket that is still waiting, a pass of \<open>Reconcile\<close> removes what
  is idle and fills the free slots, and a ticket that keeps polling is neither evicted nor
  starved.
\<close>

named_theorems room_ops "definitions of the operations on rooms"

lemmas [room_ops] = room_TryAdmit_def room_Lookup_def room_Enqueue_def room_Touch_def room_Flush_def

text \<open>The calls of the \<open>Store\<close> interface, and the room each leads to.\<close>

datatype call =
    CTryAdmit string int time
  | CEnqueue string time
  | CLookup string time
  | CTouch string time
  | CReconcile int dur dur time
  | CStats
  | CSetCapacity int
  | CGetCapacity
  | CFlush

fun room_exec :: "clocking \<Rightarrow> call \<Rightarrow> room \<Rightarrow> room" where
  "room_exec ck (CTryAdmit i cap now) r = snd (room_TryAdmit i cap (ck_stamp ck now) r)"
| "room_exec ck (CEnqueue i now) r = snd (room_Enqueue ck i (ck_stamp ck now) r)"
| "room_exec ck (CLookup i now) r = snd (room_Lookup i (ck_stamp ck now) r)"
| "room_exec ck (CTouch i now) r = snd (room_Touch i (ck_stamp ck now) r)"
| "room_exec ck (CReconcile cap aTTL qTTL now) r =
     snd (room_Reconcile ck cap aTTL qTTL (ck_stamp ck now) r)"
| "room_exec ck CStats r = r"
| "room_exec ck (CSetCapacity n) r = r\<lparr>override := Some n\<rparr>"
| "room_exec ck CGetCapacity r = r"
| "room_exec ck CFlush r = snd (room_Flush r)"

text \<open>The capacity a call admits under, if it can admit.\<close>

fun call_cap :: "call \<Rightarrow> int option" where
  "call_cap (CTryAdmit i cap now) = Some cap"
| "call_cap (CReconcile cap aTTL qTTL now) = Some cap"
| "call_cap _ = None"

section \<open>The three steps of a reconcile pass\<close>

lemma dom_room_expire: "dom (room_expire ck ttl t ss) \<subseteq> dom ss"
  by (auto simp: room_expire_def split: option.splits)

lemma card_expired:
  assumes "finite (dom ss)"
  shows "int (card (dom ss - dom (room_expire ck ttl t ss))) =
         int (card (dom ss)) - int (card (dom (room_expire ck ttl t ss)))"
proof -
  have "card (dom (room_expire ck ttl t ss)) \<le> card (dom ss)"
    using assms dom_room_expire by (rule card_mono)
  then show ?thesis
    using finite_subset [OF dom_room_expire assms]
    by (simp add: card_Diff_subset dom_room_expire of_nat_diff)
qed

lemma dom_room_admit [simp]: "dom (room_admit t ws ss) = dom ss \<union> set (ids ws)"
  by (induction ws arbitrary: ss) auto

lemma room_admit_new: "i \<in> set (ids ws) \<Longrightarrow> room_admit t ws ss i = Some (new_session t)"
proof (induction ws arbitrary: ss)
  case (Cons w ws)
  show ?case
  proof (cases "i \<in> set (ids ws)")
    case False
    have "room_admit t vs ss' i = ss' i" if "i \<notin> set (ids vs)" for vs ss'
      using that by (induction vs arbitrary: ss') auto
    with False Cons.prems show ?thesis by simp
  qed (use Cons.IH in simp)
qed simp

lemma room_admit_old: "i \<notin> set (ids ws) \<Longrightarrow> room_admit t ws ss i = ss i"
  by (induction ws arbitrary: ss) auto

lemma ids_take_drop: "ids (take k ws) = take k (ids ws)" "ids (drop k ws) = drop k (ids ws)"
  by (simp_all add: ids_def take_map drop_map)

lemma length_ids [simp]: "length (ids ws) = length ws"
  by (simp add: ids_def)

lemma ids_room_evict: "subseq (ids (room_evict ck ttl t ws)) (ids ws)"
  unfolding ids_def room_evict_def by (intro subseq_map subseq_filter_left)

lemma set_ids_room_evict: "set (ids (room_evict ck ttl t ws)) \<subseteq> set (ids ws)"
  by (auto simp: ids_def room_evict_def)

lemma distinct_ids_room_evict: "distinct (ids ws) \<Longrightarrow> distinct (ids (room_evict ck ttl t ws))"
  by (auto simp: ids_def room_evict_def distinct_map inj_on_def)

text \<open>The pass itself, with its intermediate values named.\<close>

definition kept :: "clocking \<Rightarrow> dur \<Rightarrow> int \<Rightarrow> room \<Rightarrow> string \<rightharpoonup> session" where
  "kept ck aTTL t r = room_expire ck aTTL t (sessions r)"

definition line :: "clocking \<Rightarrow> dur \<Rightarrow> int \<Rightarrow> room \<Rightarrow> waiter list" where
  "line ck qTTL t r = room_evict ck qTTL t (waiting r)"

definition free_slots :: "clocking \<Rightarrow> int \<Rightarrow> dur \<Rightarrow> int \<Rightarrow> room \<Rightarrow> nat" where
  "free_slots ck cap aTTL t r = nat (cap - int (card (dom (kept ck aTTL t r))))"

lemma room_Reconcile_sel:
  fixes ck cap aTTL qTTL t r
  defines "k \<equiv> min (free_slots ck cap aTTL t r) (length (line ck qTTL t r))"
    and "r' \<equiv> snd (room_Reconcile ck cap aTTL qTTL t r)"
    and "res \<equiv> fst (room_Reconcile ck cap aTTL qTTL t r)"
  shows "waiting r' = drop k (line ck qTTL t r)"
    and "sessions r' = room_admit t (take k (line ck qTTL t r)) (kept ck aTTL t r)"
    and "override r' = override r"
    and "rr_Promoted res = int k"
    and "rr_Expired res = int (card (dom (sessions r) - dom (kept ck aTTL t r)))"
    and "rr_Evicted res = int (length (waiting r) - length (line ck qTTL t r))"
    and "rr_WaitedSecs res = map (\<lambda>w. ck_secs ck t (w_enqueued w)) (take k (line ck qTTL t r))"
  by (simp_all add: assms room_Reconcile_def Let_def kept_def line_def free_slots_def)

section \<open>Well-formedness\<close>

lemma room_invD:
  assumes "room_inv r"
  shows "distinct (ids (waiting r))" "finite (dom (sessions r))"
    "set (ids (waiting r)) \<inter> dom (sessions r) = {}"
  using assms by (auto simp: room_inv_def)

lemma room_inv_empty: "room_inv empty_room"
  by (simp add: room_inv_def empty_room_def)

lemma finite_kept: "room_inv r \<Longrightarrow> finite (dom (kept ck aTTL t r))"
  unfolding kept_def by (rule finite_subset [OF dom_room_expire room_invD(2)])

lemma line_props:
  assumes "room_inv r"
  shows "distinct (ids (line ck qTTL t r))" "set (ids (line ck qTTL t r)) \<inter> dom (kept ck aTTL t r) = {}"
  using room_invD [OF assms] set_ids_room_evict dom_room_expire
  unfolding line_def kept_def by (blast intro: distinct_ids_room_evict)+

lemma room_inv_Reconcile:
  assumes "room_inv r"
  shows "room_inv (snd (room_Reconcile ck cap aTTL qTTL t r))"
proof -
  note L = line_props(1) [OF assms, of ck qTTL t] line_props(2) [OF assms, of ck qTTL t aTTL]
  have "set (drop k xs) \<inter> set (take k xs) = {}" if "distinct xs" for k and xs :: "string list"
    using that by (metis append_take_drop_id disjoint_iff distinct_append)
  moreover have "set (drop k (ids (line ck qTTL t r))) \<inter> dom (kept ck aTTL t r) = {}" for k
    using L(2) set_drop_subset [of k "ids (line ck qTTL t r)"] by blast
  ultimately show ?thesis
    using L(1) finite_kept [OF assms]
    unfolding room_inv_def room_Reconcile_sel ids_take_drop dom_room_admit
    by (simp add: Int_Un_distrib)
qed

text \<open>A pass lets nobody in whom the room does not know.\<close>

lemma room_Reconcile_strangers:
  assumes "room_inv r" and "j \<notin> set (ids (waiting r))" and "j \<notin> dom (sessions r)"
    and "r' = snd (room_Reconcile ck cap aTTL qTTL t r)"
  shows "j \<notin> set (ids (waiting r')) \<and> j \<notin> dom (sessions r')"
proof -
  have "j \<notin> set (ids (line ck qTTL t r))" "j \<notin> dom (kept ck aTTL t r)"
    using assms(2,3) set_ids_room_evict dom_room_expire unfolding line_def kept_def by blast+
  then show ?thesis
    unfolding assms(4) room_Reconcile_sel ids_take_drop dom_room_admit by (auto dest: in_set_takeD in_set_dropD)
qed

lemma room_inv_exec:
  assumes "room_inv r"
  shows "room_inv (room_exec ck c r)"
proof (cases c)
  case (CReconcile cap aTTL qTTL now)
  with room_inv_Reconcile [OF assms] show ?thesis by simp
qed (use assms in \<open>auto simp: room_ops room_inv_def is_active_def queued_def Let_def\<close>)

section \<open>Capacity\<close>

lemma active_count_Reconcile:
  assumes "room_inv r"
  shows "active_count (snd (room_Reconcile ck cap aTTL qTTL t r)) =
    int (card (dom (kept ck aTTL t r))) +
    int (min (free_slots ck cap aTTL t r) (length (line ck qTTL t r)))"
proof -
  let ?k = "min (free_slots ck cap aTTL t r) (length (line ck qTTL t r))"
  note L = line_props(1) [OF assms, of ck qTTL t] line_props(2) [OF assms, of ck qTTL t aTTL]
  have "card (set (ids (take ?k (line ck qTTL t r)))) = ?k"
    using L(1) by (simp add: ids_take_drop distinct_card)
  moreover have "dom (kept ck aTTL t r) \<inter> set (ids (take ?k (line ck qTTL t r))) = {}"
    using L(2) by (auto simp: ids_take_drop dest: in_set_takeD)
  ultimately show ?thesis
    using finite_kept [OF assms]
    by (simp add: active_count_def room_Reconcile_sel card_Un_disjoint)
qed

text \<open>No call raises the number of sessions above the capacity it was given.\<close>

lemma active_count_exec:
  assumes "room_inv r"
  shows "active_count (room_exec ck c r) \<le>
    (case call_cap c of None \<Rightarrow> active_count r | Some cap \<Rightarrow> max (active_count r) cap)"
proof (cases c)
  case (CTryAdmit i cap now)
  then show ?thesis
    using room_invD(2) [OF assms]
    by (auto simp: room_TryAdmit_def active_count_def card_insert_if)
next
  case (CReconcile cap aTTL qTTL now)
  have "card (dom (kept ck aTTL (ck_stamp ck now) r)) \<le> card (dom (sessions r))"
    unfolding kept_def by (rule card_mono [OF room_invD(2) [OF assms] dom_room_expire])
  then have "active_count (snd (room_Reconcile ck cap aTTL qTTL (ck_stamp ck now) r))
      \<le> max (active_count r) cap"
    unfolding active_count_Reconcile [OF assms] by (auto simp: active_count_def free_slots_def)
  with CReconcile show ?thesis by simp
qed (auto simp: room_ops active_count_def Let_def)

text \<open>The numbers a pass reports account for the change of the active count.\<close>

lemma reconcile_accounts:
  assumes "room_inv r"
  shows "active_count (snd (room_Reconcile ck cap aTTL qTTL t r)) = active_count r -
    rr_Expired (fst (room_Reconcile ck cap aTTL qTTL t r)) +
    int (length (rr_WaitedSecs (fst (room_Reconcile ck cap aTTL qTTL t r))))"
  unfolding active_count_Reconcile [OF assms] room_Reconcile_sel kept_def
    card_expired [OF room_invD(2) [OF assms]]
  by (simp add: active_count_def)

section \<open>First come, first served\<close>

definition ahead :: "room \<Rightarrow> string \<Rightarrow> string \<Rightarrow> bool" where
  "ahead r i j \<longleftrightarrow> subseq [i, j] (ids (waiting r))"

lemma subseq_drop: "subseq (drop k xs) xs"
  by (metis append_take_drop_id subseq_append_iff subseq_order.order_refl list_emb_append2)

lemma subseq_pair_Cons:
  "subseq [i, j] (x # xs) \<longleftrightarrow> (if x = i then j \<in> set xs else subseq [i, j] xs)"
  by (simp add: subseq_singleton_left eq_commute)

lemma subseq_pair_mem: "subseq [i, j] xs \<Longrightarrow> i \<in> set xs \<and> j \<in> set xs"
  by (induction xs) (auto simp: subseq_pair_Cons simp del: subseq_Cons2_iff split: if_splits)

lemma subseq_pair_distinct:
  assumes "subseq [i, j] xs" "distinct xs"
  shows "\<not> subseq [j, i] xs" "i \<noteq> j" "i \<in> set xs" "j \<in> set xs"
proof -
  show m: "i \<in> set xs" "j \<in> set xs" using subseq_pair_mem [OF assms(1)] by auto
  have "\<not> subseq [j, i] xs \<and> i \<noteq> j"
    using assms
  proof (induction xs rule: list.induct)
    case (Cons x xs)
    then show ?case
      using subseq_pair_mem [of i j xs] subseq_pair_mem [of j i xs]
      by (auto simp: subseq_pair_Cons simp del: subseq_Cons2_iff split: if_splits)
  qed simp
  then show "\<not> subseq [j, i] xs" "i \<noteq> j" by auto
qed

lemma subseq_pair_total: "i \<in> set xs \<Longrightarrow> j \<in> set xs \<Longrightarrow> i \<noteq> j \<Longrightarrow> subseq [i, j] xs \<or> subseq [j, i] xs"
  by (induction xs) (auto simp: subseq_pair_Cons simp del: subseq_Cons2_iff)

text \<open>No call reorders the line: what is left of it keeps its order, newcomers join the tail.\<close>

lemma line_kept_in_order:
  assumes "room_inv r"
  shows "\<exists>new. subseq (ids (waiting (room_exec ck c r))) (ids (waiting r) @ new) \<and>
               set new \<inter> set (ids (waiting r)) = {} \<and> distinct new"
proof (cases c)
  case (CEnqueue i now)
  show ?thesis
  proof (cases "is_active r i \<or> queued r i")
    case True
    with CEnqueue show ?thesis by (intro exI [of _ "[]"]) (auto simp: room_Enqueue_def Let_def)
  next
    case False
    with CEnqueue show ?thesis
      by (intro exI [of _ "[i]"]) (auto simp: room_Enqueue_def Let_def queued_def)
  qed
next
  case (CReconcile cap aTTL qTTL now)
  have "subseq (ids (waiting (room_exec ck c r))) (ids (waiting r))"
    unfolding CReconcile room_exec.simps room_Reconcile_sel ids_take_drop
    using subseq_drop ids_room_evict unfolding line_def by (rule subseq_order.order_trans)
  then show ?thesis by (intro exI [of _ "[]"]) simp
qed (auto intro!: exI [of _ "[]"] simp: room_ops)

lemma ahead_stays_ahead:
  assumes inv: "room_inv r" and ij: "ahead r i j"
    and q: "queued (room_exec ck c r) i" "queued (room_exec ck c r) j"
  shows "ahead (room_exec ck c r) i j"
proof (rule ccontr)
  let ?r = "room_exec ck c r"
  obtain new where new: "subseq (ids (waiting ?r)) (ids (waiting r) @ new)"
    "set new \<inter> set (ids (waiting r)) = {}" "distinct new"
    using line_kept_in_order [OF inv] by blast
  note D = subseq_pair_distinct [OF ij [unfolded ahead_def] room_invD(1) [OF inv]]
  assume "\<not> ahead ?r i j"
  then have "subseq [j, i] (ids (waiting ?r))"
    using subseq_pair_total [of i "ids (waiting ?r)" j] q D(2) unfolding ahead_def queued_def by blast
  then have "subseq [j, i] (ids (waiting r) @ new)" using new(1) by (rule subseq_order.order_trans)
  moreover have "subseq [i, j] (ids (waiting r) @ new)"
    by (rule subseq_order.order_trans [OF ij [unfolded ahead_def] prefix_imp_subseq]) simp
  moreover have "distinct (ids (waiting r) @ new)" using new(2,3) room_invD(1) [OF inv] by auto
  ultimately show False using subseq_pair_distinct(1) [of i j "ids (waiting r) @ new"] by simp
qed

lemma nobody_jumps_the_line:
  assumes inv: "room_inv r" and ij: "ahead r i j" and j: "is_active (room_exec ck c r) j"
  shows "\<not> queued (room_exec ck c r) i"
proof
  assume i: "queued (room_exec ck c r) i"
  note D = subseq_pair_distinct [OF ij [unfolded ahead_def] room_invD(1) [OF inv]]
  have jq: "sessions r j = None" "waiting r \<noteq> []" using D(4) room_invD(3) [OF inv] by auto
  show False
  proof (cases c)
    case (CReconcile cap aTTL qTTL now)
    let ?t = "ck_stamp ck now" and ?l = "ids (line ck qTTL (ck_stamp ck now) r)"
    define k where "k = min (free_slots ck cap aTTL ?t r) (length (line ck qTTL ?t r))"
    have "kept ck aTTL ?t r j = None" using jq(1) by (simp add: kept_def room_expire_def)
    have "j \<in> set (take k ?l)"
    proof (rule ccontr)
      assume "j \<notin> set (take k ?l)"
      then have "j \<notin> set (ids (take k (line ck qTTL ?t r)))" by (simp add: ids_take_drop)
      then have "sessions (room_exec ck c r) j = kept ck aTTL ?t r j"
        using CReconcile by (simp add: room_Reconcile_sel k_def room_admit_old)
      with j \<open>kept ck aTTL ?t r j = None\<close> show False by (simp add: is_active_def)
    qed
    moreover have "i \<in> set (drop k ?l)"
      using i CReconcile by (simp add: queued_def room_Reconcile_sel k_def ids_take_drop)
    ultimately have "subseq ([j] @ [i]) (take k ?l @ drop k ?l)"
      by (intro list_emb_append_mono) (simp_all add: subseq_singleton_left)
    then have "subseq [j, i] (ids (waiting r))"
      using ids_room_evict unfolding line_def by (auto intro: subseq_order.order_trans)
    with D(1) show False by simp
  qed (use j jq in \<open>auto simp: room_ops is_active_def refresh_session_def Let_def
        split: if_splits option.splits\<close>)
qed

text \<open>
  Over a whole run: while a ticket keeps its place in the line, nobody who was not ahead of it
  and not inside is let in, however often he leaves and comes back.
\<close>

definition outranks :: "string \<Rightarrow> string \<Rightarrow> room \<Rightarrow> bool" where
  "outranks i j r \<longleftrightarrow> queued r i \<and> i \<noteq> j \<and> \<not> is_active r j \<and> (queued r j \<longrightarrow> ahead r i j)"

lemma unknown_not_admitted:
  assumes "\<not> is_active r j" "\<not> queued r j" "waiting r \<noteq> []"
  shows "\<not> is_active (room_exec ck c r) j"
proof (cases c)
  case (CReconcile cap aTTL qTTL now)
  let ?l = "line ck qTTL (ck_stamp ck now) r"
  have "j \<notin> set (ids (take k ?l))" for k
    using assms(2) set_ids_room_evict unfolding queued_def line_def ids_take_drop
    by (blast dest: in_set_takeD)
  then show ?thesis
    using assms(1) by (simp add: CReconcile is_active_def room_Reconcile_sel room_admit_old kept_def
        room_expire_def)
qed (use assms in \<open>auto simp: room_ops is_active_def refresh_session_def Let_def
       split: if_splits option.splits\<close>)

lemma outranks_step:
  assumes inv: "room_inv r" and o: "outranks i j r" and i: "queued (room_exec ck c r) i"
  shows "outranks i j (room_exec ck c r)"
proof -
  let ?r = "room_exec ck c r"
  have o': "queued r i" "i \<noteq> j" "\<not> is_active r j" "queued r j \<Longrightarrow> ahead r i j"
    using o by (auto simp: outranks_def)
  have act: "\<not> is_active ?r j"
  proof (cases "queued r j")
    case True
    with nobody_jumps_the_line [OF inv o'(4)] i show ?thesis by blast
  next
    case False
    have "waiting r \<noteq> []" using o'(1) by (auto simp: queued_def)
    with False o'(3) unknown_not_admitted show ?thesis by blast
  qed
  have "ahead ?r i j" if j: "queued ?r j"
  proof (cases "queued r j")
    case True
    with ahead_stays_ahead [OF inv o'(4) i j] show ?thesis by blast
  next
    case False
    obtain new where new: "subseq (ids (waiting ?r)) (ids (waiting r) @ new)"
      "set new \<inter> set (ids (waiting r)) = {}" "distinct new"
      using line_kept_in_order [OF inv] by blast
    have "j \<in> set new"
    proof -
      have "j \<in> set (ids (waiting r) @ new)"
        using list_emb_set [OF new(1)] j unfolding queued_def by metis
      with False show ?thesis by (simp add: queued_def)
    qed
    then have ij: "subseq [i, j] (ids (waiting r) @ new)"
      using list_emb_append_mono [of "(=)" "[i]" "ids (waiting r)" "[j]" new] o'(1)
      unfolding queued_def subseq_singleton_left by simp
    have d: "distinct (ids (waiting r) @ new)" using new(2,3) room_invD(1) [OF inv] by auto
    show ?thesis
    proof (rule ccontr)
      assume "\<not> ahead ?r i j"
      then have "subseq [j, i] (ids (waiting ?r))"
        using subseq_pair_total [of i "ids (waiting ?r)" j] i j o'(2) unfolding ahead_def queued_def
        by blast
      then have "subseq [j, i] (ids (waiting r) @ new)" using new(1) by (rule subseq_order.order_trans)
      with subseq_pair_distinct(1) [OF ij d] show False by simp
    qed
  qed
  with act i o'(2) show ?thesis by (simp add: outranks_def)
qed

lemma outranks_run:
  assumes "room_inv r" "outranks i j r"
    and "\<And>k. k \<le> length cs \<Longrightarrow> queued (fold (room_exec ck) (take k cs) r) i"
  shows "outranks i j (fold (room_exec ck) cs r)"
  using assms
proof (induction cs arbitrary: r)
  case (Cons c cs)
  have "queued (room_exec ck c r) i" using Cons.prems(3) [of 1] by simp
  with outranks_step Cons.prems(1,2) have "outranks i j (room_exec ck c r)" by blast
  moreover have "queued (fold (room_exec ck) (take k cs) (room_exec ck c r)) i"
    if "k \<le> length cs" for k using Cons.prems(3) [of "Suc k"] that by simp
  ultimately show ?case using Cons.IH room_inv_exec [OF Cons.prems(1)] by simp
qed simp

lemma override_exec: "override (room_exec ck c r) = (case c of CSetCapacity n \<Rightarrow> Some n | _ \<Rightarrow> override r)"
  by (cases c) (simp_all add: room_ops Let_def room_Reconcile_sel)

section \<open>What one pass of Reconcile achieves\<close>

text \<open>It fills the room: afterwards nobody waits, or no slot is free.\<close>

lemma reconcile_work_conserving:
  assumes "room_inv r"
  shows "waiting (snd (room_Reconcile ck cap aTTL qTTL t r)) = [] \<or>
         cap \<le> active_count (snd (room_Reconcile ck cap aTTL qTTL t r))"
  unfolding active_count_Reconcile [OF assms] room_Reconcile_sel by (auto simp: free_slots_def)

text \<open>A ticket with a recent heartbeat is not evicted, and a session not idle is not expired.\<close>

lemma reconcile_keeps_fresh_waiter:
  assumes "w \<in> set (waiting r)" "\<not> ck_idle ck qTTL t (w_seen w)"
  shows "queued (snd (room_Reconcile ck cap aTTL qTTL t r)) (w_id w) \<or>
         is_active (snd (room_Reconcile ck cap aTTL qTTL t r)) (w_id w)"
proof -
  let ?k = "min (free_slots ck cap aTTL t r) (length (line ck qTTL t r))"
  have "w \<in> set (line ck qTTL t r)" using assms by (simp add: line_def room_evict_def)
  then have "w_id w \<in> set (ids (take ?k (line ck qTTL t r) @ drop ?k (line ck qTTL t r)))"
    unfolding append_take_drop_id by (auto simp: ids_def)
  then have "w_id w \<in> set (ids (take ?k (line ck qTTL t r))) \<or>
      w_id w \<in> set (ids (drop ?k (line ck qTTL t r)))"
    unfolding ids_simps(3) set_append by blast
  then show ?thesis
    using room_admit_new [of "w_id w" "take ?k (line ck qTTL t r)"]
    by (auto simp: queued_def is_active_def room_Reconcile_sel)
qed

lemma reconcile_keeps_fresh_session:
  assumes "room_inv r" "sessions r i = Some v" "\<not> ck_idle ck aTTL t (s_seen v)"
  shows "sessions (snd (room_Reconcile ck cap aTTL qTTL t r)) i = Some v"
proof -
  let ?k = "min (free_slots ck cap aTTL t r) (length (line ck qTTL t r))"
  have "kept ck aTTL t r i = Some v" using assms by (simp add: kept_def room_expire_def)
  moreover from this have "i \<notin> set (ids (line ck qTTL t r))"
    using line_props(2) [OF assms(1), of ck qTTL t aTTL] by auto
  then have "i \<notin> set (ids (take ?k (line ck qTTL t r)))"
    by (auto simp: ids_take_drop dest: in_set_takeD)
  ultimately show ?thesis by (simp add: room_Reconcile_sel room_admit_old)
qed

text \<open>Every pass moves a polling ticket forward by the number of free slots, or admits it.\<close>

lemma position_filter_le:
  assumes "\<And>w. w \<in> set ws \<Longrightarrow> w_id w = i \<Longrightarrow> P w"
  shows "position (filter P ws) i \<le> position ws i"
  using assms
proof (induction ws)
  case (Cons w ws)
  then have "position (filter P ws) i \<le> position ws i" by simp
  with Cons.prems show ?case by (auto simp: position_def)
qed (simp add: position_def)

lemma position_drop:
  assumes "distinct (ids ws)" "i \<in> set (ids (drop k ws))"
  shows "position ws i = k + position (drop k ws) i"
proof (cases "k \<le> length ws")
  case True
  have "i \<notin> set (ids (take k ws))"
    using assms by (metis append_take_drop_id disjoint_iff distinct_append ids_take_drop)
  then show ?thesis
    using position_append [of "take k ws" "drop k ws" i] True by simp
qed (use assms(2) in simp)

lemma position_take:
  assumes "i \<in> set (ids ws)" "position ws i \<le> k"
  shows "i \<in> set (ids (take k ws))"
proof (rule ccontr)
  assume no: "i \<notin> set (ids (take k ws))"
  then have "k < length ws" using assms(1) by (metis not_le_imp_less take_all)
  moreover have "position ws i = min k (length ws) + position (drop k ws) i"
    using position_append [of "take k ws" "drop k ws" i] no by simp
  ultimately show False using assms(2) position_bounds(1) [of "drop k ws" i] by simp
qed

lemma reconcile_progress:
  fixes ck :: clocking and cap :: int and aTTL qTTL :: dur and t :: int
  assumes inv: "room_inv r" and w: "w \<in> set (waiting r)" "\<not> ck_idle ck qTTL t (w_seen w)"
  defines "r' \<equiv> snd (room_Reconcile ck cap aTTL qTTL t r)" and "i \<equiv> w_id w"
  shows "is_active r' i \<or>
    queued r' i \<and> position (waiting r') i + free_slots ck cap aTTL t r \<le> position (waiting r) i"
proof -
  let ?l = "line ck qTTL t r" and ?f = "free_slots ck cap aTTL t r"
  let ?k = "min ?f (length ?l)"
  have own: "v = w" if "v \<in> set (waiting r)" "w_id v = i" for v
    using that w(1) room_invD(1) [OF inv] by (auto simp: ids_def i_def distinct_map inj_on_def)
  have l: "w \<in> set ?l" using w by (simp add: line_def room_evict_def)
  then have il: "i \<in> set (ids ?l)" by (auto simp: ids_def i_def)
  have le: "position ?l i \<le> position (waiting r) i"
    unfolding line_def room_evict_def by (rule position_filter_le) (use own w(2) in auto)
  show ?thesis
  proof (cases "i \<in> set (ids (take ?k ?l))")
    case True
    then show ?thesis by (simp add: is_active_def r'_def room_Reconcile_sel room_admit_new)
  next
    case False
    then have d: "i \<in> set (ids (drop ?k ?l))"
      using il by (metis Un_iff append_take_drop_id ids_simps(3) set_append)
    then have "?k < length ?l" by (cases "?k < length ?l") auto
    then have k: "?k = ?f" by simp
    have "position ?l i = ?f + position (drop ?f ?l) i"
      using position_drop [OF line_props(1) [OF inv] d] unfolding k .
    with le d show ?thesis unfolding k by (simp add: r'_def room_Reconcile_sel queued_def k)
  qed
qed

section \<open>Clocks\<close>

text \<open>
  What a backend's idle test must satisfy: it never fires at the instant of the heartbeat, a
  later instant or an earlier heartbeat never makes it stop firing.
\<close>

locale lawful_clock =
  fixes ck :: clocking
  assumes never_at_once: "0 \<le> ttl \<Longrightarrow> \<not> ck_idle ck ttl t t"
    and stays_idle: "ck_idle ck ttl t seen \<Longrightarrow> t \<le> t' \<Longrightarrow> seen' \<le> seen \<Longrightarrow> ck_idle ck ttl t' seen'"
begin

lemma reconcile_nobody_idle:
  assumes "0 \<le> aTTL"
  shows "sessions (snd (room_Reconcile ck cap aTTL qTTL t r)) i = Some v \<Longrightarrow>
           \<not> ck_idle ck aTTL t (s_seen v)"
    and "w \<in> set (waiting (snd (room_Reconcile ck cap aTTL qTTL t r))) \<Longrightarrow>
           \<not> ck_idle ck qTTL t (w_seen w)"
proof -
  let ?k = "min (free_slots ck cap aTTL t r) (length (line ck qTTL t r))"
  let ?new = "take ?k (line ck qTTL t r)"
  assume "sessions (snd (room_Reconcile ck cap aTTL qTTL t r)) i = Some v"
  then have v: "room_admit t ?new (kept ck aTTL t r) i = Some v" by (simp add: room_Reconcile_sel)
  show "\<not> ck_idle ck aTTL t (s_seen v)"
  proof (cases "i \<in> set (ids ?new)")
    case True
    with v room_admit_new have "v = new_session t" by fastforce
    with never_at_once [OF assms] show ?thesis by (simp add: new_session_def)
  next
    case False
    with v room_admit_old have "kept ck aTTL t r i = Some v" by fastforce
    then show ?thesis by (auto simp: kept_def room_expire_def split: option.splits if_splits)
  qed
next
  assume "w \<in> set (waiting (snd (room_Reconcile ck cap aTTL qTTL t r)))"
  then have "w \<in> set (line ck qTTL t r)" by (auto simp: room_Reconcile_sel dest: in_set_dropD)
  then show "\<not> ck_idle ck qTTL t (w_seen w)" by (simp add: line_def room_evict_def)
qed

text \<open>A second pass at the same instant finds nothing to do.\<close>

lemma reconcile_idempotent:
  fixes cap :: int and qTTL :: dur and t :: int
  assumes inv: "room_inv r" and ttl: "0 \<le> aTTL"
  defines "r' \<equiv> snd (room_Reconcile ck cap aTTL qTTL t r)"
  shows "room_Reconcile ck cap aTTL qTTL t r' = (zero_reconcile_result, r')"
proof -
  note idle = reconcile_nobody_idle(1) [OF ttl, of cap qTTL t r, folded r'_def]
    reconcile_nobody_idle(2) [OF ttl, of _ cap qTTL t r, folded r'_def]
  have kept: "kept ck aTTL t r' = sessions r'"
    using idle(1) by (auto simp: kept_def room_expire_def fun_eq_iff split: option.split)
  have line: "line ck qTTL t r' = waiting r'"
    unfolding line_def room_evict_def using idle(2) by (simp add: filter_id_conv)
  have "waiting r' = [] \<or> cap \<le> active_count r'"
    unfolding r'_def by (rule reconcile_work_conserving [OF inv])
  then have k: "min (free_slots ck cap aTTL t r') (length (waiting r')) = 0"
    by (auto simp: free_slots_def kept active_count_def)
  have "fst (room_Reconcile ck cap aTTL qTTL t r') = zero_reconcile_result"
    by (rule reconcile_result.equality)
       (simp_all only: room_Reconcile_sel line kept k zero_reconcile_result_def, simp_all)
  moreover have "snd (room_Reconcile ck cap aTTL qTTL t r') = r'"
    by (rule room.equality) (simp_all only: room_Reconcile_sel line kept k, simp_all)
  ultimately show ?thesis by (simp add: prod_eq_iff)
qed

end

end
