(* ===== verification/MemoryRefine.thy ===== *)
theory MemoryRefine
  imports MemorySeq RoomProps
begin

text \<open>
  The in-process store implements the abstract waiting room: the representation invariant
  \<open>mem_inv\<close>, the abstraction \<open>mem_abs\<close> from a heap of shared entries to a room, and for each
  operation of \<^verbatim>\<open>memory.go\<close> the proof that it keeps the invariant and computes what the room
  operation computes.
\<close>

section \<open>Invariant and abstraction\<close>

definition heap_inv :: "mem_store \<Rightarrow> bool" where
  "heap_inv s \<longleftrightarrow>
     finite (dom (entries s)) \<and>
     (\<forall>i a. entries s i = Some a \<longrightarrow> a < fresh s \<and> e_id (heap s a) = i \<and>
        (e_status (heap s a) = StatusQueued \<or> e_status (heap s a) = StatusActive)) \<and>
     distinct (queue s) \<and>
     (\<forall>a. a \<in> set (queue s) \<longleftrightarrow>
        entries s (e_id (heap s a)) = Some a \<and> e_status (heap s a) = StatusQueued)"

definition seqs :: "mem_store \<Rightarrow> 64 word list" where
  "seqs s = map (\<lambda>a. e_seq (heap s a)) (queue s)"

definition waiter_of :: "entry \<Rightarrow> waiter" where
  "waiter_of e = \<lparr>w_id = e_id e, w_enqueued = e_enqueuedAt e, w_seen = e_lastSeen e\<rparr>"

definition session_of :: "entry \<Rightarrow> session" where
  "session_of e = \<lparr>s_admitted = e_admittedAt e, s_seen = e_lastSeen e\<rparr>"

definition mem_sessions :: "mem_store \<Rightarrow> string \<rightharpoonup> session" where
  "mem_sessions s = (\<lambda>i. case entries s i of None \<Rightarrow> None
     | Some a \<Rightarrow> if e_status (heap s a) = StatusActive then Some (session_of (heap s a)) else None)"

definition mem_abs :: "mem_store \<Rightarrow> room" where
  "mem_abs s = \<lparr>waiting = map (\<lambda>a. waiter_of (heap s a)) (queue s),
                sessions = mem_sessions s,
                override = (if capacitySet s then Some (capacity s) else None)\<rparr>"

definition mem_inv :: "mem_store \<Rightarrow> bool" where
  "mem_inv s \<longleftrightarrow> heap_inv s \<and> active s = active_count (mem_abs s) \<and>
     seq_ok (seqs s) (holes s) (nextSeq s)"

text \<open>How many more tickets can be numbered before the sequence counter is exhausted.\<close>

definition mem_headroom :: "mem_store \<Rightarrow> bool" where
  "mem_headroom s \<longleftrightarrow> unat (nextSeq s) + 1 < 2 ^ 63 - 1"

definition memory_clocking :: clocking where
  "memory_clocking = \<lparr>ck_stamp = (\<lambda>t. t), ck_idle = (\<lambda>ttl t seen. time_sub t seen > ttl),
     ck_secs = (\<lambda>t u. seconds (time_sub t u)), ck_enqueue_touches = True,
     ck_carries = (\<lambda>_. True)\<rparr>"

lemmas mem_prims = set_lastSeen_def update_entry_def admitLocked_def alloc_def

lemma memory_clocking_simps [simp]:
  "ck_stamp memory_clocking t = t"
  "ck_idle memory_clocking ttl t seen \<longleftrightarrow> time_sub t seen > ttl"
  "ck_secs memory_clocking t u = seconds (time_sub t u)"
  "ck_enqueue_touches memory_clocking"
  "ck_carries memory_clocking n"
  by (simp_all add: memory_clocking_def)

lemma mem_abs_sel [simp]:
  "waiting (mem_abs s) = map (\<lambda>a. waiter_of (heap s a)) (queue s)"
  "sessions (mem_abs s) = mem_sessions s"
  "override (mem_abs s) = (if capacitySet s then Some (capacity s) else None)"
  by (simp_all add: mem_abs_def)

lemma waiter_of_sel [simp]:
  "w_id (waiter_of e) = e_id e" "w_enqueued (waiter_of e) = e_enqueuedAt e"
  "w_seen (waiter_of e) = e_lastSeen e"
  by (simp_all add: waiter_of_def)

lemma session_of_sel [simp]:
  "s_admitted (session_of e) = e_admittedAt e" "s_seen (session_of e) = e_lastSeen e"
  by (simp_all add: session_of_def)

section \<open>Reading the invariant\<close>

lemma heap_invD:
  assumes "heap_inv s"
  shows "finite (dom (entries s))" "distinct (queue s)"
    and "\<And>i a. entries s i = Some a \<Longrightarrow> a < fresh s"
    and "\<And>i a. entries s i = Some a \<Longrightarrow> e_id (heap s a) = i"
    and "\<And>i a. entries s i = Some a \<Longrightarrow> e_status (heap s a) \<noteq> StatusActive \<Longrightarrow>
          e_status (heap s a) = StatusQueued"
    and "\<And>a. a \<in> set (queue s) \<Longrightarrow> entries s (e_id (heap s a)) = Some a"
    and "\<And>a. a \<in> set (queue s) \<Longrightarrow> e_status (heap s a) = StatusQueued"
    and "\<And>i a. entries s i = Some a \<Longrightarrow> e_status (heap s a) = StatusQueued \<Longrightarrow> a \<in> set (queue s)"
  using assms by (auto simp: heap_inv_def)

lemma heap_invI:
  assumes "finite (dom (entries s))" "distinct (queue s)"
    and "\<And>i a. entries s i = Some a \<Longrightarrow> a < fresh s \<and> e_id (heap s a) = i \<and>
          (e_status (heap s a) = StatusQueued \<or> e_status (heap s a) = StatusActive)"
    and "\<And>a. a \<in> set (queue s) \<longleftrightarrow>
          entries s (e_id (heap s a)) = Some a \<and> e_status (heap s a) = StatusQueued"
  shows "heap_inv s"
  using assms by (simp add: heap_inv_def)

lemma heap_inv_entry:
  assumes "heap_inv s" "entries s i = Some a"
  shows "a < fresh s \<and> e_id (heap s a) = i \<and>
    (e_status (heap s a) = StatusQueued \<or> e_status (heap s a) = StatusActive)"
  using assms by (simp add: heap_inv_def)

lemma heap_inv_queue_iff:
  "heap_inv s \<Longrightarrow> a \<in> set (queue s) \<longleftrightarrow>
     entries s (e_id (heap s a)) = Some a \<and> e_status (heap s a) = StatusQueued"
  by (simp add: heap_inv_def)

lemma mem_invD:
  assumes "mem_inv s"
  shows "heap_inv s" "active s = active_count (mem_abs s)"
    "seq_ok (seqs s) (holes s) (nextSeq s)"
  using assms by (auto simp: mem_inv_def)

text \<open>Two map keys never share an entry, and the queue names each ticket once.\<close>

lemma entries_inj: "heap_inv s \<Longrightarrow> entries s i = Some a \<Longrightarrow> entries s j = Some a \<Longrightarrow> i = j"
  by (metis heap_invD(4))

lemma queue_ids_inj:
  assumes "heap_inv s" "a \<in> set (queue s)" "b \<in> set (queue s)" "e_id (heap s a) = e_id (heap s b)"
  shows "a = b"
  using heap_invD(6) [OF assms(1)] assms(2-4) by (metis option.inject)

lemma queued_mem_abs:
  assumes "heap_inv s"
  shows "queued (mem_abs s) i \<longleftrightarrow> (\<exists>a. entries s i = Some a \<and> e_status (heap s a) = StatusQueued)"
proof
  assume "queued (mem_abs s) i"
  then obtain a where "a \<in> set (queue s)" "i = e_id (heap s a)"
    by (auto simp: queued_def ids_def)
  with heap_invD(6,7) [OF assms] show "\<exists>a. entries s i = Some a \<and> e_status (heap s a) = StatusQueued"
    by blast
next
  assume "\<exists>a. entries s i = Some a \<and> e_status (heap s a) = StatusQueued"
  then obtain a where "a \<in> set (queue s)" "e_id (heap s a) = i"
    using heap_invD(4,8) [OF assms] by blast
  then show "queued (mem_abs s) i" by (auto simp: queued_def ids_def)
qed

lemma is_active_mem_abs:
  "is_active (mem_abs s) i \<longleftrightarrow> (\<exists>a. entries s i = Some a \<and> e_status (heap s a) = StatusActive)"
  by (auto simp: is_active_def mem_sessions_def split: option.splits if_splits)

lemma dom_mem_sessions:
  "dom (mem_sessions s) = {i. \<exists>a. entries s i = Some a \<and> e_status (heap s a) = StatusActive}"
  by (auto simp: mem_sessions_def split: option.splits if_splits)

lemma finite_mem_sessions: "heap_inv s \<Longrightarrow> finite (dom (mem_sessions s))"
  by (rule finite_subset [OF _ heap_invD(1)]) (auto simp: dom_mem_sessions)

lemma mem_abs_room_inv:
  assumes "mem_inv s"
  shows "room_inv (mem_abs s)"
proof -
  have h: "heap_inv s" using assms by (simp add: mem_inv_def)
  have "inj_on (\<lambda>a. e_id (heap s a)) (set (queue s))"
    by (rule inj_onI) (rule queue_ids_inj [OF h])
  then have "distinct (ids (waiting (mem_abs s)))"
    using heap_invD(2) [OF h] by (simp add: ids_def distinct_map comp_def)
  moreover have "set (ids (waiting (mem_abs s))) \<inter> dom (mem_sessions s) = {}"
    using heap_invD(6,7) [OF h] by (auto simp: ids_def dom_mem_sessions)
  ultimately show ?thesis using finite_mem_sessions [OF h] by (simp add: room_inv_def)
qed

lemma mem_inv_New: "mem_inv New" and mem_abs_New: "mem_abs New = empty_room"
  by (simp_all add: mem_inv_def heap_inv_def New_def seqs_def seq_ok_empty active_count_def
      mem_abs_def mem_sessions_def empty_room_def dom_def)

section \<open>Assignments to the shared entries\<close>

text \<open>An update that keeps an entry's id, status and number keeps the shape of the store.\<close>

lemma mem_inv_heap_cong:
  assumes "mem_inv s"
    and "\<And>a. e_id (h a) = e_id (heap s a)" "\<And>a. e_status (h a) = e_status (heap s a)"
      "\<And>a. e_seq (h a) = e_seq (heap s a)"
  shows "mem_inv (s\<lparr>heap := h\<rparr>)"
proof -
  have "dom (mem_sessions (s\<lparr>heap := h\<rparr>)) = dom (mem_sessions s)"
    by (simp add: dom_mem_sessions assms(3))
  moreover have "seqs (s\<lparr>heap := h\<rparr>) = seqs s" by (simp add: seqs_def assms(4))
  ultimately show ?thesis
    using assms(1) unfolding mem_inv_def heap_inv_def active_count_def by (simp add: assms(2-4))
qed

lemma set_lastSeen_refines:
  assumes inv: "mem_inv s" and a: "entries s i = Some a"
  shows "mem_inv (set_lastSeen a now s)"
    and "mem_abs (set_lastSeen a now s) =
         (mem_abs s)\<lparr>waiting := refresh_waiter i now (waiting (mem_abs s)),
                     sessions := refresh_session i now (sessions (mem_abs s))\<rparr>"
proof -
  note h = mem_invD(1) [OF inv]
  show "mem_inv (set_lastSeen a now s)"
    unfolding set_lastSeen_def update_entry_def by (rule mem_inv_heap_cong [OF inv]) auto
  have "b = a \<longleftrightarrow> e_id (heap s b) = i" if "b \<in> set (queue s)" for b
    using that heap_invD(4,6) [OF h] a by fastforce
  then have "waiting (mem_abs (set_lastSeen a now s)) = refresh_waiter i now (waiting (mem_abs s))"
    by (auto simp: mem_prims refresh_waiter_def waiter_of_def)
  moreover have "mem_sessions (set_lastSeen a now s) j = refresh_session i now (mem_sessions s) j" for j
  proof (cases "j = i")
    case False
    with a have "entries s j \<noteq> Some a" using entries_inj [OF h] by blast
    with False show ?thesis
      by (auto simp: mem_prims mem_sessions_def refresh_session_def split: option.splits)
  qed (use a in \<open>auto simp: mem_prims mem_sessions_def refresh_session_def session_of_def\<close>)
  then have "mem_sessions (set_lastSeen a now s) = refresh_session i now (mem_sessions s)" ..
  ultimately show "mem_abs (set_lastSeen a now s) =
         (mem_abs s)\<lparr>waiting := refresh_waiter i now (waiting (mem_abs s)),
                     sessions := refresh_session i now (sessions (mem_abs s))\<rparr>"
    by (simp add: mem_abs_def mem_prims)
qed

text \<open>A fresh entry, active at once.\<close>

definition admit_fresh :: "string \<Rightarrow> time \<Rightarrow> mem_store \<Rightarrow> mem_store" where
  "admit_fresh i now s =
     (let (a, s1) = alloc (zero_entry\<lparr>e_id := i\<rparr>) s
      in admitLocked a now (s1\<lparr>entries := (entries s1)(i \<mapsto> a)\<rparr>))"

lemma fresh_not_used:
  assumes "heap_inv s"
  shows "entries s j \<noteq> Some (fresh s)" "fresh s \<notin> set (queue s)"
  using heap_invD(3,6) [OF assms] by (blast, fastforce)

lemma admit_fresh_refines:
  assumes inv: "mem_inv s" and new: "entries s i = None"
  shows "mem_inv (admit_fresh i now s)"
    and "mem_abs (admit_fresh i now s) =
         (mem_abs s)\<lparr>sessions := (sessions (mem_abs s))(i \<mapsto> new_session now)\<rparr>"
proof -
  note h = mem_invD(1) [OF inv] and fr = fresh_not_used [OF mem_invD(1) [OF inv]]
  let ?t = "admit_fresh i now s"
  have eq: "heap ?t = (heap s)(fresh s := zero_entry\<lparr>e_id := i, e_status := StatusActive,
        e_admittedAt := now, e_lastSeen := now\<rparr>)"
    "fresh ?t = fresh s + 1" "entries ?t = (entries s)(i \<mapsto> fresh s)" "queue ?t = queue s"
    "active ?t = active s + 1" "holes ?t = holes s" "nextSeq ?t = nextSeq s"
    "capacity ?t = capacity s" "capacitySet ?t = capacitySet s"
    by (simp_all add: admit_fresh_def mem_prims)
  have sess: "mem_sessions ?t = (mem_sessions s)(i \<mapsto> new_session now)"
    using fr new by (auto simp: mem_sessions_def eq new_session_def session_of_def
        split: option.splits)
  have wait: "map (\<lambda>a. waiter_of (heap ?t a)) (queue ?t) = map (\<lambda>a. waiter_of (heap s a)) (queue s)"
    "seqs ?t = seqs s"
    using fr by (auto simp: eq seqs_def)
  show abs: "mem_abs ?t = (mem_abs s)\<lparr>sessions := (sessions (mem_abs s))(i \<mapsto> new_session now)\<rparr>"
    by (simp only: mem_abs_def sess wait(1) eq(8,9)) simp
  have "i \<notin> dom (mem_sessions s)" using new by (simp add: dom_mem_sessions)
  then have "active ?t = active_count (mem_abs ?t)"
    using mem_invD(2) [OF inv] finite_mem_sessions [OF h] by (simp add: eq abs active_count_def)
  moreover have "heap_inv ?t"
  proof (rule heap_invI)
    show "b < fresh ?t \<and> e_id (heap ?t b) = j \<and>
        (e_status (heap ?t b) = StatusQueued \<or> e_status (heap ?t b) = StatusActive)"
      if "entries ?t j = Some b" for j b
      using that heap_inv_entry [OF h, of j b] fr(1) [of j]
      by (cases "j = i") (auto simp: eq)
    show "b \<in> set (queue ?t) \<longleftrightarrow>
        entries ?t (e_id (heap ?t b)) = Some b \<and> e_status (heap ?t b) = StatusQueued" for b
      using heap_inv_queue_iff [OF h, of b] fr(2) new
      by (cases "b = fresh s") (auto simp: eq)
  qed (use heap_invD(1,2) [OF h] in \<open>simp_all add: eq\<close>)
  ultimately show "mem_inv ?t" using mem_invD(3) [OF inv] by (simp add: mem_inv_def wait eq)
qed

text \<open>A fresh entry at the tail of the queue.\<close>

definition enqueue_fresh :: "string \<Rightarrow> time \<Rightarrow> mem_store \<Rightarrow> mem_store" where
  "enqueue_fresh i now s =
     s\<lparr>nextSeq := nextSeq s + 1, fresh := fresh s + 1, entries := (entries s)(i \<mapsto> fresh s),
       queue := queue s @ [fresh s],
       heap := (heap s)(fresh s := \<lparr>e_id = i, e_status = StatusQueued, e_enqueuedAt = now,
          e_admittedAt = zero_time, e_lastSeen = now, e_elem = True, e_seq = nextSeq s + 1\<rparr>)\<rparr>"

lemma enqueue_fresh_refines:
  assumes inv: "mem_inv s" and new: "entries s i = None" and room: "mem_headroom s"
  shows "mem_inv (enqueue_fresh i now s)"
    and "mem_abs (enqueue_fresh i now s) =
         (mem_abs s)\<lparr>waiting := waiting (mem_abs s) @
            [\<lparr>w_id = i, w_enqueued = now, w_seen = now\<rparr>]\<rparr>"
proof -
  note h = mem_invD(1) [OF inv] and fr = fresh_not_used [OF mem_invD(1) [OF inv]]
  let ?t = "enqueue_fresh i now s"
  have sess: "mem_sessions ?t = mem_sessions s"
    using fr new by (auto simp: mem_sessions_def enqueue_fresh_def split: option.splits)
  have old: "map (\<lambda>a. f (heap ?t a)) (queue s) = map (\<lambda>a. f (heap s a)) (queue s)" for f :: "entry \<Rightarrow> 'x"
    using fr by (auto simp: enqueue_fresh_def)
  have q: "queue ?t = queue s @ [fresh s]" by (simp add: enqueue_fresh_def)
  have sq: "seqs ?t = seqs s @ [nextSeq s + 1]"
    using old [of e_seq] by (simp add: seqs_def q) (simp add: enqueue_fresh_def)
  show abs: "mem_abs ?t = (mem_abs s)\<lparr>waiting := waiting (mem_abs s) @
            [\<lparr>w_id = i, w_enqueued = now, w_seen = now\<rparr>]\<rparr>"
    using old [of waiter_of] by (simp add: mem_abs_def q sess) (simp add: enqueue_fresh_def waiter_of_def)
  have "heap_inv ?t"
  proof (rule heap_invI)
    show "b < fresh ?t \<and> e_id (heap ?t b) = j \<and>
        (e_status (heap ?t b) = StatusQueued \<or> e_status (heap ?t b) = StatusActive)"
      if "entries ?t j = Some b" for j b
      using that heap_inv_entry [OF h, of j b] fr(1) [of j]
      by (cases "j = i") (auto simp: enqueue_fresh_def)
    show "b \<in> set (queue ?t) \<longleftrightarrow>
        entries ?t (e_id (heap ?t b)) = Some b \<and> e_status (heap ?t b) = StatusQueued" for b
      using heap_inv_queue_iff [OF h, of b] fr(2) new
      by (cases "b = fresh s") (auto simp: enqueue_fresh_def)
  qed (use heap_invD(1,2) [OF h] fr(2) in \<open>simp_all add: enqueue_fresh_def\<close>)
  moreover have "seq_ok (seqs ?t) (holes ?t) (nextSeq ?t)"
    using seq_ok_enqueue [OF mem_invD(3) [OF inv]] room
    by (simp add: sq mem_headroom_def) (simp add: enqueue_fresh_def)
  moreover have "active ?t = active_count (mem_abs ?t)"
    using mem_invD(2) [OF inv] by (simp add: abs active_count_def) (simp add: enqueue_fresh_def)
  ultimately show "mem_inv ?t" by (simp add: mem_inv_def)
qed

text \<open>Forgetting an active session.\<close>

lemma drop_active_refines:
  fixes avg :: float64
  assumes inv: "mem_inv s" and a: "entries s i = Some a" "e_status (heap s a) = StatusActive"
  defines "t \<equiv> s\<lparr>avgSession := avg, entries := (entries s)(i := None), active := active s - 1\<rparr>"
  shows "mem_inv t" and "mem_abs t = (mem_abs s)\<lparr>sessions := (sessions (mem_abs s))(i := None)\<rparr>"
proof -
  note h = mem_invD(1) [OF inv]
  have sess: "mem_sessions t = (mem_sessions s)(i := None)"
    by (simp add: mem_sessions_def t_def fun_eq_iff split: option.split)
  show abs: "mem_abs t = (mem_abs s)\<lparr>sessions := (sessions (mem_abs s))(i := None)\<rparr>"
    by (simp add: mem_abs_def sess) (simp add: t_def)
  have i: "i \<in> dom (mem_sessions s)" using a by (simp add: dom_mem_sessions)
  with finite_mem_sessions [OF h] have "0 < card (dom (mem_sessions s))"
    by (auto simp: card_gt_0_iff)
  with i have cnt: "active t = active_count (mem_abs t)"
    using mem_invD(2) [OF inv] finite_mem_sessions [OF h]
    by (simp add: abs active_count_def) (simp add: t_def)
  have "a \<notin> set (queue s)" using heap_invD(7) [OF h] a(2) by fastforce
  then have "b \<in> set (queue t) \<longleftrightarrow>
      entries t (e_id (heap t b)) = Some b \<and> e_status (heap t b) = StatusQueued" for b
    using heap_inv_queue_iff [OF h, of b] a by (cases "b = a") (auto simp: t_def)
  moreover have "b < fresh t \<and> e_id (heap t b) = j \<and>
      (e_status (heap t b) = StatusQueued \<or> e_status (heap t b) = StatusActive)"
    if "entries t j = Some b" for j b
    using that heap_inv_entry [OF h, of j b] by (auto simp: t_def split: if_splits)
  ultimately have "heap_inv t"
    using heap_invD(1,2) [OF h] by (intro heap_invI) (simp_all add: t_def)
  moreover note cnt
  moreover have "seqs t = seqs s" "holes t = holes s" "nextSeq t = nextSeq s"
    by (simp_all add: t_def seqs_def)
  ultimately show "mem_inv t"
    using mem_invD(3) [OF inv] by (simp add: mem_inv_def)
qed

text \<open>Forgetting a queued ticket, wherever it stands.\<close>

definition drop_queued :: "addr \<Rightarrow> mem_store \<Rightarrow> mem_store" where
  "drop_queued a s = addHoleLocked (e_seq (heap s a))
     (s\<lparr>queue := remove1 a (queue s), entries := (entries s)(e_id (heap s a) := None)\<rparr>)"

lemma drop_queued_refines:
  assumes inv: "mem_inv s" and a: "a \<in> set (queue s)"
  shows "mem_inv (drop_queued a s)"
    and "waiting (mem_abs (drop_queued a s)) =
         filter (\<lambda>w. w_id w \<noteq> e_id (heap s a)) (waiting (mem_abs s))"
    and "mem_sessions (drop_queued a s) = mem_sessions s"
    and "heap (drop_queued a s) = heap s" "queue (drop_queued a s) = remove1 a (queue s)"
      "active (drop_queued a s) = active s" "nextSeq (drop_queued a s) = nextSeq s"
      "override (mem_abs (drop_queued a s)) = override (mem_abs s)"
      "avgSession (drop_queued a s) = avgSession s"
proof -
  note h = mem_invD(1) [OF inv] and D = seq_okD [OF mem_invD(3) [OF inv]]
  let ?i = "e_id (heap s a)" and ?x = "e_seq (heap s a)"
  let ?s = "s\<lparr>queue := remove1 a (queue s), entries := (entries s)(?i := None)\<rparr>"
  let ?t = "drop_queued a s"
  have x: "?x \<in> set (seqs s)" using a by (auto simp: seqs_def)
  then have "?x \<notin> set (holes s)" using D(3) by auto
  then have hole: "sorted_wrt (<) (holes ?t)" "set (holes ?t) = insert ?x (set (holes s))"
    "?t = ?s\<lparr>holes := holes ?t\<rparr>"
    using addHoleLocked_holes [of ?s ?x] D(2) by (simp_all add: drop_queued_def)
  have sel: "heap ?t = heap s" "queue ?t = remove1 a (queue s)" "active ?t = active s"
    "nextSeq ?t = nextSeq s" "entries ?t = (entries s)(?i := None)" "fresh ?t = fresh s"
    "capacity ?t = capacity s" "capacitySet ?t = capacitySet s" "avgSession ?t = avgSession s"
    by (subst hole(3), simp)+
  then show "heap ?t = heap s" "queue ?t = remove1 a (queue s)" "active ?t = active s"
    "nextSeq ?t = nextSeq s" "override (mem_abs ?t) = override (mem_abs s)"
    "avgSession ?t = avgSession s" by simp_all
  have mem: "entries s ?i = Some a" "e_status (heap s a) = StatusQueued"
    using heap_invD(6,7) [OF h a] .
  show sess: "mem_sessions ?t = mem_sessions s"
    using mem by (simp add: mem_sessions_def sel fun_eq_iff split: option.split)
  have dist: "distinct (queue s)" by (rule heap_invD(2) [OF h])
  have "remove1 a (queue s) = filter (\<lambda>b. b \<noteq> a) (queue s)"
    using distinct_remove1_removeAll [OF dist] by (simp add: removeAll_filter_not_eq eq_commute)
  also have "\<dots> = filter (\<lambda>b. e_id (heap s b) \<noteq> ?i) (queue s)"
    using queue_ids_inj [OF h _ a] by (intro filter_cong) auto
  finally show "waiting (mem_abs ?t) = filter (\<lambda>w. w_id w \<noteq> ?i) (waiting (mem_abs s))"
    by (simp add: sel filter_map comp_def)
  have "inj_on (\<lambda>b. e_seq (heap s b)) (set (queue s))"
    using sorted_wrt_less_distinct [OF D(1)] by (simp add: seqs_def distinct_map)
  then have "seqs ?t = remove1 ?x (seqs s)"
    using map_remove1_inj [of "\<lambda>b. e_seq (heap s b)" a "queue s"] a
    by (simp add: seqs_def sel insert_absorb)
  then have "seq_ok (seqs ?t) (holes ?t) (nextSeq ?t)"
    using seq_ok_evict [OF mem_invD(3) [OF inv] x hole(1,2)] by (simp add: sel)
  moreover have "heap_inv ?t"
  proof (rule heap_invI)
    show "b < fresh ?t \<and> e_id (heap ?t b) = j \<and>
        (e_status (heap ?t b) = StatusQueued \<or> e_status (heap ?t b) = StatusActive)"
      if "entries ?t j = Some b" for j b
      using that heap_inv_entry [OF h, of j b] by (simp add: sel split: if_splits)
    show "b \<in> set (queue ?t) \<longleftrightarrow>
        entries ?t (e_id (heap ?t b)) = Some b \<and> e_status (heap ?t b) = StatusQueued" for b
      using heap_inv_queue_iff [OF h, of b] queue_ids_inj [OF h _ a, of b] mem dist
      by (cases "b = a") (auto simp: sel)
  qed (use heap_invD(1,2) [OF h] in \<open>simp_all add: sel\<close>)
  moreover have "active ?t = active_count (mem_abs ?t)"
    using mem_invD(2) [OF inv] by (simp add: sel sess active_count_def)
  ultimately show "mem_inv ?t" by (simp add: mem_inv_def)
qed

text \<open>Admitting the front of the queue.\<close>

definition pop_admit :: "addr \<Rightarrow> addr list \<Rightarrow> time \<Rightarrow> mem_store \<Rightarrow> mem_store" where
  "pop_admit a rest now s =
     admitLocked a now (update_entry a (\<lambda>e. e\<lparr>e_elem := False\<rparr>) (s\<lparr>queue := rest\<rparr>))"

lemma pop_admit_refines:
  assumes inv: "mem_inv s" and q: "queue s = a # rest"
  shows "mem_inv (pop_admit a rest now s)"
    and "waiting (mem_abs (pop_admit a rest now s)) = tl (waiting (mem_abs s))"
    and "mem_sessions (pop_admit a rest now s) =
         (mem_sessions s)(e_id (heap s a) \<mapsto> new_session now)"
    and "active (pop_admit a rest now s) = active s + 1"
      "queue (pop_admit a rest now s) = rest" "nextSeq (pop_admit a rest now s) = nextSeq s"
      "override (mem_abs (pop_admit a rest now s)) = override (mem_abs s)"
      "avgSession (pop_admit a rest now s) = avgSession s"
proof -
  note h = mem_invD(1) [OF inv]
  let ?t = "pop_admit a rest now s" and ?i = "e_id (heap s a)"
  have a: "a \<in> set (queue s)" "a \<notin> set rest" using heap_invD(2) [OF h] by (auto simp: q)
  have mem: "entries s ?i = Some a" "e_status (heap s a) = StatusQueued"
    using heap_invD(6,7) [OF h a(1)] .
  have sel: "heap ?t = (heap s)(a := (heap s a)\<lparr>e_elem := False, e_status := StatusActive,
        e_admittedAt := now, e_lastSeen := now\<rparr>)"
    "fresh ?t = fresh s" "entries ?t = entries s" "queue ?t = rest" "active ?t = active s + 1"
    "holes ?t = holes s" "nextSeq ?t = nextSeq s" "capacity ?t = capacity s"
    "capacitySet ?t = capacitySet s" "avgSession ?t = avgSession s"
    by (simp_all add: pop_admit_def mem_prims)
  then show "active ?t = active s + 1" "queue ?t = rest" "nextSeq ?t = nextSeq s"
    "override (mem_abs ?t) = override (mem_abs s)" "avgSession ?t = avgSession s" by simp_all
  have old: "map (\<lambda>b. f (heap ?t b)) rest = map (\<lambda>b. f (heap s b)) rest" for f :: "entry \<Rightarrow> 'x"
    using a(2) by (auto simp: sel)
  then show "waiting (mem_abs ?t) = tl (waiting (mem_abs s))" by (simp add: sel(4) q)
  have "mem_sessions ?t j = ((mem_sessions s)(?i \<mapsto> new_session now)) j" for j
  proof (cases "j = ?i")
    case False
    with mem entries_inj [OF h] have "entries s j \<noteq> Some a" by blast
    with False show ?thesis by (auto simp: mem_sessions_def sel split: option.splits)
  qed (use mem in \<open>auto simp: mem_sessions_def sel new_session_def session_of_def\<close>)
  then show sess: "mem_sessions ?t = (mem_sessions s)(?i \<mapsto> new_session now)" ..
  have "?i \<notin> dom (mem_sessions s)" using mem by (auto simp: dom_mem_sessions)
  then have cnt: "active ?t = active_count (mem_abs ?t)"
    using mem_invD(2) [OF inv] finite_mem_sessions [OF h] by (simp add: sel sess active_count_def)
  have seq: "seq_ok (seqs ?t) (holes ?t) (nextSeq ?t)"
    using seq_ok_pop [of "e_seq (heap s a)"] mem_invD(3) [OF inv]
    unfolding seqs_def sel(4,6,7) old q by simp
  have "b \<in> set rest \<longleftrightarrow> b \<in> set (queue s) \<and> b \<noteq> a" for b using a by (auto simp: q)
  then have "b \<in> set (queue ?t) \<longleftrightarrow>
      entries ?t (e_id (heap ?t b)) = Some b \<and> e_status (heap ?t b) = StatusQueued" for b
    using heap_inv_queue_iff [OF h, of b] by (cases "b = a") (simp_all add: sel)
  moreover have "b < fresh ?t \<and> e_id (heap ?t b) = j \<and>
      (e_status (heap ?t b) = StatusQueued \<or> e_status (heap ?t b) = StatusActive)"
    if "entries ?t j = Some b" for j b
    using that heap_inv_entry [OF h, of j b] by (cases "b = a") (simp_all add: sel)
  ultimately have "heap_inv ?t"
    using heap_invD(1,2) [OF h] by (intro heap_invI) (simp_all add: sel q)
  with cnt seq show "mem_inv ?t" by (simp add: mem_inv_def)
qed

section \<open>The single-ticket operations\<close>

text \<open>
  The snapshot of a known ticket never panics, and its position, computed from sequence
  numbers and holes, is the ticket's place in the line.
\<close>

lemma snapshotLocked_refines:
  assumes inv: "mem_inv s" and a: "entries s i = Some a"
  shows "snapshotLocked s a = Ok (room_snapshot (mem_abs s) i)"
proof (cases "e_status (heap s a) = StatusQueued")
  case True
  note h = mem_invD(1) [OF inv]
  have "a \<in> set (queue s)" using heap_invD(8) [OF h a True] .
  then obtain k where k: "k < length (queue s)" "queue s ! k = a" by (auto simp: in_set_conv_nth)
  then obtain f q where q: "queue s = f # q" by (cases "queue s") auto
  have "hd (seqs s) = e_seq (heap s f)" by (simp add: seqs_def q)
  moreover have "seqs s ! k = e_seq (heap s a)" "k < length (seqs s)" using k by (auto simp: seqs_def)
  ultimately have "seq_position s (heap s f) (heap s a) = int k + 1"
    by (intro seq_position_index [OF mem_invD(3) [OF inv]]) simp_all
  moreover have "position (waiting (mem_abs s)) i = k + 1"
    using k mem_abs_room_inv [OF inv] heap_invD(4) [OF h a]
    by (intro position_nth) (auto simp: room_inv_def)
  moreover have "room_status (mem_abs s) i = StatusQueued"
    using a True queued_mem_abs [OF h] by (simp add: room_status_def is_active_mem_abs)
  ultimately show ?thesis
    using True q mem_invD(2) [OF inv]
    by (simp add: snapshotLocked_def room_snapshot_def Let_def)
next
  case False
  then have act: "e_status (heap s a) = StatusActive"
    using heap_inv_entry [OF mem_invD(1) [OF inv] a] by blast
  then have "room_status (mem_abs s) i = StatusActive"
    using a by (simp add: room_status_def is_active_mem_abs)
  then show ?thesis
    using act mem_invD(2) [OF inv] by (simp add: snapshotLocked_def room_snapshot_def)
qed

lemma room_snapshot_cong:
  assumes "ids (waiting r') = ids (waiting r)" "dom (sessions r') = dom (sessions r)"
  shows "room_snapshot r' i = room_snapshot r i"
proof -
  have pos: "position (waiting q) i = length (takeWhile (\<lambda>j. j \<noteq> i) (ids (waiting q))) + 1" for q
    by (simp add: position_def ids_def takeWhile_map comp_def)
  have len: "length (waiting q) = length (ids (waiting q))" for q by (simp add: ids_def)
  have act: "is_active q i \<longleftrightarrow> i \<in> dom (sessions q)" for q by (auto simp: is_active_def)
  show ?thesis
    unfolding room_snapshot_def room_status_def queued_def active_count_def act pos len assms ..
qed

lemma TryAdmit_refines:
  assumes inv: "mem_inv s"
  shows "mem_inv (snd (TryAdmit i cap now s))"
    and "fst (TryAdmit i cap now s) = Ok (fst (room_TryAdmit i cap now (mem_abs s)))"
    and "mem_abs (snd (TryAdmit i cap now s)) = snd (room_TryAdmit i cap now (mem_abs s))"
proof -
  note h = mem_invD(1) [OF inv] and act = mem_invD(2) [OF inv]
  show "mem_inv (snd (TryAdmit i cap now s))"
    and "fst (TryAdmit i cap now s) = Ok (fst (room_TryAdmit i cap now (mem_abs s)))"
    and "mem_abs (snd (TryAdmit i cap now s)) = snd (room_TryAdmit i cap now (mem_abs s))"
  proof (atomize (full), cases "is_active (mem_abs s) i")
    case True
    then obtain a where a: "entries s i = Some a" "e_status (heap s a) = StatusActive"
      by (auto simp: is_active_mem_abs)
    have "\<not> queued (mem_abs s) i" using a queued_mem_abs [OF h] by auto
    then have "refresh_waiter i now (waiting (mem_abs s)) = waiting (mem_abs s)"
      by (intro refresh_waiter_absent) (simp add: queued_def)
    with True a set_lastSeen_refines [OF inv a(1), of now]
    show "mem_inv (snd (TryAdmit i cap now s)) \<and>
      fst (TryAdmit i cap now s) = Ok (fst (room_TryAdmit i cap now (mem_abs s))) \<and>
      mem_abs (snd (TryAdmit i cap now s)) = snd (room_TryAdmit i cap now (mem_abs s))"
      by (simp add: TryAdmit_def room_TryAdmit_def)
  next
    case False
    then have na: "\<not> (case entries s i of Some a \<Rightarrow> e_status (heap s a) = StatusActive | None \<Rightarrow> False)"
      by (auto simp: is_active_mem_abs split: option.splits)
    have none: "entries s i = None" if "queue s = []"
    proof (rule ccontr)
      assume "entries s i \<noteq> None"
      then obtain a where "entries s i = Some a" by blast
      with na heap_invD(5,8) [OF h] that show False by fastforce
    qed
    show "mem_inv (snd (TryAdmit i cap now s)) \<and>
      fst (TryAdmit i cap now s) = Ok (fst (room_TryAdmit i cap now (mem_abs s))) \<and>
      mem_abs (snd (TryAdmit i cap now s)) = snd (room_TryAdmit i cap now (mem_abs s))"
    proof (cases "active s < cap \<and> queue s = []")
      case True
      then have "TryAdmit i cap now s = (Ok True, admit_fresh i now s)"
        using na none by (simp add: TryAdmit_def admit_fresh_def alloc_def Let_def)
      with True False act admit_fresh_refines [OF inv none, of now] show ?thesis
        by (simp add: room_TryAdmit_def)
    next
      case no: False
      then have "TryAdmit i cap now s = (Ok False, s)" using na by (auto simp: TryAdmit_def)
      with no False act inv show ?thesis by (auto simp: room_TryAdmit_def)
    qed
  qed
qed

lemma Lookup_refines:
  assumes inv: "mem_inv s"
  shows "mem_inv (snd (Lookup i now s)) \<and>
    fst (Lookup i now s) = Ok (fst (room_Lookup i now (mem_abs s))) \<and>
    mem_abs (snd (Lookup i now s)) = snd (room_Lookup i now (mem_abs s))"
proof (cases "entries s i")
  case None
  note h = mem_invD(1) [OF inv]
  have "\<not> queued (mem_abs s) i" "\<not> is_active (mem_abs s) i"
    using None queued_mem_abs [OF h] by (auto simp: is_active_mem_abs)
  then have "refresh_waiter i now (waiting (mem_abs s)) = waiting (mem_abs s)"
    "refresh_session i now (mem_sessions s) = mem_sessions s"
    "room_status (mem_abs s) i = StatusUnknown"
    by (simp_all add: refresh_waiter_absent refresh_session_absent queued_def is_active_def
        room_status_def)
  with None inv mem_invD(2) [OF inv] show ?thesis
    by (simp add: Lookup_def room_Lookup_def room_snapshot_def)
next
  case (Some a)
  note R = set_lastSeen_refines [OF inv Some, of now]
  have "entries (set_lastSeen a now s) i = Some a" using Some by (simp add: mem_prims)
  then have "snapshotLocked (set_lastSeen a now s) a =
      Ok (room_snapshot (mem_abs (set_lastSeen a now s)) i)"
    by (rule snapshotLocked_refines [OF R(1)])
  also have "room_snapshot (mem_abs (set_lastSeen a now s)) i = room_snapshot (mem_abs s) i"
    by (rule room_snapshot_cong) (simp_all add: R(2))
  finally show ?thesis using Some R by (simp add: Lookup_def room_Lookup_def Let_def)
qed

lemma Touch_refines:
  assumes inv: "mem_inv s"
  shows "mem_inv (snd (Touch i now s)) \<and>
    fst (Touch i now s) = Ok (fst (room_Touch i now (mem_abs s))) \<and>
    mem_abs (snd (Touch i now s)) = snd (room_Touch i now (mem_abs s))"
proof (cases "is_active (mem_abs s) i")
  case True
  then obtain a where a: "entries s i = Some a" "e_status (heap s a) = StatusActive"
    by (auto simp: is_active_mem_abs)
  have "\<not> queued (mem_abs s) i" using a queued_mem_abs [OF mem_invD(1) [OF inv]] by auto
  then have "refresh_waiter i now (waiting (mem_abs s)) = waiting (mem_abs s)"
    by (intro refresh_waiter_absent) (simp add: queued_def)
  with True a set_lastSeen_refines [OF inv a(1), of now] show ?thesis
    by (simp add: Touch_def room_Touch_def)
next
  case False
  then have "Touch i now s = (Ok False, s)"
    by (auto simp: is_active_mem_abs Touch_def split: option.splits)
  with False inv show ?thesis
    by (simp add: room_Touch_def is_active_def refresh_session_absent)
qed

lemma Enqueue_refines:
  assumes inv: "mem_inv s" and room: "mem_headroom s"
  shows "mem_inv (snd (Enqueue i now s)) \<and>
    fst (Enqueue i now s) = Ok (fst (room_Enqueue memory_clocking i now (mem_abs s))) \<and>
    mem_abs (snd (Enqueue i now s)) = snd (room_Enqueue memory_clocking i now (mem_abs s))"
proof (cases "entries s i")
  case None
  note h = mem_invD(1) [OF inv]
  let ?t = "enqueue_fresh i now s"
  note R = enqueue_fresh_refines [OF inv None room, of now]
  have "Enqueue i now s = (snapshotLocked ?t (fresh s), ?t)"
    using None by (simp add: Enqueue_def enqueue_fresh_def mem_prims Let_def zero_entry_def)
  moreover have "entries ?t i = Some (fresh s)" by (simp add: enqueue_fresh_def)
  then have "snapshotLocked ?t (fresh s) = Ok (room_snapshot (mem_abs ?t) i)"
    by (rule snapshotLocked_refines [OF R(1)])
  moreover have "\<not> queued (mem_abs s) i" "\<not> is_active (mem_abs s) i"
    using None queued_mem_abs [OF h] by (auto simp: is_active_mem_abs)
  ultimately show ?thesis using R by (simp add: room_Enqueue_def Let_def)
next
  case (Some a)
  note h = mem_invD(1) [OF inv] and R = set_lastSeen_refines [OF inv Some, of now]
  let ?t = "set_lastSeen a now s"
  have "Enqueue i now s = (snapshotLocked ?t a, ?t)" using Some by (simp add: Enqueue_def Let_def)
  moreover have "entries ?t i = Some a" using Some by (simp add: mem_prims)
  then have "snapshotLocked ?t a = Ok (room_snapshot (mem_abs ?t) i)"
    by (rule snapshotLocked_refines [OF R(1)])
  moreover have "mem_abs ?t = snd (room_Enqueue memory_clocking i now (mem_abs s))"
  proof (cases "is_active (mem_abs s) i")
    case True
    then have "\<not> queued (mem_abs s) i" using queued_mem_abs [OF h] Some by (auto simp: is_active_mem_abs)
    with True R(2) show ?thesis
      by (simp add: room_Enqueue_def refresh_waiter_absent queued_def Let_def)
  next
    case False
    then have "queued (mem_abs s) i"
      using heap_inv_entry [OF h Some] Some by (auto simp: queued_mem_abs [OF h] is_active_mem_abs)
    with False R(2) show ?thesis
      by (simp add: room_Enqueue_def refresh_session_absent is_active_def Let_def)
  qed
  ultimately show ?thesis using R(1) by (simp add: room_Enqueue_def Let_def)
qed

section \<open>Reconcile\<close>

definition visited_expired ::
  "dur \<Rightarrow> time \<Rightarrow> string list \<Rightarrow> (string \<rightharpoonup> session) \<Rightarrow> (string \<rightharpoonup> session)" where
  "visited_expired ttl now is ss =
     (\<lambda>j. if j \<in> set is then room_expire memory_clocking ttl now ss j else ss j)"

lemma visited_expired_Nil [simp]: "visited_expired ttl now [] ss = ss"
  by (simp add: visited_expired_def)

lemma visited_expired_gone:
  assumes "ss i = Some v" "time_sub now (s_seen v) > ttl"
  shows "visited_expired ttl now is (ss(i := None)) = visited_expired ttl now (i # is) ss"
  using assms by (auto simp: visited_expired_def room_expire_def fun_eq_iff)

lemma visited_expired_kept:
  assumes "\<And>v. ss i = Some v \<Longrightarrow> \<not> time_sub now (s_seen v) > ttl"
  shows "visited_expired ttl now is ss = visited_expired ttl now (i # is) ss"
  using assms by (auto simp: visited_expired_def room_expire_def fun_eq_iff split: option.split)

lemma expireActives_refines:
  assumes "mem_inv s" and "expireActives ttl now is (s, res) = (s', res')"
  shows "mem_inv s' \<and> heap s' = heap s \<and> queue s' = queue s \<and>
    mem_sessions s' = visited_expired ttl now is (mem_sessions s) \<and>
    override (mem_abs s') = override (mem_abs s) \<and> nextSeq s' = nextSeq s \<and>
    rr_Expired res' + active s' = rr_Expired res + active s \<and>
    rr_Promoted res' = rr_Promoted res \<and> rr_Evicted res' = rr_Evicted res \<and>
    rr_WaitedSecs res' = rr_WaitedSecs res"
  using assms
proof (induction "is" arbitrary: s res)
  case Nil
  then show ?case by simp
next
  case (Cons i "is")
  show ?case
  proof (cases "\<exists>a. entries s i = Some a \<and> e_status (heap s a) = StatusActive \<and>
                   time_sub now (e_lastSeen (heap s a)) > ttl")
    case True
    then obtain a where a: "entries s i = Some a" "e_status (heap s a) = StatusActive"
      "time_sub now (e_lastSeen (heap s a)) > ttl" by blast
    define t where "t = s\<lparr>avgSession := ema_step (avgSession s) (session_duration (heap s a)),
        entries := (entries s)(i := None), active := active s - 1\<rparr>"
    have run: "expireActives ttl now is (t, res\<lparr>rr_Expired := rr_Expired res + 1\<rparr>) = (s', res')"
      using Cons.prems(2) a by (simp add: t_def Let_def)
    note D = drop_active_refines [OF Cons.prems(1) a(1,2),
        of "ema_step (avgSession s) (session_duration (heap s a))", folded t_def]
    have "mem_sessions t = (mem_sessions s)(i := None)"
      using arg_cong [OF D(2), of sessions] by simp
    moreover have "mem_sessions s i = Some (session_of (heap s a))" using a by (simp add: mem_sessions_def)
    ultimately have "visited_expired ttl now is (mem_sessions t) =
        visited_expired ttl now (i # is) (mem_sessions s)"
      using visited_expired_gone [of "mem_sessions s" i] a(3) by simp
    moreover have "heap t = heap s" "queue t = queue s" "nextSeq t = nextSeq s"
      "active t = active s - 1" "override (mem_abs t) = override (mem_abs s)"
      by (simp_all add: t_def)
    ultimately show ?thesis using Cons.IH [OF D(1) run] by simp
  next
    case False
    then have run: "expireActives ttl now is (s, res) = (s', res')"
      using Cons.prems(2) by (auto simp: Let_def split: option.splits if_splits)
    have "visited_expired ttl now is (mem_sessions s) = visited_expired ttl now (i # is) (mem_sessions s)"
      using False
      by (intro visited_expired_kept) (auto simp: mem_sessions_def split: option.splits if_splits)
    with Cons.IH [OF Cons.prems(1) run] show ?thesis by simp
  qed
qed

definition visited_evicted :: "dur \<Rightarrow> time \<Rightarrow> string set \<Rightarrow> waiter list \<Rightarrow> waiter list" where
  "visited_evicted ttl now is ws =
     filter (\<lambda>w. \<not> (w_id w \<in> is \<and> time_sub now (w_seen w) > ttl)) ws"

lemma evictGhosts_refines:
  assumes "mem_inv s" "distinct as" "set as \<subseteq> set (queue s)"
    and "evictGhosts ttl now as (s, res) = (s', res')"
  shows "mem_inv s' \<and> heap s' = heap s \<and> mem_sessions s' = mem_sessions s \<and>
    waiting (mem_abs s') =
      visited_evicted ttl now ((\<lambda>a. e_id (heap s a)) ` set as) (waiting (mem_abs s)) \<and>
    override (mem_abs s') = override (mem_abs s) \<and> nextSeq s' = nextSeq s \<and>
    active s' = active s \<and> avgSession s' = avgSession s \<and>
    rr_Evicted res' + int (length (queue s')) = rr_Evicted res + int (length (queue s)) \<and>
    rr_Promoted res' = rr_Promoted res \<and> rr_Expired res' = rr_Expired res \<and>
    rr_WaitedSecs res' = rr_WaitedSecs res"
  using assms
proof (induction as arbitrary: s res)
  case Nil
  then show ?case by (simp add: visited_evicted_def)
next
  case (Cons a as)
  note h = mem_invD(1) [OF Cons.prems(1)]
  have a: "a \<in> set (queue s)" using Cons.prems(3) by simp
  let ?I = "(\<lambda>b. e_id (heap s b)) ` set as"
  have own: "w_seen w = e_lastSeen (heap s a)"
    if "w \<in> set (waiting (mem_abs s))" "w_id w = e_id (heap s a)" for w
    using that by (auto dest: queue_ids_inj [OF h _ a])
  show ?case
  proof (cases "time_sub now (e_lastSeen (heap s a)) > ttl")
    case True
    note D = drop_queued_refines [OF Cons.prems(1) a]
    have run: "evictGhosts ttl now as (drop_queued a s, res\<lparr>rr_Evicted := rr_Evicted res + 1\<rparr>) = (s', res')"
      using Cons.prems(4) True by (simp add: drop_queued_def Let_def)
    have sub: "set as \<subseteq> set (queue (drop_queued a s))"
      using Cons.prems(2,3) heap_invD(2) [OF h] by (auto simp: D(5))
    have "visited_evicted ttl now ?I (waiting (mem_abs (drop_queued a s))) =
        visited_evicted ttl now (insert (e_id (heap s a)) ?I) (waiting (mem_abs s))"
      unfolding D(2) visited_evicted_def filter_filter
      by (rule filter_cong [OF refl]) (metis True own insert_iff)
    moreover obtain m where "length (queue s) = Suc m" using a by (cases "queue s") auto
    then have "int (length (queue (drop_queued a s))) = int (length (queue s)) - 1"
      using a by (simp add: D(5) length_remove1)
    ultimately show ?thesis
      using Cons.IH [OF D(1) _ sub run] Cons.prems(2) D(3,4,6-9)
      by (simp del: mem_abs_sel(1))
  next
    case False
    have run: "evictGhosts ttl now as (s, res) = (s', res')"
      using Cons.prems(4) False by (simp add: Let_def)
    have "visited_evicted ttl now ?I (waiting (mem_abs s)) =
        visited_evicted ttl now (insert (e_id (heap s a)) ?I) (waiting (mem_abs s))"
      unfolding visited_evicted_def by (rule filter_cong [OF refl]) (metis False own insert_iff)
    with Cons.IH [OF Cons.prems(1) _ _ run] Cons.prems(2,3) show ?thesis
      by (simp del: mem_abs_sel(1))
  qed
qed

lemma promoteHeads_refines:
  assumes "mem_inv s" and "promoteHeads cap now (s, res) = (s', res')"
    and "k = min (nat (cap - active s)) (length (queue s))"
  shows "mem_inv s' \<and>
    waiting (mem_abs s') = drop k (waiting (mem_abs s)) \<and>
    mem_sessions s' = room_admit now (take k (waiting (mem_abs s))) (mem_sessions s) \<and>
    override (mem_abs s') = override (mem_abs s) \<and> nextSeq s' = nextSeq s \<and>
    avgSession s' = avgSession s \<and>
    rr_Promoted res' = rr_Promoted res + int k \<and> rr_Evicted res' = rr_Evicted res \<and>
    rr_Expired res' = rr_Expired res \<and>
    rr_WaitedSecs res' = rr_WaitedSecs res @
      map (\<lambda>w. seconds (time_sub now (w_enqueued w))) (take k (waiting (mem_abs s)))"
  using assms
proof (induction "length (queue s)" arbitrary: s res k)
  case 0
  then have "queue s = []" by simp
  with 0 have "(s', res') = (s, res)" by (subst (asm) promoteHeads.simps) (simp split: if_splits)
  with 0 show ?case by simp
next
  case (Suc n)
  then obtain a rest where q: "queue s = a # rest" by (cases "queue s") auto
  show ?case
  proof (cases "active s < cap")
    case False
    with Suc.prems(2) have "(s', res') = (s, res)" by (simp add: promoteHeads.simps [of cap now s])
    with False Suc.prems(1,3) show ?thesis by simp
  next
    case True
    let ?t = "pop_admit a rest now s"
    let ?r = "res\<lparr>rr_WaitedSecs := rr_WaitedSecs res @ [seconds (time_sub now (e_enqueuedAt (heap s a)))],
                  rr_Promoted := rr_Promoted res + 1\<rparr>"
    note D = pop_admit_refines [OF Suc.prems(1) q, of now]
    have run: "promoteHeads cap now (?t, ?r) = (s', res')"
      using Suc.prems(2) True
      by (simp add: promoteHeads.simps [of cap now s] q pop_admit_def update_entry_def Let_def)
    have n: "n = length (queue ?t)" using Suc.hyps(2) by (simp add: D(5) q)
    define m where "m = min (nat (cap - active ?t)) (length (queue ?t))"
    have k: "k = Suc m"
      using True Suc.prems(3) by (simp add: m_def D(4,5) q)
    have wt: "waiting (mem_abs s) = waiter_of (heap s a) # waiting (mem_abs ?t)"
      using D(2) q by simp
    show ?thesis
      using Suc.hyps(1) [OF n D(1) run m_def] D(3,6-8) unfolding k wt by simp
  qed
qed

text \<open>What Go promises of \<open>range\<close> over a map: every key once, in some order.\<close>

definition range_ok :: "range_order \<Rightarrow> bool" where
  "range_ok ord \<longleftrightarrow> (\<forall>m. finite (dom m) \<longrightarrow> distinct (ord m) \<and> set (ord m) = dom m)"

lemma visited_expired_all:
  "dom ss \<subseteq> set is \<Longrightarrow> visited_expired ttl now is ss = room_expire memory_clocking ttl now ss"
  by (auto simp: visited_expired_def room_expire_def fun_eq_iff split: option.split)

lemma visited_evicted_all:
  "w_id ` set ws \<subseteq> is \<Longrightarrow> visited_evicted ttl now is ws = room_evict memory_clocking ttl now ws"
  unfolding visited_evicted_def room_evict_def by (intro filter_cong refl) auto

lemma pruneHolesLocked_refines:
  assumes inv: "mem_inv s"
  shows "mem_inv (pruneHolesLocked s)" and "mem_abs (pruneHolesLocked s) = mem_abs s"
proof -
  let ?t = "pruneHolesLocked s"
  note D = seq_okD [OF mem_invD(3) [OF inv]]
  have t: "?t = s\<lparr>holes := (case queue s of [] \<Rightarrow> []
           | f # _ \<Rightarrow> filter (\<lambda>h. e_seq (heap s f) < h) (holes s))\<rparr>"
    by (rule pruneHolesLocked_holes [OF D(2)])
  have sel: "heap ?t = heap s" "queue ?t = queue s" "entries ?t = entries s" "active ?t = active s"
    "nextSeq ?t = nextSeq s" "fresh ?t = fresh s" "capacity ?t = capacity s"
    "capacitySet ?t = capacitySet s"
    by (subst t, simp)+
  show abs: "mem_abs ?t = mem_abs s" by (simp add: mem_abs_def mem_sessions_def sel fun_eq_iff split: option.split)
  have "seq_ok (seqs ?t) (holes ?t) (nextSeq ?t)"
  proof (cases "queue s")
    case Nil
    then show ?thesis
      using mem_invD(3) [OF inv] by (simp add: seqs_def sel) (simp add: t seq_ok_def)
  next
    case (Cons f q)
    then have hs: "holes ?t = filter (\<lambda>h. e_seq (heap s f) < h) (holes s)" by (simp add: t)
    have "seqs s = e_seq (heap s f) # map (\<lambda>a. e_seq (heap s a)) q" "seqs ?t = seqs s"
      by (simp_all add: seqs_def Cons sel)
    then show ?thesis
      using seq_ok_prune [of "e_seq (heap s f)"] mem_invD(3) [OF inv] by (simp add: hs sel)
  qed
  moreover have "heap_inv ?t" using mem_invD(1) [OF inv] by (simp add: heap_inv_def sel)
  ultimately show "mem_inv ?t" using mem_invD(2) [OF inv] by (simp add: mem_inv_def sel abs)
qed

lemma Reconcile_refines:
  fixes cap :: int and aTTL qTTL :: dur and now :: time
  assumes inv: "mem_inv s" and ord: "range_ok ord"
  defines "spec \<equiv> room_Reconcile memory_clocking cap aTTL qTTL now (mem_abs s)"
  shows "mem_inv (snd (Reconcile ord cap aTTL qTTL now s)) \<and>
    fst (Reconcile ord cap aTTL qTTL now s) = Ok (fst spec) \<and>
    mem_abs (snd (Reconcile ord cap aTTL qTTL now s)) = snd spec \<and>
    nextSeq (snd (Reconcile ord cap aTTL qTTL now s)) = nextSeq s"
proof -
  note h = mem_invD(1) [OF inv]
  obtain s1 r1 where 1: "expireActives aTTL now (ord (entries s)) (s, zero_reconcile_result) = (s1, r1)"
    by fastforce
  obtain s2 r2 where 2: "evictGhosts qTTL now (queue s1) (s1, r1) = (s2, r2)" by fastforce
  obtain s3 r3 where 3: "promoteHeads cap now (s2, r2) = (s3, r3)" by fastforce
  have run: "Reconcile ord cap aTTL qTTL now s = (Ok r3, pruneHolesLocked s3)"
    by (simp add: Reconcile_def 1 2 3)
  note E = expireActives_refines [OF inv 1]
  then have inv1: "mem_inv s1" by blast
  have kept: "mem_sessions s1 = room_expire memory_clocking aTTL now (mem_sessions s)"
    using E ord heap_invD(1) [OF h]
    by (subst visited_expired_all [symmetric]) (auto simp: range_ok_def dom_mem_sessions)
  note V = evictGhosts_refines [OF inv1 heap_invD(2) [OF mem_invD(1) [OF inv1]] subset_refl 2]
  have line: "waiting (mem_abs s2) = room_evict memory_clocking qTTL now (waiting (mem_abs s))"
  proof -
    have "waiting (mem_abs s2) = visited_evicted qTTL now ((\<lambda>a. e_id (heap s1 a)) ` set (queue s1))
        (waiting (mem_abs s1))" using V by blast
    also have "waiting (mem_abs s1) = waiting (mem_abs s)" using E by simp
    also have "visited_evicted qTTL now ((\<lambda>a. e_id (heap s1 a)) ` set (queue s1)) (waiting (mem_abs s)) =
        room_evict memory_clocking qTTL now (waiting (mem_abs s))"
      using E by (intro visited_evicted_all) (simp add: image_image)
    finally show ?thesis .
  qed
  have inv2: "mem_inv s2" using V by blast
  note P = promoteHeads_refines [OF inv2 3 refl]
  have act2: "active s2 = int (card (dom (room_expire memory_clocking aTTL now (mem_sessions s))))"
    using V mem_invD(2) [OF inv1] by (simp add: active_count_def kept)
  have act: "active s = int (card (dom (mem_sessions s)))"
    using mem_invD(2) [OF inv] by (simp add: active_count_def)
  have expired: "rr_Expired r3 = int (card (dom (mem_sessions s) -
      dom (room_expire memory_clocking aTTL now (mem_sessions s))))"
  proof -
    have "rr_Expired r3 = active s - active s2"
      using P V E by (simp add: zero_reconcile_result_def)
    then show ?thesis
      unfolding card_expired [OF finite_mem_sessions [OF h]] act act2 .
  qed
  have len2: "length (queue s2) = length (room_evict memory_clocking qTTL now (waiting (mem_abs s)))"
    using arg_cong [OF line, of length] by simp
  have evicted: "rr_Evicted r3 = int (length (waiting (mem_abs s)) -
      length (room_evict memory_clocking qTTL now (waiting (mem_abs s))))"
    using P V E len2 by (simp add: room_evict_def zero_reconcile_result_def of_nat_diff)
  have "r3 = fst spec"
    using P V E act2 len2 expired evicted line
    by (intro reconcile_result.equality)
       (simp_all add: spec_def room_Reconcile_def Let_def zero_reconcile_result_def)
  moreover have "mem_abs s3 = snd spec"
    using P V E act2 len2 line kept
    by (intro room.equality) (simp_all add: spec_def room_Reconcile_def Let_def)
  moreover have "mem_inv s3" using P by blast
  moreover have "nextSeq (pruneHolesLocked s3) = nextSeq s"
    using P V E by (simp add: pruneHolesLocked_def Let_def split: list.split)
  ultimately show ?thesis by (simp add: run pruneHolesLocked_refines)
qed

section \<open>Flush and the whole-room operations\<close>

lemma fold_delete:
  "fold (\<lambda>a m. m(f a := None)) as m = (\<lambda>i. if i \<in> f ` set as then None else m i)"
  by (induction as arbitrary: m) (auto simp: fun_eq_iff)

lemma Flush_refines:
  assumes inv: "mem_inv s"
  shows "mem_inv (snd (Flush s)) \<and> fst (Flush s) = Ok (fst (room_Flush (mem_abs s))) \<and>
    mem_abs (snd (Flush s)) = snd (room_Flush (mem_abs s))"
proof -
  note h = mem_invD(1) [OF inv]
  let ?t = "snd (Flush s)" and ?I = "(\<lambda>a. e_id (heap s a)) ` set (queue s)"
  have sel: "heap ?t = heap s" "queue ?t = []" "active ?t = active s" "holes ?t = []"
    "nextSeq ?t = nextSeq s" "fresh ?t = fresh s" "capacity ?t = capacity s"
    "capacitySet ?t = capacitySet s"
    "entries ?t = (\<lambda>i. if i \<in> ?I then None else entries s i)"
    by (simp_all add: Flush_def Let_def fold_delete)
  have gone: "i \<in> ?I \<longleftrightarrow> (\<exists>a. entries s i = Some a \<and> e_status (heap s a) = StatusQueued)" for i
    using queued_mem_abs [OF h, of i] by (auto simp: queued_def ids_def)
  have "mem_sessions ?t = mem_sessions s"
    using gone by (auto simp: mem_sessions_def sel fun_eq_iff split: option.splits)
  then have abs: "mem_abs ?t = snd (room_Flush (mem_abs s))"
    by (simp add: mem_abs_def room_Flush_def sel)
  have "heap_inv ?t"
  proof (rule heap_invI)
    show "finite (dom (entries ?t))"
      by (rule finite_subset [OF _ heap_invD(1) [OF h]]) (auto simp: sel split: if_splits)
    show "b < fresh ?t \<and> e_id (heap ?t b) = j \<and>
        (e_status (heap ?t b) = StatusQueued \<or> e_status (heap ?t b) = StatusActive)"
      if "entries ?t j = Some b" for j b
      using that heap_inv_entry [OF h, of j b] by (simp add: sel split: if_splits)
    show "b \<in> set (queue ?t) \<longleftrightarrow>
        entries ?t (e_id (heap ?t b)) = Some b \<and> e_status (heap ?t b) = StatusQueued" for b
      using gone by (auto simp: sel)
  qed (simp add: sel)
  moreover have "seq_ok (seqs ?t) (holes ?t) (nextSeq ?t)"
    using seq_ok_no_queue [OF mem_invD(3) [OF inv]] by (simp add: seqs_def sel)
  moreover have "active ?t = active_count (mem_abs ?t)"
    using mem_invD(2) [OF inv] by (simp add: abs room_Flush_def sel active_count_def)
  ultimately have "mem_inv ?t" by (simp add: mem_inv_def)
  moreover have "fst (Flush s) = Ok (fst (room_Flush (mem_abs s)))"
    by (simp add: Flush_def Let_def room_Flush_def)
  ultimately show ?thesis using abs by simp
qed

lemma nextSeq_unchanged:
  "nextSeq (snd (TryAdmit i cap now s)) = nextSeq s" "nextSeq (snd (Lookup i now s)) = nextSeq s"
  "nextSeq (snd (Touch i now s)) = nextSeq s" "nextSeq (snd (Stats s)) = nextSeq s"
  "nextSeq (snd (SetCapacity n s)) = nextSeq s" "nextSeq (snd (GetCapacity s)) = nextSeq s"
  "nextSeq (snd (Flush s)) = nextSeq s"
  by (simp_all add: TryAdmit_def Lookup_def Touch_def Stats_def SetCapacity_def GetCapacity_def
      Flush_def mem_prims Let_def split: option.split)

lemma nextSeq_Enqueue:
  "nextSeq (snd (Enqueue i now s)) = (if entries s i = None then nextSeq s + 1 else nextSeq s)"
  by (simp add: Enqueue_def mem_prims Let_def split: option.split)

lemma SetCapacity_refines:
  assumes "mem_inv s"
  shows "mem_inv (snd (SetCapacity n s)) \<and> fst (SetCapacity n s) = Ok () \<and>
    mem_abs (snd (SetCapacity n s)) = (mem_abs s)\<lparr>override := Some n\<rparr>"
proof -
  let ?t = "s\<lparr>capacity := n, capacitySet := True\<rparr>"
  have "mem_sessions ?t = mem_sessions s" by (simp add: mem_sessions_def fun_eq_iff split: option.split)
  then have "mem_abs ?t = (mem_abs s)\<lparr>override := Some n\<rparr>" by (simp add: mem_abs_def)
  with assms show ?thesis
    by (simp add: SetCapacity_def mem_inv_def heap_inv_def seqs_def active_count_def)
qed

end
