(* ===== verification/StoreContract.thy ===== *)
theory StoreContract
  imports RoomProps
begin

text \<open>
  The \<open>Store\<close> interface of \<^verbatim>\<open>internal/store/store.go\<close> as a contract between a backend and its
  clients: the operations, a representation invariant, an abstraction to rooms, and for each
  operation the law its comment promises. A call either succeeds and does what the room
  operation does, or reports an error and then has either taken effect or not (a remote
  backend can lose the reply); it never panics. \<open>budget\<close> counts the tickets that can still be
  numbered; only \<open>Enqueue\<close> consumes it.
\<close>

definition meets :: "('s \<Rightarrow> room) \<Rightarrow> 's \<Rightarrow> 'a result \<times> 's \<Rightarrow> 'a \<times> room \<Rightarrow> bool" where
  "meets view s out spec \<longleftrightarrow>
     (case fst out of
        Ok v \<Rightarrow> v = fst spec \<and> view (snd out) = snd spec
      | Err _ \<Rightarrow> view (snd out) = view s \<or> view (snd out) = snd spec
      | Panic \<Rightarrow> False)"

lemma meets_step: "meets view s out spec \<Longrightarrow> view (snd out) = snd spec \<or> view (snd out) = view s"
  by (auto simp: meets_def split: result.splits)

lemma meets_ok:
  "meets view s out spec \<Longrightarrow> is_ok (fst out) \<Longrightarrow> fst out = Ok (fst spec) \<and> view (snd out) = snd spec"
  by (auto simp: meets_def is_ok_iff)

fun store_exec :: "'s store_ops \<Rightarrow> call \<Rightarrow> 's \<Rightarrow> 's" where
  "store_exec ops (CTryAdmit i cap now) s = snd (op_TryAdmit ops i cap now s)"
| "store_exec ops (CEnqueue i now) s = snd (op_Enqueue ops i now s)"
| "store_exec ops (CLookup i now) s = snd (op_Lookup ops i now s)"
| "store_exec ops (CTouch i now) s = snd (op_Touch ops i now s)"
| "store_exec ops (CReconcile cap aTTL qTTL now) s = snd (op_Reconcile ops cap aTTL qTTL now s)"
| "store_exec ops CStats s = snd (op_Stats ops s)"
| "store_exec ops (CSetCapacity n) s = snd (op_SetCapacity ops n s)"
| "store_exec ops CGetCapacity s = snd (op_GetCapacity ops s)"
| "store_exec ops CFlush s = snd (op_Flush ops s)"

text \<open>
  A run is a sequence of calls, in the order in which they take effect, whoever made them. What
  the environment decides (an iteration order, a lost reply) is an index of the operations and
  may differ from call to call.
\<close>

fun store_run :: "('e \<Rightarrow> 's store_ops) \<Rightarrow> ('e \<times> call) list \<Rightarrow> 's \<Rightarrow> 's" where
  "store_run ops [] s = s"
| "store_run ops ((e, c) # cs) s = store_run ops cs (store_exec (ops e) c s)"

section \<open>The contract\<close>

locale room_store =
  fixes ops :: "'e \<Rightarrow> 's store_ops"
    and legal :: "'e \<Rightarrow> bool"
    and inv :: "'s \<Rightarrow> bool"
    and view :: "'s \<Rightarrow> room"
    and ck :: clocking
    and budget :: "'s \<Rightarrow> nat"
  assumes abs_room: "inv s \<Longrightarrow> room_inv (view s)"
    and keeps_inv: "legal e \<Longrightarrow> inv s \<Longrightarrow> 0 < budget s \<Longrightarrow> inv (store_exec (ops e) c s)"
    and keeps_inv_free: "legal e \<Longrightarrow> inv s \<Longrightarrow> (\<And>i now. c \<noteq> CEnqueue i now) \<Longrightarrow> inv (store_exec (ops e) c s)"
    and keeps_budget: "legal e \<Longrightarrow> inv s \<Longrightarrow> (\<And>i now. c \<noteq> CEnqueue i now) \<Longrightarrow>
          budget s \<le> budget (store_exec (ops e) c s)"
    and enqueue_budget: "legal e \<Longrightarrow> inv s \<Longrightarrow> budget s \<le> budget (store_exec (ops e) (CEnqueue i now) s) + 1"
    and TryAdmit_law: "legal e \<Longrightarrow> inv s \<Longrightarrow>
          meets view s (op_TryAdmit (ops e) i cap now s) (room_TryAdmit i cap (ck_stamp ck now) (view s))"
    and Enqueue_law: "legal e \<Longrightarrow> inv s \<Longrightarrow> 0 < budget s \<Longrightarrow>
          meets view s (op_Enqueue (ops e) i now s) (room_Enqueue ck i (ck_stamp ck now) (view s))"
    and Lookup_law: "legal e \<Longrightarrow> inv s \<Longrightarrow>
          meets view s (op_Lookup (ops e) i now s) (room_Lookup i (ck_stamp ck now) (view s))"
    and Touch_law: "legal e \<Longrightarrow> inv s \<Longrightarrow>
          meets view s (op_Touch (ops e) i now s) (room_Touch i (ck_stamp ck now) (view s))"
    and Reconcile_law: "legal e \<Longrightarrow> inv s \<Longrightarrow>
          meets view s (op_Reconcile (ops e) cap aTTL qTTL now s)
            (room_Reconcile ck cap aTTL qTTL (ck_stamp ck now) (view s))"
    and Stats_law: "legal e \<Longrightarrow> inv s \<Longrightarrow> view (snd (op_Stats (ops e) s)) = view s \<and> fst (op_Stats (ops e) s) \<noteq> Panic \<and>
          (\<forall>st. fst (op_Stats (ops e) s) = Ok st \<longrightarrow>
             st_QueueLength st = int (length (waiting (view s))) \<and>
             st_ActiveCount st = active_count (view s))"
    and SetCapacity_law: "legal e \<Longrightarrow> inv s \<Longrightarrow>
          meets view s (op_SetCapacity (ops e) n s) ((), (view s)\<lparr>override := Some n\<rparr>)"
    and GetCapacity_law: "legal e \<Longrightarrow> inv s \<Longrightarrow> view (snd (op_GetCapacity (ops e) s)) = view s \<and>
          fst (op_GetCapacity (ops e) s) \<noteq> Panic \<and>
          (\<forall>n set. fst (op_GetCapacity (ops e) s) = Ok (n, set) \<longrightarrow>
             (if set then override (view s) = Some n else override (view s) = None))"
    and Flush_law: "legal e \<Longrightarrow> inv s \<Longrightarrow> meets view s (op_Flush (ops e) s) (room_Flush (view s))"
begin

text \<open>A step of the backend is a step of the room, or changes nothing in it.\<close>

lemma exec_step:
  assumes "legal e" "inv s" "0 < budget s"
  shows "view (store_exec (ops e) c s) = room_exec ck c (view s) \<or> view (store_exec (ops e) c s) = view s"
  using meets_step [OF TryAdmit_law [OF assms(1,2)]] meets_step [OF Enqueue_law [OF assms]]
    meets_step [OF Lookup_law [OF assms(1,2)]] meets_step [OF Touch_law [OF assms(1,2)]]
    meets_step [OF Reconcile_law [OF assms(1,2)]] meets_step [OF SetCapacity_law [OF assms(1,2)]]
    meets_step [OF Flush_law [OF assms(1,2)]] Stats_law [OF assms(1,2)] GetCapacity_law [OF assms(1,2)]
  by (cases c) simp_all

lemma exec_budget: "legal e \<Longrightarrow> inv s \<Longrightarrow> budget s \<le> budget (store_exec (ops e) c s) + 1"
  using keeps_budget [of e s c] enqueue_budget [of e s] by (cases c) (auto simp: le_SucI)

text \<open>So every room property that each call keeps holds after any run within the budget.\<close>

lemma run_keeps:
  assumes "inv s" "length cs \<le> budget s" "P (view s)" "\<forall>(e, c) \<in> set cs. legal e"
    and "\<And>r e c. (e, c) \<in> set cs \<Longrightarrow> room_inv r \<Longrightarrow> P r \<Longrightarrow> P (room_exec ck c r)"
  shows "inv (store_run ops cs s) \<and> P (view (store_run ops cs s))"
  using assms
proof (induction cs arbitrary: s)
  case (Cons p cs)
  obtain e c where p: "p = (e, c)" by fastforce
  let ?s = "store_exec (ops e) c s"
  have e: "legal e" and pos: "0 < budget s" using Cons.prems(2,4) by (auto simp: p)
  have "length cs \<le> budget ?s"
    using exec_budget [OF e Cons.prems(1), of c] Cons.prems(2) by simp
  moreover have "P (room_exec ck c (view s))"
    using Cons.prems(5) [of e c "view s"] Cons.prems(3) abs_room [OF Cons.prems(1)] by (simp add: p)
  then have "P (view ?s)" using exec_step [OF e Cons.prems(1) pos, of c] Cons.prems(3) by auto
  moreover have "P (room_exec ck c' r)"
    if "(e', c') \<in> set cs" "room_inv r" "P r" for r e' c'
    by (rule Cons.prems(5) [of e' c']) (use that in simp_all)
  ultimately show ?case
    using Cons.IH [of ?s] keeps_inv [OF e Cons.prems(1) pos] Cons.prems(4) by (simp add: p)
qed simp

lemma run_capacity:
  assumes "inv s" "length cs \<le> budget s" "active_count (view s) \<le> C" "\<forall>(e, c) \<in> set cs. legal e"
    and "\<And>e c cap. (e, c) \<in> set cs \<Longrightarrow> call_cap c = Some cap \<Longrightarrow> cap \<le> C"
  shows "active_count (view (store_run ops cs s)) \<le> C"
proof -
  have "active_count (room_exec ck c r) \<le> C"
    if "(e, c) \<in> set cs" "room_inv r" "active_count r \<le> C" for r e c
    using active_count_exec [OF that(2), of ck c] that assms(5) [OF that(1)]
    by (auto split: option.splits)
  then show ?thesis
    using run_keeps [of s cs "\<lambda>r. active_count r \<le> C"] assms(1-4) by blast
qed

lemma run_budget:
  assumes "inv s" "length cs \<le> budget s" "\<forall>(e, c) \<in> set cs. legal e"
  shows "inv (store_run ops cs s) \<and> budget s \<le> budget (store_run ops cs s) + length cs"
  using assms
proof (induction cs arbitrary: s)
  case (Cons p cs)
  obtain e c where p: "p = (e, c)" by fastforce
  have e: "legal e" and pos: "0 < budget s" using Cons.prems(2,3) by (auto simp: p)
  note b = exec_budget [OF e Cons.prems(1), of c]
  with Cons.IH [OF keeps_inv [OF e Cons.prems(1) pos, of c]] Cons.prems(2,3) show ?case by (simp add: p)
qed simp

text \<open>While a ticket keeps its place in the line, it stays ahead, whatever the calls report.\<close>

lemma run_outranks:
  assumes "inv s" "length cs \<le> budget s" "\<forall>(e, c) \<in> set cs. legal e" "outranks i j (view s)"
    and "\<And>k. k \<le> length cs \<Longrightarrow> queued (view (store_run ops (take k cs) s)) i"
  shows "inv (store_run ops cs s) \<and> outranks i j (view (store_run ops cs s))"
  using assms
proof (induction cs arbitrary: s)
  case (Cons p cs)
  obtain e c where p: "p = (e, c)" by fastforce
  let ?s = "store_exec (ops e) c s"
  have e: "legal e" and pos: "0 < budget s" using Cons.prems(2,3) by (auto simp: p)
  have len: "length cs \<le> budget ?s"
    using exec_budget [OF e Cons.prems(1), of c] Cons.prems(2) by simp
  have q: "queued (view (store_run ops (take k cs) ?s)) i" if "k \<le> length cs" for k
    using Cons.prems(5) [of "Suc k"] that by (simp add: p)
  have "outranks i j (view ?s)"
    using outranks_step [OF abs_room [OF Cons.prems(1)] Cons.prems(4), of ck c]
      exec_step [OF e Cons.prems(1) pos, of c] Cons.prems(4) q [of 0] by auto
  with Cons.IH [OF keeps_inv [OF e Cons.prems(1) pos] len _ _ q] Cons.prems(3) show ?case by (simp add: p)
qed simp

end

section \<open>A backend that never fails\<close>

locale reliable_store = room_store +
  assumes TryAdmit_ok: "legal e \<Longrightarrow> inv s \<Longrightarrow> is_ok (fst (op_TryAdmit (ops e) i cap now s))"
    and Enqueue_ok: "legal e \<Longrightarrow> inv s \<Longrightarrow> 0 < budget s \<Longrightarrow> is_ok (fst (op_Enqueue (ops e) i now s))"
    and Lookup_ok: "legal e \<Longrightarrow> inv s \<Longrightarrow> is_ok (fst (op_Lookup (ops e) i now s))"
    and Touch_ok: "legal e \<Longrightarrow> inv s \<Longrightarrow> is_ok (fst (op_Touch (ops e) i now s))"
    and Reconcile_ok: "legal e \<Longrightarrow> inv s \<Longrightarrow> is_ok (fst (op_Reconcile (ops e) cap aTTL qTTL now s))"
    and Stats_ok: "legal e \<Longrightarrow> inv s \<Longrightarrow> is_ok (fst (op_Stats (ops e) s))"
    and SetCapacity_ok: "legal e \<Longrightarrow> inv s \<Longrightarrow> is_ok (fst (op_SetCapacity (ops e) n s))"
    and GetCapacity_ok: "legal e \<Longrightarrow> inv s \<Longrightarrow>
          (\<And>n. override (view s) = Some n \<Longrightarrow> ck_carries ck n) \<Longrightarrow> is_ok (fst (op_GetCapacity (ops e) s))"
    and Flush_ok: "legal e \<Longrightarrow> inv s \<Longrightarrow> is_ok (fst (op_Flush (ops e) s))"
begin

lemma exec_ok:
  assumes "legal e" "inv s" "0 < budget s"
  shows "view (store_exec (ops e) c s) = room_exec ck c (view s)"
  using assms meets_ok [OF TryAdmit_law TryAdmit_ok] meets_ok [OF Enqueue_law Enqueue_ok]
    meets_ok [OF Lookup_law Lookup_ok] meets_ok [OF Touch_law Touch_ok]
    meets_ok [OF Reconcile_law Reconcile_ok] Stats_law [of e s] GetCapacity_law [of e s]
    meets_ok [OF SetCapacity_law SetCapacity_ok] meets_ok [OF Flush_law Flush_ok]
  by (cases c) simp_all

lemma run_ok:
  assumes "inv s" "length cs \<le> budget s" "\<forall>(e, c) \<in> set cs. legal e"
  shows "inv (store_run ops cs s) \<and> view (store_run ops cs s) = fold (room_exec ck) (map snd cs) (view s)"
  using assms
proof (induction cs arbitrary: s)
  case (Cons p cs)
  obtain e c where p: "p = (e, c)" by fastforce
  have e: "legal e" and pos: "0 < budget s" using Cons.prems(2,3) by (auto simp: p)
  have "length cs \<le> budget (store_exec (ops e) c s)"
    using exec_budget [OF e Cons.prems(1), of c] Cons.prems(2) by simp
  then show ?case
    using Cons.IH keeps_inv [OF e Cons.prems(1) pos] exec_ok [OF e Cons.prems(1) pos] Cons.prems(3)
    by (simp add: p)
qed simp

end

end
