(* ===== verification/MemoryContract.thy ===== *)
theory MemoryContract
  imports MemoryRefine StoreContract
begin

text \<open>
  The in-process store of \<^verbatim>\<open>memory.go\<close> fulfils the contract of the \<open>Store\<close> interface, and
  never fails; so the contract's lemmas, and through them the guarantees of the abstract room,
  hold of the code's own operations. The properties of the store are stated here.
\<close>

definition mem_budget :: "mem_store \<Rightarrow> nat" where
  "mem_budget s = 2 ^ 63 - 2 - unat (nextSeq s)"

lemma mem_headroom_budget: "mem_headroom s \<longleftrightarrow> 0 < mem_budget s"
  by (auto simp: mem_headroom_def mem_budget_def)

lemma memory_ops_sel [simp]:
  "op_TryAdmit (memory_ops ord) = TryAdmit" "op_Enqueue (memory_ops ord) = Enqueue"
  "op_Lookup (memory_ops ord) = Lookup" "op_Touch (memory_ops ord) = Touch"
  "op_Reconcile (memory_ops ord) = Reconcile ord" "op_Stats (memory_ops ord) = Stats"
  "op_SetCapacity (memory_ops ord) = SetCapacity" "op_GetCapacity (memory_ops ord) = GetCapacity"
  "op_Flush (memory_ops ord) = Flush"
  by (simp_all add: memory_ops_def)

lemma Stats_refines:
  "mem_inv s \<Longrightarrow> Stats s = (Ok \<lparr>st_QueueLength = int (length (waiting (mem_abs s))),
     st_ActiveCount = active_count (mem_abs s), st_AvgSessionSecs = avgSession s\<rparr>, s)"
  by (simp add: Stats_def mem_inv_def)

lemma mem_exec_inv:
  assumes "range_ok ord" "mem_inv s" "mem_headroom s \<or> (\<forall>i now. c \<noteq> CEnqueue i now)"
  shows "mem_inv (store_exec (memory_ops ord) c s)"
  using assms TryAdmit_refines(1) Lookup_refines Touch_refines Reconcile_refines Flush_refines
    SetCapacity_refines Enqueue_refines [of s]
  by (cases c) (auto simp: Stats_def GetCapacity_def)

lemma mem_exec_budget:
  assumes "range_ok ord" "mem_inv s"
  shows "mem_budget s \<le> mem_budget (store_exec (memory_ops ord) c s) +
    (case c of CEnqueue i now \<Rightarrow> 1 | _ \<Rightarrow> 0)"
proof (cases c)
  case (CEnqueue i now)
  have "unat (nextSeq s) < 2 ^ 63 - 1" using seq_okD(7) [OF mem_invD(3) [OF assms(2)]] .
  moreover have "unat (nextSeq s + 1) \<le> unat (nextSeq s) + 1"
    by (simp add: unat_word_ariths)
  ultimately show ?thesis by (auto simp: CEnqueue nextSeq_Enqueue mem_budget_def)
next
  case (CReconcile cap aTTL qTTL now)
  with Reconcile_refines [OF assms(2,1)] show ?thesis by (simp add: mem_budget_def)
qed (simp_all add: mem_budget_def nextSeq_unchanged)

interpretation mem: room_store memory_ops range_ok mem_inv mem_abs memory_clocking mem_budget
proof
  fix e s c
  assume e: "range_ok e" and s: "mem_inv s"
  show "0 < mem_budget s \<Longrightarrow> mem_inv (store_exec (memory_ops e) c s)"
    using mem_exec_inv [OF e s] by (simp add: mem_headroom_budget)
  show "(\<And>i now. c \<noteq> CEnqueue i now) \<Longrightarrow> mem_inv (store_exec (memory_ops e) c s)"
    using mem_exec_inv [OF e s] by simp
  show "(\<And>i now. c \<noteq> CEnqueue i now) \<Longrightarrow>
      mem_budget s \<le> mem_budget (store_exec (memory_ops e) c s)"
    using mem_exec_budget [OF e s, of c] by (cases c) auto
  fix i now
  show "mem_budget s \<le> mem_budget (store_exec (memory_ops e) (CEnqueue i now) s) + 1"
    using mem_exec_budget [OF e s, of "CEnqueue i now"] by simp
qed (simp_all add: meets_def mem_abs_room_inv TryAdmit_refines Enqueue_refines Lookup_refines
    Touch_refines Reconcile_refines Flush_refines SetCapacity_refines Stats_refines
    GetCapacity_def mem_headroom_budget)

interpretation mem: reliable_store memory_ops range_ok mem_inv mem_abs memory_clocking mem_budget
  by unfold_locales (simp_all add: TryAdmit_refines Enqueue_refines Lookup_refines
    Touch_refines Reconcile_refines Flush_refines SetCapacity_refines Stats_refines
    GetCapacity_def mem_headroom_budget)

interpretation mem_clock: lawful_clock memory_clocking
proof
  fix ttl t t' seen seen' :: int
  show "0 \<le> ttl \<Longrightarrow> \<not> ck_idle memory_clocking ttl t t" by simp
  show "ck_idle memory_clocking ttl t seen \<Longrightarrow> t \<le> t' \<Longrightarrow> seen' \<le> seen \<Longrightarrow>
      ck_idle memory_clocking ttl t' seen'"
    using sat64_mono [of "t - seen" "t' - seen'"] by (simp add: time_sub_def)
qed

end
