(* ===== verification/MemoryProps.thy ===== *)
theory MemoryProps
  imports MemoryContract "HOL-Library.List_Lexorder" "HOL-Library.Char_ord"
begin

text \<open>
  What the in-process store of \<^verbatim>\<open>memory.go\<close> guarantees, stated on its own state: the queue, the
  entries, the counters. The proofs go through the contract of \<^verbatim>\<open>store.go\<close>, interpreted in
  \<open>MemoryContract\<close>, and the guarantees of the abstract room.
\<close>

section \<open>Reading the store\<close>

definition queue_ids :: "mem_store \<Rightarrow> string list" where
  "queue_ids s = map (\<lambda>a. e_id (heap s a)) (queue s)"

definition status_of :: "mem_store \<Rightarrow> string \<Rightarrow> status" where
  "status_of s i = (case entries s i of None \<Rightarrow> StatusUnknown | Some a \<Rightarrow> e_status (heap s a))"

text \<open>A legal iteration order for the witnesses: the keys in lexicographic order.\<close>

definition sorted_range :: range_order where
  "sorted_range m = sorted_list_of_set (dom m)"

lemma range_ok_sorted_range: "range_ok sorted_range"
  by (simp add: range_ok_def sorted_range_def)

lemma ids_mem_abs: "ids (waiting (mem_abs s)) = queue_ids s"
  by (simp add: ids_def queue_ids_def comp_def)

lemma queued_mem: "queued (mem_abs s) i \<longleftrightarrow> i \<in> set (queue_ids s)"
  by (simp add: queued_def ids_mem_abs del: mem_abs_sel(1))

lemma is_active_status: "is_active (mem_abs s) i \<longleftrightarrow> status_of s i = StatusActive"
  by (auto simp: is_active_mem_abs status_of_def split: option.splits)

lemma queued_status: "mem_inv s \<Longrightarrow> i \<in> set (queue_ids s) \<longleftrightarrow> status_of s i = StatusQueued"
  using queued_mem_abs [OF mem_invD(1), of s i]
  by (auto simp: queued_mem status_of_def split: option.splits)

lemma room_status_mem: "mem_inv s \<Longrightarrow> room_status (mem_abs s) i = status_of s i"
  using queued_status [of s i] by (cases "status_of s i") (auto simp: room_status_def is_active_status queued_mem)

lemma unknown_status:
  assumes "mem_inv s"
  shows "status_of s i = StatusUnknown \<longleftrightarrow> i \<notin> set (ids (waiting (mem_abs s))) \<and> i \<notin> dom (sessions (mem_abs s))"
  using queued_status [OF assms, of i] is_active_status [of s i] unfolding ids_mem_abs
  by (cases "status_of s i") (auto simp: is_active_def)

lemma distinct_queue_ids: "mem_inv s \<Longrightarrow> distinct (queue_ids s)"
  using mem_abs_room_inv [of s] by (simp add: room_inv_def ids_mem_abs del: mem_abs_sel(1))

lemma mem_budget_New: "mem_budget New = 2 ^ 63 - 2"
  by (simp add: mem_budget_def New_def)

lemma mem_run:
  assumes "\<forall>(ord, c) \<in> set cs. range_ok ord" "length cs \<le> 2 ^ 63 - 2"
  shows "mem_inv (store_run memory_ops cs New)"
    and "mem_abs (store_run memory_ops cs New) =
           fold (room_exec memory_clocking) (map snd cs) empty_room"
  using mem.run_ok [OF mem_inv_New, of cs] assms by (auto simp: mem_budget_New mem_abs_New)

text \<open>A store with one active session and two tickets waiting, for the witnesses.\<close>

definition demo :: mem_store where
  "demo = store_run memory_ops
     [(sorted_range, CTryAdmit ''a'' 1 0), (sorted_range, CEnqueue ''b'' second),
      (sorted_range, CEnqueue ''c'' (2 * second))] New"

lemma mem_inv_demo: "mem_inv demo"
  unfolding demo_def by (rule mem_run) (simp_all add: range_ok_sorted_range)

lemma demo_state:
  "queue demo = [1, 2]" "active demo = 1" "nextSeq demo = 2" "avgSession demo = 0"
  "map (heap demo) [0, 1, 2] =
     [\<lparr>e_id = ''a'', e_status = StatusActive, e_enqueuedAt = zero_time, e_admittedAt = 0,
       e_lastSeen = 0, e_elem = False, e_seq = 0\<rparr>,
      \<lparr>e_id = ''b'', e_status = StatusQueued, e_enqueuedAt = second, e_admittedAt = zero_time,
       e_lastSeen = second, e_elem = True, e_seq = 1\<rparr>,
      \<lparr>e_id = ''c'', e_status = StatusQueued, e_enqueuedAt = 2 * second, e_admittedAt = zero_time,
       e_lastSeen = 2 * second, e_elem = True, e_seq = 2\<rparr>]"
  "entries demo = [''a'' \<mapsto> 0, ''b'' \<mapsto> 1, ''c'' \<mapsto> 2]"
  by (simp_all add: demo_def memory_ops_def New_def TryAdmit_def Enqueue_def mem_prims zero_entry_def
      Let_def eval_nat_numeral)

lemma demo_ids: "queue_ids demo = [''b'', ''c'']"
  using demo_state(1,5) by (simp add: queue_ids_def)

lemma mem_budget_demo: "mem_budget demo = 2 ^ 63 - 4"
  by (simp add: mem_budget_def demo_state)

section \<open>Refinement\<close>

text \<open>
  C1: Whatever calls the clients make, in whatever order, and however Go iterates over its maps,
  the store reached from \<open>New\<close> is well-formed (the counter of active tickets is right, the map
  and the queue agree, sequence numbers and holes tile the queue) and is the abstract waiting
  room after the same calls. The bound on the number of calls is the room of the sequence
  counter.
\<close>

theorem memory_runs_are_room_runs:
  assumes "\<forall>(ord, c) \<in> set cs. range_ok ord" and "length cs \<le> 2 ^ 63 - 2"
  shows "mem_inv (store_run memory_ops cs New) \<and>
         mem_abs (store_run memory_ops cs New) =
           fold (room_exec memory_clocking) (map snd cs) empty_room"
  using mem_run [OF assms] by blast

theorem memory_runs_are_room_runs_witness:
  "mem_abs (store_run memory_ops [(sorted_range, CTryAdmit ''a'' 1 0), (sorted_range, CEnqueue ''b'' 5),
       (sorted_range, CReconcile 2 10 20 7)] New) =
     fold (room_exec memory_clocking)
       [CTryAdmit ''a'' 1 0, CEnqueue ''b'' 5, CReconcile 2 10 20 7] empty_room"
  using memory_runs_are_room_runs [of "[(sorted_range, CTryAdmit ''a'' 1 0),
      (sorted_range, CEnqueue ''b'' 5), (sorted_range, CReconcile 2 10 20 7)]"]
  by (simp add: range_ok_sorted_range del: store_run.simps fold.simps)

text \<open>
  C20: In a well-formed store every call returns exactly what the abstract waiting room returns,
  with no error and no panic; \<open>GetCapacity\<close> returns the override and whether there is one, and after
  \<open>SetCapacity\<close> the value set.
\<close>

theorem memory_results_are_room_results:
  assumes "mem_inv s" and "range_ok ord" and "0 < mem_budget s"
  shows "fst (TryAdmit i cap now s) = Ok (fst (room_TryAdmit i cap now (mem_abs s))) \<and>
    fst (Enqueue i now s) = Ok (fst (room_Enqueue memory_clocking i now (mem_abs s))) \<and>
    fst (Lookup i now s) = Ok (fst (room_Lookup i now (mem_abs s))) \<and>
    fst (Touch i now s) = Ok (fst (room_Touch i now (mem_abs s))) \<and>
    fst (Reconcile ord cap aTTL qTTL now s) =
      Ok (fst (room_Reconcile memory_clocking cap aTTL qTTL now (mem_abs s))) \<and>
    fst (Stats s) = Ok \<lparr>st_QueueLength = int (length (waiting (mem_abs s))),
      st_ActiveCount = active_count (mem_abs s), st_AvgSessionSecs = avgSession s\<rparr> \<and>
    fst (Flush s) = Ok (fst (room_Flush (mem_abs s))) \<and>
    (\<exists>n isset. fst (GetCapacity s) = Ok (n, isset) \<and> override (mem_abs s) = (if isset then Some n else None)) \<and>
    fst (SetCapacity m s) = Ok () \<and> fst (GetCapacity (snd (SetCapacity m s))) = Ok (m, True)"
  using assms by (simp add: GetCapacity_def SetCapacity_def TryAdmit_refines Enqueue_refines Lookup_refines Touch_refines
      Reconcile_refines Stats_refines Flush_refines mem_headroom_budget)

theorem memory_results_are_room_results_witness:
  "fst (Reconcile sorted_range 2 second second (3 * second) demo) =
     Ok (fst (room_Reconcile memory_clocking 2 second second (3 * second) (mem_abs demo)))"
  using memory_results_are_room_results [OF mem_inv_demo range_ok_sorted_range]
  by (simp add: mem_budget_demo)

section \<open>Capacity\<close>

text \<open>
  The room is never over-filled: over any run in which every admitting call
  (\<open>TryAdmit\<close>, \<open>Reconcile\<close>) is given a capacity of at most \<open>C\<close>, at most \<open>C\<close> tickets are
  active at the end, and the counter \<open>active\<close> is the number of active entries.
\<close>

lemma memory_never_exceeds_capacity:
  assumes "\<forall>(ord, c) \<in> set cs. range_ok ord" and "length cs \<le> 2 ^ 63 - 2" and "0 \<le> C"
    and "\<forall>(ord, c) \<in> set cs. \<forall>cap. call_cap c = Some cap \<longrightarrow> cap \<le> C"
  shows "active (store_run memory_ops cs New) \<le> C \<and>
    active (store_run memory_ops cs New) =
      int (card {i. status_of (store_run memory_ops cs New) i = StatusActive})"
proof -
  let ?s = "store_run memory_ops cs New"
  have act: "active ?s = active_count (mem_abs ?s)"
    by (rule mem_invD(2) [OF mem_run(1) [OF assms(1,2)]])
  have "active_count (mem_abs ?s) \<le> C"
    using assms by (intro mem.run_capacity [OF mem_inv_New])
      (auto simp: mem_budget_New mem_abs_New active_count_def empty_room_def)
  moreover have "dom (sessions (mem_abs ?s)) = {i. status_of ?s i = StatusActive}"
    unfolding is_active_status [symmetric] by (auto simp: is_active_def)
  ultimately show ?thesis by (simp only: act active_count_def)
qed

section \<open>The line\<close>

lemma position_queue_ids:
  assumes "mem_inv s" "k < length (queue s)"
  shows "position (waiting (mem_abs s)) (queue_ids s ! k) = k + 1"
  using assms distinct_queue_ids [OF assms(1)]
  by (intro position_nth) (simp_all add: ids_mem_abs queue_ids_def ids_def comp_def)

lemma nth_queue_ids_status:
  assumes "mem_inv s" "k < length (queue s)"
  shows "status_of s (queue_ids s ! k) = StatusQueued"
  using assms queued_status [OF assms(1), of "queue_ids s ! k"] by (simp add: queue_ids_def)

lemma snapshot_mem:
  assumes "mem_inv s"
  shows "room_snapshot (mem_abs s) i =
    \<lparr>sn_Status = status_of s i,
     sn_Position = (if status_of s i = StatusQueued then int (position (waiting (mem_abs s)) i) else 0),
     sn_QueueLength = int (length (queue s)), sn_ActiveCount = active s\<rparr>"
  using mem_invD(2) [OF assms] by (simp add: room_snapshot_def room_status_mem [OF assms])

text \<open>
  C19: The position computed from sequence numbers and holes is exact: \<open>Lookup\<close> of the ticket at
  index \<open>k\<close> of the queue reports position \<open>k + 1\<close>, with the length of the queue and the number
  of active tickets, whatever was evicted before.
\<close>

theorem lookup_position_exact:
  assumes "mem_inv s" and "k < length (queue s)"
  shows "fst (Lookup (queue_ids s ! k) now s) =
    Ok \<lparr>sn_Status = StatusQueued, sn_Position = int k + 1,
        sn_QueueLength = int (length (queue s)), sn_ActiveCount = active s\<rparr>"
  using Lookup_refines [OF assms(1), of "queue_ids s ! k" now]
  by (simp add: room_Lookup_def snapshot_mem [OF assms(1)] nth_queue_ids_status [OF assms]
      position_queue_ids [OF assms] del: mem_abs_sel(1))

theorem lookup_position_exact_witness:
  "fst (Lookup ''c'' 7 demo) =
    Ok \<lparr>sn_Status = StatusQueued, sn_Position = 2, sn_QueueLength = 2, sn_ActiveCount = 1\<rparr>"
  using lookup_position_exact [OF mem_inv_demo, of 1 7] by (simp add: demo_ids demo_state)

text \<open>The order of the line, read off the store.\<close>

lemma outranks_mem:
  assumes "mem_inv s"
  shows "outranks i j (mem_abs s) \<longleftrightarrow>
    i \<in> set (queue_ids s) \<and> i \<noteq> j \<and> status_of s j \<noteq> StatusActive \<and> \<not> subseq [j, i] (queue_ids s)"
  using subseq_pair_total [of i "queue_ids s" j] subseq_pair_mem [of j i "queue_ids s"]
    subseq_pair_distinct(1) [OF _ distinct_queue_ids [OF assms], of i j]
  by (auto simp: outranks_def queued_mem is_active_status ahead_def ids_mem_abs simp del: mem_abs_sel(1))

text \<open>
  First come, first served. While ticket \<open>i\<close> keeps its place in the queue, no ticket \<open>j\<close> that
  was neither active nor ahead of it at the start becomes active, over any run of calls by
  anybody: \<open>j\<close> may be behind \<open>i\<close>, unknown, evicted and joining again.
\<close>

lemma first_come_first_served:
  assumes "mem_inv s" "length cs \<le> mem_budget s" "\<forall>(ord, c) \<in> set cs. range_ok ord"
    and "i \<noteq> j" "status_of s j \<noteq> StatusActive" "\<not> subseq [j, i] (queue_ids s)"
    and "\<forall>k \<le> length cs. i \<in> set (queue_ids (store_run memory_ops (take k cs) s))"
  shows "status_of (store_run memory_ops cs s) j \<noteq> StatusActive \<and>
         \<not> subseq [j, i] (queue_ids (store_run memory_ops cs s))"
proof -
  have "i \<in> set (queue_ids s)" using assms(7) [THEN spec, of 0] by simp
  then have "outranks i j (mem_abs s)" unfolding outranks_mem [OF assms(1)] using assms(4-6) by blast
  moreover have "queued (mem_abs (store_run memory_ops (take k cs) s)) i" if "k \<le> length cs" for k
    using assms(7) that queued_mem by blast
  ultimately have "mem_inv (store_run memory_ops cs s) \<and> outranks i j (mem_abs (store_run memory_ops cs s))"
    using mem.run_outranks [OF assms(1-3)] by blast
  then show ?thesis using outranks_mem by blast
qed

section \<open>Reconcile\<close>

definition last_seen :: "mem_store \<Rightarrow> string \<Rightarrow> time" where
  "last_seen s i = e_lastSeen (heap s (the (entries s i)))"

text \<open>The tickets in the queue that polled within the time-to-live, in order.\<close>

definition polling :: "mem_store \<Rightarrow> dur \<Rightarrow> time \<Rightarrow> string list" where
  "polling s ttl now = filter (\<lambda>i. \<not> time_sub now (last_seen s i) > ttl) (queue_ids s)"

text \<open>The number of sessions that are not idle, and the slots they leave free.\<close>

definition live_sessions :: "mem_store \<Rightarrow> dur \<Rightarrow> time \<Rightarrow> string set" where
  "live_sessions s ttl now =
     {i. status_of s i = StatusActive \<and> \<not> time_sub now (last_seen s i) > ttl}"

definition slots :: "mem_store \<Rightarrow> int \<Rightarrow> dur \<Rightarrow> time \<Rightarrow> nat" where
  "slots s cap ttl now = nat (cap - int (card (live_sessions s ttl now)))"

lemma dom_kept: "dom (kept memory_clocking aTTL now (mem_abs s)) = live_sessions s aTTL now"
  by (auto simp: kept_def room_expire_def mem_sessions_def live_sessions_def status_of_def
      last_seen_def split: option.splits if_splits)

lemma free_slots_mem: "free_slots memory_clocking cap aTTL now (mem_abs s) = slots s cap aTTL now"
  by (simp add: free_slots_def slots_def dom_kept)

lemma last_seen_queue: "mem_inv s \<Longrightarrow> a \<in> set (queue s) \<Longrightarrow> last_seen s (e_id (heap s a)) = e_lastSeen (heap s a)"
  using heap_inv_queue_iff [OF mem_invD(1), of s a] by (simp add: last_seen_def)

lemma ids_line: "mem_inv s \<Longrightarrow> ids (line memory_clocking qTTL now (mem_abs s)) = polling s qTTL now"
  by (simp add: ids_def line_def room_evict_def polling_def queue_ids_def filter_map comp_def
      last_seen_queue cong: filter_cong)

lemma reconcile_mem:
  assumes "mem_inv s" "range_ok ord"
  obtains res s' where "Reconcile ord cap aTTL qTTL now s = (Ok res, s')" "mem_inv s'"
    "room_Reconcile memory_clocking cap aTTL qTTL now (mem_abs s) = (res, mem_abs s')"
  using Reconcile_refines [OF assms, of cap aTTL qTTL now] by (metis prod.collapse)

text \<open>
  C14: What a pass of \<open>Reconcile\<close> does: idle sessions expire, tickets that stopped polling are
  evicted, and the first of the remaining ones are promoted, as many as there are free slots,
  in the order of the queue; the counts in the result are those numbers.
\<close>

theorem reconcile_promotes_the_head:
  fixes cap :: int and aTTL qTTL :: dur and now :: time
  assumes "mem_inv s" and "range_ok ord" and "Reconcile ord cap aTTL qTTL now s = (out, s')"
  defines "k \<equiv> min (slots s cap aTTL now) (length (polling s qTTL now))"
    and "live \<equiv> live_sessions s aTTL now"
  shows "queue_ids s' = drop k (polling s qTTL now) \<and>
    {i. status_of s' i = StatusActive} = live \<union> set (take k (polling s qTTL now)) \<and>
    active s' = int (card live) + int k \<and>
    (\<exists>res. out = Ok res \<and> rr_Promoted res = int k \<and>
       rr_Evicted res = int (length (queue s)) - int (length (polling s qTTL now)) \<and>
       rr_Expired res = active s - int (card live))"
proof -
  let ?r = "mem_abs s" and ?l = "line memory_clocking qTTL now (mem_abs s)"
  obtain res where out: "out = Ok res" and inv: "mem_inv s'"
    and R: "room_Reconcile memory_clocking cap aTTL qTTL now ?r = (res, mem_abs s')"
    using reconcile_mem [OF assms(1,2), of cap aTTL qTTL now] assms(3) by (metis Pair_inject)
  have len: "length ?l = length (polling s qTTL now)"
    using arg_cong [OF ids_line [OF assms(1), of qTTL now], of length] by simp
  have k: "min (free_slots memory_clocking cap aTTL now ?r) (length ?l) = k"
    by (simp add: k_def len free_slots_mem)
  note sel = room_Reconcile_sel [of memory_clocking cap aTTL qTTL now ?r, unfolded R fst_conv snd_conv k]
  have "queue_ids s' = drop k (polling s qTTL now)"
    unfolding ids_mem_abs [symmetric] sel(1) ids_take_drop ids_line [OF assms(1)] ..
  moreover have "{i. status_of s' i = StatusActive} = live \<union> set (take k (polling s qTTL now))"
  proof -
    have "{i. status_of s' i = StatusActive} = dom (sessions (mem_abs s'))"
      unfolding is_active_status [symmetric] by (auto simp: is_active_def)
    then show ?thesis
      unfolding sel(2) dom_room_admit dom_kept ids_take_drop ids_line [OF assms(1)] live_def .
  qed
  moreover have "active s' = int (card live) + int k"
    using mem_invD(2) [OF inv] active_count_Reconcile [OF mem_abs_room_inv [OF assms(1)],
        of memory_clocking cap aTTL qTTL now, unfolded R snd_conv k]
    by (simp add: dom_kept live_def)
  moreover have "rr_Evicted res = int (length (queue s)) - int (length (polling s qTTL now))"
    unfolding sel(6) len by (simp add: polling_def queue_ids_def of_nat_diff le_trans)
  moreover have "rr_Expired res = active s - int (card live)"
    unfolding sel(5) kept_def
    using mem_invD(2) [OF assms(1)] dom_kept [of aTTL now s]
    by (subst card_expired) (simp_all add: finite_mem_sessions [OF mem_invD(1) [OF assms(1)]]
        active_count_def kept_def live_def)
  ultimately show ?thesis using out sel(4) by simp
qed

lemma demo_live: "live_sessions demo (10 * second) (3 * second) = {''a''}"
  using demo_state(5)
  by (auto simp: live_sessions_def status_of_def last_seen_def demo_state(6) time_sub_def sat64_def
      split: if_splits)

lemma demo_polling: "polling demo (10 * second) (3 * second) = [''b'', ''c'']"
  using demo_state(5)
  by (simp add: polling_def demo_ids last_seen_def demo_state(6) time_sub_def sat64_def)

theorem reconcile_promotes_the_head_witness:
  "queue_ids (snd (Reconcile sorted_range 2 (10 * second) (10 * second) (3 * second) demo)) = [''c''] \<and>
   active (snd (Reconcile sorted_range 2 (10 * second) (10 * second) (3 * second) demo)) = 2"
  using reconcile_promotes_the_head [OF mem_inv_demo range_ok_sorted_range prod.collapse [symmetric],
      of 2 "10 * second" "10 * second" "3 * second"]
  by (simp add: demo_live [simplified] demo_polling [simplified] slots_def)

text \<open>
  C23: A pass of the in-process store leaves no free slot while somebody waits, no session that was idle for
  longer than the active window, and no ticket in the queue that was not seen within the queue window.
\<close>

theorem reconcile_fills_the_room:
  assumes "mem_inv s" and "range_ok ord" and "0 \<le> aTTL"
    and "Reconcile ord cap aTTL qTTL now s = (out, s')"
  shows "(queue s' = [] \<or> cap \<le> active s') \<and>
    (\<forall>i. status_of s' i = StatusActive \<longrightarrow> time_sub now (last_seen s' i) \<le> aTTL) \<and>
    (\<forall>i \<in> set (queue_ids s'). time_sub now (last_seen s' i) \<le> qTTL)"
proof -
  obtain res where inv: "mem_inv s'"
    and R: "room_Reconcile memory_clocking cap aTTL qTTL now (mem_abs s) = (res, mem_abs s')"
    using reconcile_mem [OF assms(1,2), of cap aTTL qTTL now] assms(4) by (metis Pair_inject)
  note idle = mem_clock.reconcile_nobody_idle(1) [OF assms(3),
      where cap = cap and qTTL = qTTL and t = now and r = "mem_abs s", unfolded R snd_conv]
    mem_clock.reconcile_nobody_idle(2) [OF assms(3),
      where cap = cap and qTTL = qTTL and t = now and r = "mem_abs s", unfolded R snd_conv]
  have "queue s' = [] \<or> cap \<le> active s'"
    using reconcile_work_conserving [OF mem_abs_room_inv [OF assms(1)],
        of memory_clocking cap aTTL qTTL now] mem_invD(2) [OF inv] by (simp add: R)
  moreover have "time_sub now (last_seen s' i) \<le> aTTL" if "status_of s' i = StatusActive" for i
    using that idle(1) [of i]
    by (auto simp: status_of_def last_seen_def mem_sessions_def split: option.splits)
  moreover have "time_sub now (last_seen s' i) \<le> qTTL" if "i \<in> set (queue_ids s')" for i
    using that idle(2) last_seen_queue [OF inv] by (fastforce simp: queue_ids_def)
  ultimately show ?thesis by blast
qed

theorem reconcile_fills_the_room_witness:
  "queue (snd (Reconcile sorted_range 9 second second (2 * second) demo)) = [] \<or>
   9 \<le> active (snd (Reconcile sorted_range 9 second second (2 * second) demo))"
  using reconcile_fills_the_room [OF mem_inv_demo range_ok_sorted_range _ prod.collapse [symmetric],
      of second 9 second "2 * second"] by simp

text \<open>
  Reconciling again at the same instant finds nothing to do: the result is zero, and the
  queue, the statuses, the heartbeats and the counters are as before, so request-triggered
  passes on several replicas do no harm.
\<close>

lemma reconcile_again_is_noop:
  assumes "mem_inv s" and "range_ok ord" and "range_ok ord'" and "0 \<le> aTTL"
    and "Reconcile ord cap aTTL qTTL now s = (out, s')"
  shows "fst (Reconcile ord' cap aTTL qTTL now s') = Ok zero_reconcile_result \<and>
    mem_abs (snd (Reconcile ord' cap aTTL qTTL now s')) = mem_abs s'"
proof -
  obtain res where inv: "mem_inv s'"
    and R: "room_Reconcile memory_clocking cap aTTL qTTL now (mem_abs s) = (res, mem_abs s')"
    using reconcile_mem [OF assms(1,2), of cap aTTL qTTL now] assms(5) by (metis Pair_inject)
  show ?thesis
    using mem_clock.reconcile_idempotent [OF mem_abs_room_inv [OF assms(1)] assms(4),
        of cap qTTL now, unfolded R snd_conv]
      Reconcile_refines [OF inv assms(3), of cap aTTL qTTL now] by simp
qed

text \<open>
  C22: A ticket that keeps polling is not lost and not starved: after a pass, the ticket at index
  \<open>k\<close> of the queue is active, or still in the queue, advanced by at least the number of free
  slots.
\<close>

theorem polling_ticket_advances:
  assumes "mem_inv s" and "range_ok ord" and "Reconcile ord cap aTTL qTTL now s = (out, s')"
    and "k < length (queue s)" and "time_sub now (last_seen s (queue_ids s ! k)) \<le> qTTL"
  shows "status_of s' (queue_ids s ! k) = StatusActive \<or>
    (\<exists>k'. k' < length (queue s') \<and> queue_ids s' ! k' = queue_ids s ! k \<and>
          k' + slots s cap aTTL now \<le> k)"
proof -
  let ?i = "queue_ids s ! k" and ?w = "waiting (mem_abs s) ! k"
  obtain res where inv: "mem_inv s'"
    and R: "room_Reconcile memory_clocking cap aTTL qTTL now (mem_abs s) = (res, mem_abs s')"
    using reconcile_mem [OF assms(1,2), of cap aTTL qTTL now] assms(3) by (metis Pair_inject)
  have w: "?w \<in> set (waiting (mem_abs s))" "w_id ?w = ?i"
    using assms(4) by (simp_all add: queue_ids_def)
  have fresh: "\<not> ck_idle memory_clocking qTTL now (w_seen ?w)"
    using assms(4,5) last_seen_queue [OF assms(1), of "queue s ! k"] by (simp add: queue_ids_def)
  have "is_active (mem_abs s') ?i \<or> queued (mem_abs s') ?i \<and>
      position (waiting (mem_abs s')) ?i + slots s cap aTTL now \<le> k + 1"
    using reconcile_progress [where cap = cap and aTTL = aTTL,
        OF mem_abs_room_inv [OF assms(1)] w(1) fresh]
    unfolding R snd_conv w(2) free_slots_mem position_queue_ids [OF assms(1,4)] .
  then show ?thesis
  proof
    assume q: "queued (mem_abs s') ?i \<and>
      position (waiting (mem_abs s')) ?i + slots s cap aTTL now \<le> k + 1"
    then obtain k' where k': "k' < length (queue s')" "queue_ids s' ! k' = ?i"
      unfolding queued_mem by (auto simp: in_set_conv_nth queue_ids_def)
    with q position_queue_ids [OF inv k'(1)] show ?thesis by auto
  qed (simp add: is_active_status)
qed

theorem polling_ticket_advances_witness:
  "status_of (snd (Reconcile sorted_range 2 second (10 * second) second demo)) ''c'' = StatusActive \<or>
   (\<exists>k'. queue_ids (snd (Reconcile sorted_range 2 second (10 * second) second demo)) ! k' = ''c'' \<and> k' \<le> 1)"
  using polling_ticket_advances [OF mem_inv_demo range_ok_sorted_range prod.collapse [symmetric],
      of 1 second "10 * second" 2 second] demo_state(5)
  by (auto simp: demo_ids demo_state(1) last_seen_def demo_state(6) time_sub_def sat64_def)

section \<open>Single-ticket operations\<close>

lemma queue_ids_room:
  assumes "mem_abs s' = r"
  shows "queue_ids s' = ids (waiting r)"
  using assms ids_mem_abs by metis

text \<open>
  \<open>Enqueue\<close> of an unknown ticket appends it and reports the tail position; of a queued one
  it reports the place the ticket already has; of an active one it reports that it is active.
  Nobody else moves.
\<close>

lemma enqueue_joins_the_tail:
  assumes "mem_inv s" and "0 < mem_budget s" and "Enqueue i now s = (out, s')"
  shows "queue_ids s' = (if status_of s i = StatusUnknown then queue_ids s @ [i] else queue_ids s) \<and>
    {j. status_of s' j = StatusActive} = {j. status_of s j = StatusActive} \<and>
    (\<exists>snap. out = Ok snap \<and>
      sn_QueueLength snap = int (length (queue s')) \<and> sn_ActiveCount snap = active s \<and>
      (if status_of s i = StatusActive then sn_Status snap = StatusActive
       else sn_Status snap = StatusQueued \<and> 1 \<le> sn_Position snap \<and>
            sn_Position snap \<le> int (length (queue s')) \<and>
            queue_ids s' ! nat (sn_Position snap - 1) = i))"
proof -
  let ?r = "mem_abs s"
  have R: "mem_inv s'" "out = Ok (fst (room_Enqueue memory_clocking i now ?r))"
    "mem_abs s' = snd (room_Enqueue memory_clocking i now ?r)"
    using Enqueue_refines [OF assms(1), of i now] assms(2,3) by (simp_all add: mem_headroom_budget)
  have st: "is_active ?r i \<longleftrightarrow> status_of s i = StatusActive" "queued ?r i \<longleftrightarrow> status_of s i = StatusQueued"
    by (simp_all add: is_active_status queued_mem queued_status [OF assms(1)])
  have q: "queue_ids s' = (if status_of s i = StatusUnknown then queue_ids s @ [i] else queue_ids s)"
    unfolding queue_ids_room [OF R(3)] room_Enqueue_def Let_def st
    by (cases "status_of s i") (simp_all add: ids_mem_abs del: mem_abs_sel(1))
  have dom: "dom (sessions (mem_abs s')) = dom (sessions ?r)"
    unfolding R(3) by (simp add: room_Enqueue_def Let_def)
  then have act: "{j. status_of s' j = StatusActive} = {j. status_of s j = StatusActive}"
    unfolding is_active_status [symmetric] is_active_def by auto
  have cnt: "active s' = active s"
    using dom mem_invD(2) [OF R(1)] mem_invD(2) [OF assms(1)] by (simp add: active_count_def)
  have snap: "fst (room_Enqueue memory_clocking i now ?r) = room_snapshot (mem_abs s') i"
    by (simp add: R(3) room_Enqueue_def Let_def)
  have known: "status_of s' i \<noteq> StatusUnknown \<and>
      (status_of s' i = StatusActive \<longleftrightarrow> status_of s i = StatusActive)"
  proof (cases "status_of s i = StatusActive")
    case False
    then have "i \<in> set (queue_ids s')"
      using queued_status [OF assms(1), of i] by (cases "status_of s i") (auto simp: q)
    then show ?thesis using queued_status [OF R(1), of i] False by simp
  next
    case True
    with act have "status_of s' i = StatusActive" by blast
    with True show ?thesis by simp
  qed
  have pos: "1 \<le> sn_Position (room_snapshot (mem_abs s') i) \<and>
      sn_Position (room_snapshot (mem_abs s') i) \<le> int (length (queue s')) \<and>
      queue_ids s' ! nat (sn_Position (room_snapshot (mem_abs s') i) - 1) = i"
    if queued: "status_of s' i = StatusQueued"
  proof -
    obtain k where k: "k < length (queue s')" "queue_ids s' ! k = i"
      using queued queued_status [OF R(1), of i] by (auto simp: in_set_conv_nth queue_ids_def)
    with position_queue_ids [OF R(1) k(1)] queued show ?thesis
      by (simp add: snapshot_mem [OF R(1)] del: mem_abs_sel(1))
  qed
  have "status_of s' i = StatusQueued" if "status_of s i \<noteq> StatusActive"
    using known that by (cases "status_of s' i") auto
  then show ?thesis
    using q act known pos by (simp add: R(2) snap) (simp add: snapshot_mem [OF R(1)] cnt)
qed

text \<open>
  \<open>TryAdmit\<close> lets a ticket in exactly when it is active already, or nobody waits and a slot
  is free; it never touches the queue and admits no other ticket.
\<close>

lemma tryadmit_decision:
  assumes "mem_inv s" and "TryAdmit i cap now s = (out, s')"
  defines "yes \<equiv> status_of s i = StatusActive \<or> active s < cap \<and> queue s = []"
  shows "out = Ok yes \<and> queue_ids s' = queue_ids s \<and>
    {j. status_of s' j = StatusActive} = {j. status_of s j = StatusActive} \<union> (if yes then {i} else {}) \<and>
    (yes \<longrightarrow> last_seen s' i = now)"
proof -
  let ?r = "mem_abs s"
  have R: "mem_inv s'" "out = Ok (fst (room_TryAdmit i cap now ?r))"
    "mem_abs s' = snd (room_TryAdmit i cap now ?r)"
    using TryAdmit_refines [OF assms(1), of i cap now] assms(2) by simp_all
  have yes: "yes \<longleftrightarrow> is_active ?r i \<or> active_count ?r < cap \<and> waiting ?r = []"
    using mem_invD(2) [OF assms(1)] by (simp add: yes_def is_active_status)
  have "out = Ok yes" by (auto simp: R(2) room_TryAdmit_def yes)
  moreover have "queue_ids s' = queue_ids s"
  proof -
    have "waiting (mem_abs s') = waiting ?r" unfolding R(3) by (simp add: room_TryAdmit_def)
    then show ?thesis by (metis ids_mem_abs)
  qed
  moreover have "{j. status_of s' j = StatusActive} =
      {j. status_of s j = StatusActive} \<union> (if yes then {i} else {})"
    unfolding is_active_status [symmetric] R(3) yes
    by (auto simp: room_TryAdmit_def is_active_def refresh_session_def split: option.splits if_splits)
  moreover have "last_seen s' i = now" if yes
  proof -
    have "\<exists>v. sessions (mem_abs s') i = Some v \<and> s_seen v = now"
      using that unfolding R(3) yes
      by (auto simp: room_TryAdmit_def is_active_def refresh_session_def new_session_def
          split: option.splits)
    then show ?thesis
      by (auto simp: mem_sessions_def last_seen_def split: option.splits if_splits)
  qed
  ultimately show ?thesis by simp
qed

text \<open>
  \<open>Flush\<close> empties the queue and reports how many tickets it removed; the sessions stay, and
  every flushed ticket is unknown afterwards, so its next request enqueues it at a fresh place.
\<close>

lemma flush_empties_the_queue:
  assumes "mem_inv s"
  shows "fst (Flush s) = Ok (int (length (queue s))) \<and> queue (snd (Flush s)) = [] \<and>
    (\<forall>i. status_of (snd (Flush s)) i =
       (if status_of s i = StatusQueued then StatusUnknown else status_of s i)) \<and>
    (\<forall>i. status_of s i = StatusActive \<longrightarrow> entries (snd (Flush s)) i = entries s i) \<and>
    heap (snd (Flush s)) = heap s \<and> active (snd (Flush s)) = active s"
proof -
  have "status_of (snd (Flush s)) i =
      (if i \<in> set (queue_ids s) then StatusUnknown else status_of s i)" for i
    by (simp add: Flush_def Let_def fold_delete status_of_def queue_ids_def split: option.split)
  moreover have "entries (snd (Flush s)) i = entries s i" if "status_of s i = StatusActive" for i
    using that queued_status [OF assms, of i]
    by (auto simp: Flush_def Let_def fold_delete queue_ids_def)
  ultimately show ?thesis
    using queued_status [OF assms] by (simp add: Flush_def Let_def)
qed

end
