(* ===== verification/MemoryAverage.thy ===== *)
theory MemoryAverage
  imports MemoryProps
begin

text \<open>
  The moving average of session durations (\<open>avgSession\<close> of \<^verbatim>\<open>memory.go\<close>): what a pass of
  \<open>Reconcile\<close> adds to it, and that it stays within \<open>2 ^ -48\<close> of the exponential average in exact
  arithmetic and of the range of the sessions, since a step keeps only four fifths of the old error.
\<close>

section \<open>One step of the average\<close>

lemma ilog2_eqI:
  assumes "2 powi k \<le> x" "x < 2 powi (k + 1)"
  shows "ilog2 x = k"
proof -
  have "0 < x" using assms(1) zero_less_power_int [of "2::rat" k] by linarith
  note b = ilog2_bounds [OF this]
  have "(2::rat) powi k < 2 powi (ilog2 x + 1)" "(2::rat) powi ilog2 x < 2 powi (k + 1)"
    using b assms by linarith+
  then show ?thesis by (simp add: powi2_less_iff)
qed

text \<open>The two constants of the average, as the doubles nearest to them.\<close>

lemma f64_fifth: "f64 (1 / 5) = 7205759403792794 * 2 powi (- 55)"
  by code_simp

lemma f64_four_fifths: "f64 (4 / 5) = 7205759403792794 * 2 powi (- 53)"
  by code_simp

text \<open>They add up to a little more than one, too little to matter after rounding.\<close>

lemma f64_just_above:
  assumes "- 1000 \<le> k"
  shows "f64 ((1 + 2 powi (- 54)) * 2 powi k) = 2 powi k"
proof -
  let ?x = "(1 + 2 powi (- 54)) * 2 powi k :: rat"
  have pos: "(0::rat) < 2 powi k" by simp
  have one: "(1::rat) \<le> 1 + 2 powi (- 54)" "(1::rat) + 2 powi (- 54) < 2"
    by (simp_all add: power_int_def power_one_over)
  have "2 powi k \<le> ?x" using one(1) mult_right_mono [OF one(1), of "2 powi k"] pos by simp
  moreover have "?x < 2 powi (k + 1)"
    using mult_strict_right_mono [OF one(2) pos] by (simp add: power_int_add)
  ultimately have "ilog2 ?x = k" by (rule ilog2_eqI)
  moreover have x0: "0 < ?x" using pos one(1) by (intro mult_pos_pos) linarith+
  ultimately have lp: "last_place ?x = k - 52" using assms by (simp add: last_place_def)
  have "(2::rat) powi k = 2 powi (k - 52) * 2 ^ 52" using powi2_52 [of "k - 52"] by simp
  then have "?x / 2 powi (k - 52) = (1 + 2 powi (- 54)) * 2 ^ 52" by simp
  also have "\<dots> = of_int (2 ^ 52) + 1 / 4" by (simp add: power_int_minus)
  finally have q: "?x / 2 powi (k - 52) = of_int (2 ^ 52) + 1 / 4" .
  have "floor ((of_int (2 ^ 52) :: rat) + 1 / 4) = 2 ^ 52" by (simp add: floor_eq_iff)
  then have "round_even ((of_int (2 ^ 52) :: rat) + 1 / 4) = 2 ^ 52"
    unfolding round_even_def Let_def by simp
  then have "f64 ?x = of_int (2 ^ 52) * 2 powi (k - 52)"
    unfolding f64_def lp q using x0 by simp
  then show ?thesis using powi2_52 [of "k - 52"] by simp
qed

lemma f64_scaled:
  assumes "n < 2 ^ 53" "0 \<le> n" "- 1000 \<le> k"
  shows "f64 (of_int n * 2 powi k) = of_int n * 2 powi k"
proof (rule f64_multiple [OF refl])
  have "(of_int n :: rat) < of_int (2 ^ 53)" using assms(1) by (simp only: of_int_less_iff)
  then show "\<bar>of_int n * 2 powi k :: rat\<bar> < 2 powi (k + 53)"
    using assms(2) by (simp add: powi2_53 abs_mult)
qed (use assms(3) in simp)

lemma ema_step_bounds:
  assumes "0 \<le> avg" "0 \<le> d" "avg \<le> 2 powi k" "d \<le> 2 powi k" "- 900 \<le> k"
  shows "0 \<le> ema_step avg d \<and> ema_step avg d \<le> 2 powi k"
proof (cases "avg = 0")
  case False
  let ?n = "7205759403792794 :: int"
  have c: "f64 (1 / 5) = of_int ?n * 2 powi (- 55)" "f64 (4 / 5) = of_int ?n * 2 powi (- 53)"
    by (simp_all add: f64_fifth f64_four_fifths)
  have c0: "0 \<le> f64 (1 / 5)" "0 \<le> f64 (4 / 5)" by (simp_all add: f64_nonneg)
  have e: "f64 (1 / 5) * 2 powi k = of_int ?n * 2 powi (k - 55)"
    "f64 (4 / 5) * 2 powi k = of_int ?n * 2 powi (k - 53)"
    unfolding c by (simp_all add: power_int_diff power_int_minus field_simps)
  have "f_mul (f64 (1 / 5)) d \<le> f64 (f64 (1 / 5) * 2 powi k)"
    unfolding f_mul_def using assms(2,4) c0 by (intro f64_mono_nonneg mult_left_mono) simp_all
  also have "\<dots> = of_int ?n * 2 powi (k - 55)" unfolding e using assms(5) by (intro f64_scaled) simp_all
  finally have a: "f_mul (f64 (1 / 5)) d \<le> of_int ?n * 2 powi (k - 55)" .
  have "f_mul (f64 (4 / 5)) avg \<le> f64 (f64 (4 / 5) * 2 powi k)"
    unfolding f_mul_def using assms(1,3) c0 by (intro f64_mono_nonneg mult_left_mono) simp_all
  also have "\<dots> = of_int ?n * 2 powi (k - 53)" unfolding e using assms(5) by (intro f64_scaled) simp_all
  finally have b: "f_mul (f64 (4 / 5)) avg \<le> of_int ?n * 2 powi (k - 53)" .
  have nonneg: "0 \<le> f_mul (f64 (1 / 5)) d" "0 \<le> f_mul (f64 (4 / 5)) avg"
    using assms(1,2) c0 by (simp_all add: f_mul_nonneg)
  have sum: "of_int ?n * 2 powi (k - 55) + of_int ?n * 2 powi (k - 53) = (1 + 2 powi (- 54)) * (2::rat) powi k"
    by (simp add: power_int_diff power_int_minus field_simps)
  have "ema_step avg d \<le> f64 ((1 + 2 powi (- 54)) * 2 powi k)"
    unfolding ema_step_def f_add_def using False a b nonneg sum
    by (simp only: if_False) (intro f64_mono_nonneg, linarith+)
  also have "\<dots> = 2 powi k" using assms(5) by (intro f64_just_above) simp
  finally show ?thesis using nonneg False by (simp add: ema_step_def f_add_nonneg)
qed (use assms in \<open>simp add: ema_step_def\<close>)

lemma ema_fold_bounds:
  assumes "0 \<le> avg" "avg \<le> 2 powi k" "\<forall>d \<in> set ds. 0 \<le> d \<and> d \<le> 2 powi k" "- 900 \<le> k"
  shows "0 \<le> foldl ema_step avg ds \<and> foldl ema_step avg ds \<le> 2 powi k"
  using assms
proof (induction ds arbitrary: avg)
  case (Cons d ds)
  then show ?case using ema_step_bounds [of avg d k] by simp
qed simp

text \<open>A duration of at most \<open>2 ^ k\<close> seconds is at most that number as a float.\<close>

lemma seconds_le:
  assumes "0 \<le> d" "d \<le> 2 ^ k * second" "k < 53"
  shows "seconds d \<le> 2 ^ k"
proof (cases "d = 2 ^ k * second")
  case True
  have "(2::int) ^ k < 2 ^ 53" using assms(3) by (intro power_strict_increasing) simp_all
  then have "\<bar>2 ^ k :: int\<bar> < 2 ^ 53" by simp
  from seconds_whole [OF this] True show ?thesis by simp
next
  case False
  let ?q = "d div second" and ?r = "d mod second"
  have d: "d sdiv second = ?q" "d smod second = ?r" using assms by (simp_all add: sdiv_nonneg smod_nonneg)
  have q: "0 \<le> ?q" "?q + 1 \<le> 2 ^ k" using assms False by (simp_all add: div_less_iff_less_mult pos_imp_zdiv_nonneg_iff add1_zle_eq)
  have lt: "(2::int) ^ k < 2 ^ 53" using assms(3) by (intro power_strict_increasing) simp_all
  have r: "0 \<le> ?r" "?r < second" by simp_all
  have r': "f_of_int ?r = of_int ?r" using r by (intro f_of_int_exact) simp
  have "f_div (f_of_int ?r) (f_of_int second) \<le> f64 1"
    unfolding f_div_def r' f_of_int_exact [of second, simplified]
    using r by (intro f64_mono_nonneg) (simp_all add: pos_divide_le_eq)
  moreover have "f64 1 = 1" using f64_of_int [of 1] by simp
  moreover have "f_of_int ?q = of_int ?q" using q lt by (intro f_of_int_exact) simp
  moreover have "(of_int ?q :: rat) + 1 \<le> of_int (2 ^ k)"
    using q(2) by (metis of_int_1 of_int_add of_int_le_iff)
  ultimately have "f_of_int ?q + f_div (f_of_int ?r) (f_of_int second) \<le> of_int (2 ^ k)" by linarith
  moreover have "0 \<le> f_of_int ?q + f_div (f_of_int ?r) (f_of_int second)"
    using q r by (simp add: f_div_nonneg f_of_int_nonneg)
  ultimately have "seconds d \<le> f64 (of_int (2 ^ k))"
    unfolding seconds_def d f_add_def by (intro f64_mono_nonneg)
  also have "\<dots> = of_int (2 ^ k)" using lt by (intro f64_of_int) simp
  finally show ?thesis by simp
qed

section \<open>How far from the exact average\<close>

text \<open>
  The recurrence in exact arithmetic: the first session is the average, and each later one counts a
  fifth.
\<close>

definition smooth :: "rat \<Rightarrow> rat \<Rightarrow> rat" where
  "smooth avg d = (if avg = 0 then d else d / 5 + 4 * avg / 5)"

lemma above_tiny: "t \<le> 1 / 8 * k \<Longrightarrow> 0 \<le> k \<Longrightarrow> 1 / 5 * k \<le> y \<Longrightarrow> y * (9 / 10) \<le> z \<Longrightarrow> t \<le> z" for y :: rat
  by linarith

lemma ema_step_near:
  assumes "2 powi (- 40) \<le> avg" "2 powi (- 40) \<le> d"
  shows "near 3 (ema_step avg d) (d / 5 + 4 * avg / 5)"
proof -
  have "(2::rat) powi (- 1000) \<le> 2 powi (- 43)" by (intro power_int_increasing) simp_all
  also have "\<dots> = 1 / 8 * (1 / 2 ^ 40)" by (simp add: power_int_def power_one_over)
  finally have tiny: "(2::rat) powi (- 1000) \<le> 1 / 8 * (1 / 2 ^ 40)" .
  have big: "1 / 2 ^ 40 \<le> avg" "1 / 2 ^ 40 \<le> d" using assms by (simp_all add: power_int_def field_simps)
  have product: "near 2 (f_mul c x) (q * x)" if "near 1 c q" "1 / 5 \<le> q" "1 / 2 ^ 40 \<le> x" for c q x
  proof -
    have "near 1 (x * c) (x * q)" using that by (intro near_mult) simp_all
    then have cx: "near 1 (c * x) (q * x)" by (simp add: mult.commute)
    have "1 / 5 * (1 / 2 ^ 40) \<le> q * x" using that(2,3) by (intro mult_mono) simp_all
    moreover have "q * x * (9 / 10) \<le> c * x" using cx \<open>1 / 5 * (1 / 2 ^ 40) \<le> q * x\<close>
      by (simp add: near_def unit_roundoff_def)
    ultimately have "2 powi (- 1000) \<le> c * x" using tiny by (intro above_tiny [OF tiny]) simp_all
    then have "near 1 (f_mul c x) (c * x)" unfolding f_mul_def by (intro near_f64) simp
    from near_trans [OF this cx] show ?thesis by (simp add: numeral_2_eq_2)
  qed
  have const: "near 1 (f64 (1 / 5)) (1 / 5)" "near 1 (f64 (4 / 5)) (4 / 5)"
    using tiny by (intro near_f64; simp)+
  let ?s = "f_mul (f64 (1 / 5)) d + f_mul (f64 (4 / 5)) avg"
  have sum: "near 2 ?s (1 / 5 * d + 4 / 5 * avg)"
    using product [OF const(1) _ big(2)] product [OF const(2) _ big(1)] by (intro near_add) simp_all
  then have "(1 / 5 * d + 4 / 5 * avg) * (9 / 10) \<le> ?s"
    using big by (simp add: near_def unit_roundoff_def power2_eq_square)
  then have "2 powi (- 1000) \<le> ?s" using big
    by (intro above_tiny [OF tiny, where y = "1 / 5 * d + 4 / 5 * avg"]) simp_all
  then have "near 1 (f_add (f_mul (f64 (1 / 5)) d) (f_mul (f64 (4 / 5)) avg)) ?s"
    unfolding f_add_def by (intro near_f64) simp
  from near_trans [OF this sum] have "near 3 (f_add (f_mul (f64 (1 / 5)) d) (f_mul (f64 (4 / 5)) avg)) (1 / 5 * d + 4 / 5 * avg)"
    by (simp add: numeral_3_eq_3 numeral_2_eq_2)
  moreover have "avg \<noteq> 0" using big by auto
  ultimately show ?thesis by (simp add: ema_step_def)
qed

text \<open>
  The tolerance: 32 roundings. An average in range stays in range and stays close, since a step takes
  only four fifths of the old error over.
\<close>

definition tolerance :: rat where
  "tolerance = 1 / 2 ^ 48"

definition within_tolerance :: "rat \<Rightarrow> rat \<Rightarrow> rat \<Rightarrow> bool" where
  "within_tolerance l h x \<longleftrightarrow> l * (1 - tolerance) \<le> x \<and> x \<le> h * (1 + tolerance)"

lemmas tolerance_simps = within_tolerance_def tolerance_def unit_roundoff_def near_def

lemma smooth_step:
  assumes "1 / 10 ^ 9 \<le> l" "l \<le> h" "l \<le> D" "D \<le> h" "near 2 d D"
    and "within_tolerance l h a" "within_tolerance l h e" "\<bar>a - e\<bar> \<le> h * tolerance"
  shows "within_tolerance l h (ema_step a d)" "within_tolerance l h (smooth e D)"
    "\<bar>ema_step a d - smooth e D\<bar> \<le> h * tolerance"
proof -
  have ae: "1 / 10 ^ 10 \<le> a" "1 / 10 ^ 10 \<le> e" using assms(1,6,7) by (simp_all add: tolerance_simps)
  have d: "1 / 10 ^ 10 \<le> d" using assms(1,3,5) by (simp add: tolerance_simps eval_nat_numeral)
  have "(2::rat) powi (- 40) \<le> 1 / 10 ^ 10" by (simp add: power_int_def power_one_over)
  then have n: "near 3 (ema_step a d) (d / 5 + 4 * a / 5)" by (intro ema_step_near) (use ae d in linarith)+
  have s: "smooth e D = D / 5 + 4 * e / 5" using ae by (simp add: smooth_def)
  show "within_tolerance l h (smooth e D)"
    using assms(1-4,7) by (simp add: s tolerance_simps)
  show "within_tolerance l h (ema_step a d)"
    using n assms(1-6) by (simp add: tolerance_simps eval_nat_numeral)
  have "a - e \<le> h * tolerance" "e - a \<le> h * tolerance" using assms(8) by linarith+
  then have "ema_step a d - smooth e D \<le> h * tolerance" "smooth e D - ema_step a d \<le> h * tolerance"
    using n assms(1-6) by (simp_all add: s tolerance_simps eval_nat_numeral)
  then show "\<bar>ema_step a d - smooth e D\<bar> \<le> h * tolerance" by linarith
qed

section \<open>The average over a pass\<close>

definition idle_session :: "dur \<Rightarrow> time \<Rightarrow> mem_store \<Rightarrow> string \<Rightarrow> bool" where
  "idle_session ttl now s i \<longleftrightarrow> status_of s i = StatusActive \<and> time_sub now (last_seen s i) > ttl"

definition duration_of :: "mem_store \<Rightarrow> string \<Rightarrow> float64" where
  "duration_of s i = session_duration (heap s (the (entries s i)))"

lemma expireActives_avg:
  assumes "distinct is" "expireActives ttl now is (s, res) = (s', res')"
  shows "avgSession s' = foldl ema_step (avgSession s) (map (duration_of s) (filter (idle_session ttl now s) is))"
  using assms
proof (induction "is" arbitrary: s res)
  case (Cons i "is")
  show ?case
  proof (cases "idle_session ttl now s i")
    case True
    then obtain a where a: "entries s i = Some a" "e_status (heap s a) = StatusActive"
      "time_sub now (e_lastSeen (heap s a)) > ttl"
      by (auto simp: idle_session_def status_of_def last_seen_def split: option.splits)
    let ?s = "s\<lparr>avgSession := ema_step (avgSession s) (session_duration (heap s a)),
      entries := (entries s)(i := None), active := active s - 1\<rparr>"
    have *: "idle_session ttl now ?s j = idle_session ttl now s j" "duration_of ?s j = duration_of s j"
      if "j \<in> set is" for j
      using that Cons.prems(1) by (auto simp: idle_session_def duration_of_def status_of_def last_seen_def split: option.splits)
    have "map (duration_of ?s) (filter (idle_session ttl now ?s) is) =
        map (duration_of s) (filter (idle_session ttl now s) is)"
      using * by (intro map_cong filter_cong) auto
    moreover have "expireActives ttl now is (?s, res\<lparr>rr_Expired := rr_Expired res + 1\<rparr>) = (s', res')"
      using Cons.prems(2) a by simp
    moreover have "duration_of s i = session_duration (heap s a)" using a(1) by (simp add: duration_of_def)
    ultimately show ?thesis using Cons.IH [of ?s] Cons.prems(1) True by simp
  next
    case False
    then have "expireActives ttl now is (s, res) = (s', res')"
      using Cons.prems(2)
      by (auto simp: idle_session_def status_of_def last_seen_def Let_def split: option.splits if_splits)
    with Cons.IH Cons.prems(1) False show ?thesis by simp
  qed
qed simp

lemma evictGhosts_avg: "evictGhosts ttl now as (s, res) = (s', res') \<Longrightarrow> avgSession s' = avgSession s"
  by (induction "as" arbitrary: s res) (auto simp: addHoleLocked_def Let_def split: if_splits)

lemma promoteHeads_avg: "avgSession (fst (promoteHeads cap now p)) = avgSession (fst p)"
proof (induction cap now p rule: promoteHeads.induct)
  case (1 cap now s res)
  then show ?case
    by (subst promoteHeads.simps) (simp add: Let_def mem_prims split: list.split)
qed

text \<open>
  A pass of \<open>Reconcile\<close> updates the average session duration with the duration (admission to
  last heartbeat) of every session it expires, one smoothing step each, in the order in which
  the map is visited, and with nothing else.
\<close>

lemma reconcile_average:
  assumes "mem_inv s" and "range_ok ord"
  shows "avgSession (snd (Reconcile ord cap aTTL qTTL now s)) =
    foldl ema_step (avgSession s)
      (map (duration_of s) (filter (idle_session aTTL now s) (ord (entries s))))"
proof -
  obtain s1 r1 where 1: "expireActives aTTL now (ord (entries s)) (s, zero_reconcile_result) = (s1, r1)"
    by fastforce
  obtain s2 r2 where 2: "evictGhosts qTTL now (queue s1) (s1, r1) = (s2, r2)" by fastforce
  obtain s3 r3 where 3: "promoteHeads cap now (s2, r2) = (s3, r3)" by fastforce
  have "distinct (ord (entries s))"
    using assms(2) heap_invD(1) [OF mem_invD(1) [OF assms(1)]] by (simp add: range_ok_def)
  moreover have "avgSession (pruneHolesLocked s3) = avgSession s3"
    by (simp add: pruneHolesLocked_def Let_def split: list.split)
  ultimately show ?thesis
    using expireActives_avg [OF _ 1] evictGhosts_avg [OF 2] promoteHeads_avg [of cap now "(s2, r2)"]
    by (simp add: Reconcile_def 1 2 3)
qed

text \<open>
  Rounding never drives the average out of range: while every session lasts at most \<open>2 ^ k\<close>
  seconds (and is not seen before its admission), the average stays between 0 and \<open>2 ^ k\<close>, even
  though the two smoothing constants, as doubles, add up to more than 1.
\<close>

lemma average_stays_in_range:
  fixes k :: nat
  assumes "mem_inv s" and "range_ok ord" and "k < 53"
    and "0 \<le> avgSession s" and "avgSession s \<le> 2 ^ k"
    and "\<forall>i a. entries s i = Some a \<and> e_status (heap s a) = StatusActive \<longrightarrow>
           e_admittedAt (heap s a) \<le> e_lastSeen (heap s a) \<and>
           e_lastSeen (heap s a) - e_admittedAt (heap s a) \<le> 2 ^ k * second"
  shows "0 \<le> avgSession (snd (Reconcile ord cap aTTL qTTL now s)) \<and>
         avgSession (snd (Reconcile ord cap aTTL qTTL now s)) \<le> 2 ^ k"
proof -
  have "0 \<le> duration_of s i \<and> duration_of s i \<le> 2 powi int k" if idle: "idle_session aTTL now s i" for i
  proof -
    obtain a where a: "entries s i = Some a" "e_status (heap s a) = StatusActive"
      using idle by (auto simp: idle_session_def status_of_def split: option.splits)
    let ?d = "time_sub (e_lastSeen (heap s a)) (e_admittedAt (heap s a))"
    have le: "0 \<le> e_lastSeen (heap s a) - e_admittedAt (heap s a)"
      "e_lastSeen (heap s a) - e_admittedAt (heap s a) \<le> 2 ^ k * second"
      using assms(6) a by auto
    have "0 \<le> ?d" "?d \<le> 2 ^ k * second"
      using sat64_nonneg [OF le(1)] sat64_le [OF le(1)] le(2) unfolding time_sub_def by linarith+
    then show ?thesis
      using seconds_nonneg seconds_le [OF _ _ assms(3)] a(1)
      by (simp add: duration_of_def session_duration_def)
  qed
  then show ?thesis
    using ema_fold_bounds [of "avgSession s" "int k"] assms(4,5)
    by (simp add: reconcile_average [OF assms(1,2)])
qed

definition lasted :: "mem_store \<Rightarrow> string \<Rightarrow> rat" where
  "lasted s i = (case entries s i of None \<Rightarrow> 0
     | Some a \<Rightarrow> of_int (e_lastSeen (heap s a) - e_admittedAt (heap s a)) / of_int second)"

lemma smooth_fold:
  assumes "1 / 10 ^ 9 \<le> l" "l \<le> h"
    and "\<And>i. i \<in> set js \<Longrightarrow> l \<le> D i \<and> D i \<le> h \<and> near 2 (d i) (D i)"
    and "a = 0 \<and> e = 0 \<or> within_tolerance l h a \<and> within_tolerance l h e \<and> \<bar>a - e\<bar> \<le> h * tolerance"
  shows "foldl ema_step a (map d js) = 0 \<and> foldl smooth e (map D js) = 0 \<and> js = [] \<and> a = 0 \<or>
    within_tolerance l h (foldl ema_step a (map d js)) \<and> within_tolerance l h (foldl smooth e (map D js)) \<and>
    \<bar>foldl ema_step a (map d js) - foldl smooth e (map D js)\<bar> \<le> h * tolerance"
  using assms(3,4)
proof (induction js arbitrary: a e)
  case (Cons i js)
  have i: "l \<le> D i" "D i \<le> h" "near 2 (d i) (D i)" using Cons.prems(1) by auto
  have "within_tolerance l h (d i)" "within_tolerance l h (D i)"
    "d i - D i \<le> h * tolerance" "D i - d i \<le> h * tolerance"
    using i assms(1) by (simp_all add: tolerance_simps eval_nat_numeral)
  then have first: "within_tolerance l h (d i)" "within_tolerance l h (D i)" "\<bar>d i - D i\<bar> \<le> h * tolerance"
    by linarith+
  have positive: "x \<noteq> 0" if "within_tolerance l h x" for x
    using that assms(1) by (auto simp: tolerance_simps)
  have next_ones: "within_tolerance l h (ema_step a (d i))" "within_tolerance l h (smooth e (D i))"
    "\<bar>ema_step a (d i) - smooth e (D i)\<bar> \<le> h * tolerance"
    using Cons.prems(2) first smooth_step [OF assms(1,2) i, of a e]
    by (cases "a = 0 \<and> e = 0"; simp add: ema_step_def smooth_def del: de_Morgan_conj)+
  with Cons.IH [of "ema_step a (d i)" "smooth e (D i)"] Cons.prems(1) positive [OF next_ones(1)]
  show ?case by auto
qed auto

text \<open>A store whose one session was last seen four seconds after its admission.\<close>

definition demo_session :: mem_store where
  "demo_session = store_run memory_ops
     [(sorted_range, CTryAdmit ''a'' 1 0), (sorted_range, CTouch ''a'' (4 * second))] New"

lemma mem_inv_demo_session: "mem_inv demo_session"
  unfolding demo_session_def by (rule mem_run) (simp_all add: range_ok_sorted_range)

lemma demo_session_state:
  "entries demo_session = [''a'' \<mapsto> 0]" "avgSession demo_session = 0"
  "e_status (heap demo_session 0) = StatusActive" "e_admittedAt (heap demo_session 0) = 0"
  "e_lastSeen (heap demo_session 0) = 4 * second"
  by (simp_all add: demo_session_def memory_ops_def New_def TryAdmit_def Touch_def mem_prims Let_def)

text \<open>
  C25: The average session duration follows the sessions that end. Let the active sessions have lasted
  between \<open>L\<close> and \<open>H\<close> nanoseconds (admission to last heartbeat), and let the average be either unset
  (0) or between \<open>L\<close> and \<open>H\<close> in seconds. After a pass the average is still unset exactly when it was
  and no session ended; otherwise it is within a relative \<open>2 ^ -48\<close> of the range from \<open>L\<close> to \<open>H\<close>; and it
  differs by at most \<open>H * 2 ^ -48\<close> from the exponential average in exact arithmetic, one fifth new and
  four fifths old and the first session as it is, of the sessions that this pass ended.
\<close>

theorem average_follows_the_sessions:
  assumes "mem_inv s" and "range_ok ord" and "1 \<le> L" and "L \<le> H" and "H < 2 ^ 63"
    and "\<forall>i a. entries s i = Some a \<and> e_status (heap s a) = StatusActive \<longrightarrow>
           L \<le> e_lastSeen (heap s a) - e_admittedAt (heap s a) \<and>
           e_lastSeen (heap s a) - e_admittedAt (heap s a) \<le> H"
    and "avgSession s = 0 \<or> within_tolerance (of_int L / of_int second) (of_int H / of_int second) (avgSession s)"
    and "ended = map (lasted s) (filter (idle_session aTTL now s) (ord (entries s)))"
    and "avg = avgSession (snd (Reconcile ord cap aTTL qTTL now s))"
  shows "(avg = 0 \<longleftrightarrow> avgSession s = 0 \<and> ended = []) \<and>
    (avg = 0 \<or> within_tolerance (of_int L / of_int second) (of_int H / of_int second) avg) \<and>
    \<bar>avg - foldl smooth (avgSession s) ended\<bar> \<le> of_int H / of_int second * tolerance"
proof -
  let ?l = "of_int L / of_int second :: rat" and ?h = "of_int H / of_int second :: rat"
  let ?is = "filter (idle_session aTTL now s) (ord (entries s))"
  have lh: "1 / 10 ^ 9 \<le> ?l" "?l \<le> ?h" using assms(3,4) by (simp_all add: divide_right_mono)
  have sessions: "?l \<le> lasted s i \<and> lasted s i \<le> ?h \<and> near 2 (duration_of s i) (lasted s i)"
    if "i \<in> set ?is" for i
  proof -
    have "idle_session aTTL now s i" using that by simp
    then obtain a where a: "entries s i = Some a" "e_status (heap s a) = StatusActive"
      by (auto simp: idle_session_def status_of_def split: option.splits)
    let ?d = "e_lastSeen (heap s a) - e_admittedAt (heap s a)"
    have d: "L \<le> ?d" "?d \<le> H" using assms(6) a by auto
    then have "sat64 ?d = ?d" using assms(3,5) by (simp add: sat64_def)
    with d a seconds_near [of ?d] assms(3,5) show ?thesis
      by (simp add: lasted_def duration_of_def session_duration_def time_sub_def divide_right_mono)
  qed
  have zero: "\<not> within_tolerance ?l ?h 0" using lh by (simp add: tolerance_simps)
  have "0 \<le> ?h * tolerance" using lh by (simp add: tolerance_def)
  with smooth_fold [OF lh, where js = ?is and D = "lasted s" and d = "duration_of s"
      and a = "avgSession s" and e = "avgSession s", OF sessions] assms(7) zero
  show ?thesis unfolding assms(8,9) reconcile_average [OF assms(1,2)] by auto
qed

theorem average_follows_the_sessions_witness:
  "avgSession (snd (Reconcile sorted_range 1 second second (15 * second) demo_session)) \<noteq> 0"
proof -
  have "4 * second \<le> e_lastSeen (heap demo_session a) - e_admittedAt (heap demo_session a) \<and>
      e_lastSeen (heap demo_session a) - e_admittedAt (heap demo_session a) \<le> 4 * second"
    if "entries demo_session i = Some a \<and> e_status (heap demo_session a) = StatusActive" for i a
    using that by (auto simp: demo_session_state split: if_splits)
  then show ?thesis
    using average_follows_the_sessions [OF mem_inv_demo_session range_ok_sorted_range, of "4 * second" "4 * second"
        _ second "15 * second" _ 1 second, OF _ _ _ _ _ refl refl]
    by (simp add: demo_session_state sorted_range_def idle_session_def status_of_def last_seen_def time_sub_def sat64_def)
qed

end
