(* ===== verification/Metrics.thy ===== *)
theory Metrics
  imports StoreTypes
begin

text \<open>
  \<^verbatim>\<open>internal/metrics/metrics.go\<close>: the registry of counters and the wait-time histogram. The
  counters are 64-bit atomics, so additions wrap; a nil registry ignores every update, so a
  registry is optional. The compare-and-swap loop of \<open>ObserveAdmission\<close> retries until its
  addition to the sum takes effect, which is one addition.
\<close>

record registry =
  m_version :: string
  m_admissions :: int
  m_expirations :: int
  m_evictions :: int
  m_reqProxied :: int
  m_reqQueued :: int
  m_reqAdmin :: int
  m_waitCounts :: "int list" \<comment> \<open>per bucket, the last one beyond the final bound\<close>
  m_waitSum :: float64
  m_waitTotal :: int

definition waitBuckets :: "float64 list" where
  "waitBuckets = [1, 5, 15, 30, 60, 120, 300, 600]"

definition DecisionProxied :: string where "DecisionProxied = ''proxied''"
definition DecisionQueued :: string where "DecisionQueued = ''queued''"
definition DecisionAdmin :: string where "DecisionAdmin = ''admin''"

definition new_registry :: "string \<Rightarrow> registry" where
  "new_registry v = \<lparr>m_version = v, m_admissions = 0, m_expirations = 0, m_evictions = 0,
     m_reqProxied = 0, m_reqQueued = 0, m_reqAdmin = 0,
     m_waitCounts = replicate (length waitBuckets + 1) 0, m_waitSum = 0, m_waitTotal = 0\<rparr>"

text \<open>The loop over the bounds: the first bucket whose bound is not below the wait.\<close>

fun bucket_from :: "nat \<Rightarrow> float64 list \<Rightarrow> float64 \<Rightarrow> nat" where
  "bucket_from b [] waitSecs = length waitBuckets"
| "bucket_from b (ub # ubs) waitSecs =
     (if waitSecs \<le> ub then b else bucket_from (b + 1) ubs waitSecs)"

definition bucket_of :: "float64 \<Rightarrow> nat" where
  "bucket_of waitSecs = bucket_from 0 waitBuckets waitSecs"

definition ObserveAdmission :: "float64 \<Rightarrow> registry option \<Rightarrow> registry option" where
  "ObserveAdmission waitSecs r =
     (case r of None \<Rightarrow> None
      | Some m \<Rightarrow>
          let i = bucket_of waitSecs
          in Some (m\<lparr>m_admissions := s64 (m_admissions m + 1),
                     m_waitCounts := (m_waitCounts m)[i := s64 (m_waitCounts m ! i + 1)],
                     m_waitTotal := s64 (m_waitTotal m + 1),
                     m_waitSum := f_add (m_waitSum m) waitSecs\<rparr>))"

definition AddReconcile :: "reconcile_result \<Rightarrow> registry option \<Rightarrow> registry option" where
  "AddReconcile res r =
     (case r of None \<Rightarrow> None
      | Some m \<Rightarrow> Some (m\<lparr>m_expirations := s64 (m_expirations m + rr_Expired res),
                          m_evictions := s64 (m_evictions m + rr_Evicted res)\<rparr>))"

definition IncRequest :: "string \<Rightarrow> registry option \<Rightarrow> registry option" where
  "IncRequest decision r =
     (case r of None \<Rightarrow> None
      | Some m \<Rightarrow>
          Some (if decision = DecisionProxied then m\<lparr>m_reqProxied := s64 (m_reqProxied m + 1)\<rparr>
                else if decision = DecisionQueued then m\<lparr>m_reqQueued := s64 (m_reqQueued m + 1)\<rparr>
                else if decision = DecisionAdmin then m\<lparr>m_reqAdmin := s64 (m_reqAdmin m + 1)\<rparr>
                else m))"

section \<open>The exposition text\<close>

text \<open>
  \<open>WriteTo\<close> line by line. \<open>fmt_g\<close> is the verb \<open>%g\<close> on a \<open>float64\<close> and \<open>fmt_q\<close> the verb \<open>%q\<close> on a
  string; both are arguments.
\<close>

fun cumulative :: "int \<Rightarrow> int list \<Rightarrow> int list" where
  "cumulative cum [] = []"
| "cumulative cum (n # ns) = s64 (cum + n) # cumulative (s64 (cum + n)) ns"

definition bucket_lines :: "(float64 \<Rightarrow> string) \<Rightarrow> registry \<Rightarrow> string list" where
  "bucket_lines fmt_g m =
     map2 (\<lambda>ub cum. ''gowait_wait_seconds_bucket{le=\"'' @ fmt_g ub @ ''\"} '' @ itoa cum)
       waitBuckets (cumulative 0 (take (length waitBuckets) (m_waitCounts m)))"

definition inf_bucket :: "registry \<Rightarrow> int" where
  "inf_bucket m = s64 (last (0 # cumulative 0 (take (length waitBuckets) (m_waitCounts m))) +
                       m_waitCounts m ! length waitBuckets)"

definition WriteTo ::
  "(float64 \<Rightarrow> string) \<Rightarrow> (string \<Rightarrow> string) \<Rightarrow> stats \<Rightarrow> int \<Rightarrow> registry option \<Rightarrow> string list" where
  "WriteTo fmt_g fmt_q stats capacity r =
     (case r of None \<Rightarrow> []
      | Some m \<Rightarrow>
     [''# HELP gowait_queue_length Users currently waiting in the queue.'',
      ''# TYPE gowait_queue_length gauge'',
      ''gowait_queue_length '' @ itoa (st_QueueLength stats),
      ''# HELP gowait_active_users Users currently admitted to the backend.'',
      ''# TYPE gowait_active_users gauge'',
      ''gowait_active_users '' @ itoa (st_ActiveCount stats),
      ''# HELP gowait_capacity Effective maximum concurrent active users.'',
      ''# TYPE gowait_capacity gauge'',
      ''gowait_capacity '' @ itoa capacity,
      ''# HELP gowait_avg_session_seconds EMA of completed session durations.'',
      ''# TYPE gowait_avg_session_seconds gauge'',
      ''gowait_avg_session_seconds '' @ fmt_g (st_AvgSessionSecs stats),
      ''# HELP gowait_admissions_total Users admitted to the backend.'',
      ''# TYPE gowait_admissions_total counter'',
      ''gowait_admissions_total '' @ itoa (m_admissions m),
      ''# HELP gowait_expirations_total Active sessions reaped for inactivity.'',
      ''# TYPE gowait_expirations_total counter'',
      ''gowait_expirations_total '' @ itoa (m_expirations m),
      ''# HELP gowait_evictions_total Queued users evicted for not polling.'',
      ''# TYPE gowait_evictions_total counter'',
      ''gowait_evictions_total '' @ itoa (m_evictions m),
      ''# HELP gowait_requests_total Gatekeeper decisions by outcome.'',
      ''# TYPE gowait_requests_total counter'',
      ''gowait_requests_total{decision=\"proxied\"} '' @ itoa (m_reqProxied m),
      ''gowait_requests_total{decision=\"queued\"} '' @ itoa (m_reqQueued m),
      ''gowait_requests_total{decision=\"admin\"} '' @ itoa (m_reqAdmin m),
      ''# HELP gowait_wait_seconds Time users spent queued before admission.'',
      ''# TYPE gowait_wait_seconds histogram''] @
     bucket_lines fmt_g m @
     [''gowait_wait_seconds_bucket{le=\"+Inf\"} '' @ itoa (inf_bucket m),
      ''gowait_wait_seconds_sum '' @ fmt_g (m_waitSum m),
      ''gowait_wait_seconds_count '' @ itoa (m_waitTotal m),
      ''# HELP gowait_build_info Build information.'',
      ''# TYPE gowait_build_info gauge'',
      ''gowait_build_info{version='' @ fmt_q (m_version m) @ ''} 1''])"

end
