(* ===== verification/MetricsProps.thy ===== *)
theory MetricsProps
  imports Metrics
begin

text \<open>
  What the registry of \<^verbatim>\<open>metrics.go\<close> promises a scraper: after any sequence of updates the
  cumulative buckets count the waits up to each bound, the last one is the number of
  observations, and admissions less expirations is the number of active tickets.
\<close>

section \<open>Updates\<close>

datatype update = UObserve float64 | UReconcile reconcile_result | URequest string

fun update_registry :: "update \<Rightarrow> registry option \<Rightarrow> registry option" where
  "update_registry (UObserve w) r = ObserveAdmission w r"
| "update_registry (UReconcile res) r = AddReconcile res r"
| "update_registry (URequest d) r = IncRequest d r"

fun observed :: "update list \<Rightarrow> float64 list" where
  "observed [] = []"
| "observed (UObserve w # us) = w # observed us"
| "observed (_ # us) = observed us"

lemma length_observed: "length (observed us) \<le> length us"
  by (induction us rule: observed.induct) auto

text \<open>The updates that leave the histogram alone.\<close>

lemma histogram_frame:
  "\<exists>m'. AddReconcile res (Some m) = Some m' \<and> m_waitCounts m' = m_waitCounts m \<and>
     m_waitTotal m' = m_waitTotal m \<and> m_admissions m' = m_admissions m \<and> m_waitSum m' = m_waitSum m"
  "\<exists>m'. IncRequest d (Some m) = Some m' \<and> m_waitCounts m' = m_waitCounts m \<and>
     m_waitTotal m' = m_waitTotal m \<and> m_admissions m' = m_admissions m \<and> m_waitSum m' = m_waitSum m"
  by (simp_all add: AddReconcile_def IncRequest_def)

section \<open>Buckets\<close>

lemma length_waitBuckets [simp]: "length waitBuckets = 8"
  by (simp add: waitBuckets_def)

lemma sorted_waitBuckets: "sorted_wrt (<) waitBuckets"
  by (simp add: waitBuckets_def)

lemma bucket_from_spec:
  assumes "b + length ubs = length waitBuckets" "sorted_wrt (<) ubs"
  shows "b \<le> bucket_from b ubs w \<and> bucket_from b ubs w \<le> length waitBuckets \<and>
    (\<forall>k < length ubs. w \<le> ubs ! k \<longleftrightarrow> bucket_from b ubs w \<le> b + k)"
  using assms
proof (induction ubs arbitrary: b)
  case (Cons ub ubs)
  show ?case
  proof (cases "w \<le> ub")
    case True
    then have "w \<le> (ub # ubs) ! k" if "k < length (ub # ubs)" for k
    proof (cases k)
      case (Suc j)
      with that Cons.prems(2) have "ub < ubs ! j" by simp
      with True Suc show ?thesis by simp
    qed (use True in simp)
    with True Cons.prems(1) show ?thesis by simp
  next
    case False
    have IH: "Suc b \<le> bucket_from (Suc b) ubs w" "bucket_from (Suc b) ubs w \<le> length waitBuckets"
      "\<And>k. k < length ubs \<Longrightarrow> w \<le> ubs ! k \<longleftrightarrow> bucket_from (Suc b) ubs w \<le> Suc b + k"
      using Cons.IH [of "Suc b"] Cons.prems by auto
    have "w \<le> (ub # ubs) ! k \<longleftrightarrow> bucket_from (Suc b) ubs w \<le> b + k" if "k < length (ub # ubs)" for k
      using that IH(1,3) False by (cases k) auto
    with False IH(1,2) show ?thesis by simp
  qed
qed simp

lemma bucket_of_le: "bucket_of w \<le> 8"
  using bucket_from_spec [of 0 waitBuckets w] sorted_waitBuckets by (simp add: bucket_of_def)

lemma bucket_of_iff: "b < 8 \<Longrightarrow> bucket_of w \<le> b \<longleftrightarrow> w \<le> waitBuckets ! b"
  using bucket_from_spec [of 0 waitBuckets w] sorted_waitBuckets by (simp add: bucket_of_def)

section \<open>The counters as the list of observations\<close>

definition in_bucket :: "float64 list \<Rightarrow> nat \<Rightarrow> nat" where
  "in_bucket ws b = length (filter (\<lambda>w. bucket_of w = b) ws)"

definition records :: "float64 list \<Rightarrow> registry \<Rightarrow> bool" where
  "records ws m \<longleftrightarrow> m_waitCounts m = map (\<lambda>b. s64 (int (in_bucket ws b))) [0..<9] \<and>
     m_waitTotal m = s64 (int (length ws)) \<and> m_admissions m = s64 (int (length ws)) \<and>
     m_waitSum m = foldl f_add 0 ws"

lemma records_new: "records [] (new_registry v)"
  by (simp add: records_def new_registry_def in_bucket_def map_replicate_const s64_def)

lemma records_observe:
  assumes "records ws m"
  shows "\<exists>m'. ObserveAdmission w (Some m) = Some m' \<and> records (ws @ [w]) m'"
proof -
  let ?i = "bucket_of w"
  have i: "?i < 9" using bucket_of_le [of w] by simp
  have one: "s64 (s64 (int n) + 1) = s64 (1 + int n)" for n
    using s64_add_left [of "int n" 1] by (simp add: add.commute)
  have "(m_waitCounts m)[?i := s64 (m_waitCounts m ! ?i + 1)] =
      map (\<lambda>b. s64 (int (in_bucket (ws @ [w]) b))) [0..<9]"
    using assms i one by (intro nth_equalityI) (simp_all add: records_def in_bucket_def nth_list_update add.commute)
  with assms one show ?thesis by (simp add: ObserveAdmission_def records_def Let_def)
qed

lemma records_updates:
  assumes "records ws m"
  shows "\<exists>m'. fold update_registry us (Some m) = Some m' \<and> records (ws @ observed us) m'"
  using assms
proof (induction us arbitrary: ws m)
  case (Cons u us)
  have "\<exists>m1. update_registry u (Some m) = Some m1 \<and> records (ws @ observed [u]) m1"
    using records_observe [OF Cons.prems] histogram_frame Cons.prems
    by (cases u) (auto simp: records_def AddReconcile_def IncRequest_def)
  then obtain m1 where 1: "update_registry u (Some m) = Some m1" "records (ws @ observed [u]) m1"
    by blast
  have "observed (u # us) = observed [u] @ observed us" by (cases u) simp_all
  with Cons.IH [OF 1(2)] 1(1) show ?case by simp
qed simp

lemma nth_cumulative:
  assumes "k < length ns" "\<And>n. n \<in> set ns \<Longrightarrow> 0 \<le> n" "0 \<le> cum" "cum + sum_list ns < 2 ^ 63"
  shows "cumulative cum ns ! k = cum + sum_list (take (Suc k) ns)"
  using assms
proof (induction ns arbitrary: cum k)
  case (Cons n ns)
  have pos: "0 \<le> sum_list ns" using Cons.prems(2) by (intro sum_list_nonneg) auto
  have "in_s64 (cum + n)" using Cons.prems pos by (intro in_s64_nonneg) auto
  then show ?case
    using Cons.IH [of _ "cum + n"] Cons.prems by (cases k) (auto simp: algebra_simps)
qed simp

lemma length_cumulative [simp]: "length (cumulative cum ns) = length ns"
  by (induction cum ns rule: cumulative.induct) simp_all

lemma sum_in_bucket:
  "sum_list (map (\<lambda>b. int (in_bucket ws b)) [0..<k]) = int (length (filter (\<lambda>w. bucket_of w < k) ws))"
proof (induction k)
  case (Suc k)
  have "length (filter (\<lambda>w. bucket_of w < Suc k) ws) =
      length (filter (\<lambda>w. bucket_of w < k) ws) + in_bucket ws k"
    unfolding in_bucket_def by (induction ws) (auto simp: less_Suc_eq)
  with Suc show ?case by simp
qed simp

lemma counts_exact:
  assumes "records ws m" "length ws < 2 ^ 63"
  shows "m_waitCounts m = map (\<lambda>b. int (in_bucket ws b)) [0..<9]"
proof -
  have "in_s64 (int (in_bucket ws b))" for b
    using assms(2) le_less_trans [OF length_filter_le, of ws "2 ^ 63" "\<lambda>w. bucket_of w = b"]
    by (intro in_s64_nonneg) (simp_all add: in_bucket_def)
  with assms(1) show ?thesis by (simp add: records_def)
qed

lemma bucket_counts:
  assumes "records ws m" "length ws < 2 ^ 63"
  shows "b < 8 \<Longrightarrow> cumulative 0 (take 8 (m_waitCounts m)) ! b =
      int (length (filter (\<lambda>w. w \<le> waitBuckets ! b) ws))"
    and "inf_bucket m = int (length ws)"
proof -
  have t: "take k (m_waitCounts m) = map (\<lambda>b. int (in_bucket ws b)) [0..<k]" if "k \<le> 9" for k
    unfolding counts_exact [OF assms] using that by (simp add: take_map)
  let ?ns = "take 8 (m_waitCounts m)"
  have len: "length ?ns = 8" by (simp add: t)
  have nonneg: "\<And>n. n \<in> set ?ns \<Longrightarrow> 0 \<le> n" by (auto simp: t)
  have bound: "int (length (filter P ws)) < 2 ^ 63" for P
    using assms(2) le_less_trans [OF length_filter_le, of ws "2 ^ 63" P] by simp
  have sum: "0 + sum_list ?ns < 2 ^ 63"
    unfolding t [of 8, simplified] sum_in_bucket by (simp add: bound [simplified])
  have nth: "cumulative 0 ?ns ! b = int (length (filter (\<lambda>w. bucket_of w < Suc b) ws))" if "b < 8" for b
  proof -
    have "cumulative 0 ?ns ! b = 0 + sum_list (take (Suc b) ?ns)"
      by (rule nth_cumulative) (use len nonneg sum that in auto)
    also have "take (Suc b) ?ns = take (Suc b) (m_waitCounts m)" using that by simp
    finally show ?thesis using that by (simp add: t sum_in_bucket del: upt_Suc)
  qed
  show "cumulative 0 ?ns ! b = int (length (filter (\<lambda>w. w \<le> waitBuckets ! b) ws))" if "b < 8"
    using bucket_of_iff [OF that] unfolding nth [OF that] less_Suc_eq_le by simp
  have "last (0 # cumulative 0 ?ns) = cumulative 0 ?ns ! 7"
  proof -
    have l: "length (cumulative 0 ?ns) = 8" using len by simp
    then have "cumulative 0 ?ns \<noteq> []" by force
    with last_conv_nth [OF this] show ?thesis unfolding l by simp
  qed
  also have "\<dots> = int (length (filter (\<lambda>w. bucket_of w < 8) ws))" using nth [of 7] by simp
  finally have last: "last (0 # cumulative 0 ?ns) = int (length (filter (\<lambda>w. bucket_of w < 8) ws))" .
  have "m_waitCounts m ! 8 = int (in_bucket ws 8)" unfolding counts_exact [OF assms] by simp
  moreover have "length (filter (\<lambda>w. bucket_of w < 8) ws) + in_bucket ws 8 = length ws"
    unfolding in_bucket_def using bucket_of_le by (induction ws) (auto simp: order_le_less)
  ultimately show "inf_bucket m = int (length ws)"
    using bound [of "\<lambda>_. True"] unfolding inf_bucket_def length_waitBuckets last
    by (simp add: in_s64_nonneg flip: of_nat_add)
qed

text \<open>
  C38: The histogram a scraper reads is right: after any sequence of updates of a new registry
  (fewer than \<open>2 ^ 63\<close> of them), the cumulative count of each bucket is the number of observed
  waits up to its bound, the \<open>+Inf\<close> bucket and the count are the number of observations, which
  is the number of admissions, and the sum is the waits added up in order.
\<close>

theorem histogram_counts_waits:
  assumes "length us < 2 ^ 63"
  shows "\<exists>m. fold update_registry us (Some (new_registry v)) = Some m \<and>
    (\<forall>b < 8. cumulative 0 (take 8 (m_waitCounts m)) ! b =
       int (length (filter (\<lambda>w. w \<le> waitBuckets ! b) (observed us)))) \<and>
    inf_bucket m = int (length (observed us)) \<and> m_waitTotal m = int (length (observed us)) \<and>
    m_admissions m = int (length (observed us)) \<and> m_waitSum m = foldl f_add 0 (observed us)"
proof -
  obtain m where m: "fold update_registry us (Some (new_registry v)) = Some m" "records (observed us) m"
    using records_updates [OF records_new, of us v] by auto
  have len: "length (observed us) < 2 ^ 63" using assms length_observed [of us] by simp
  then have "s64 (int (length (observed us))) = int (length (observed us))"
    by (simp add: in_s64_nonneg)
  then show ?thesis
    using m bucket_counts [OF m(2) len] by (auto simp: records_def)
qed

theorem histogram_counts_waits_witness:
  "\<exists>m. fold update_registry [UObserve 0, URequest DecisionProxied, UObserve 45, UObserve 700]
         (Some (new_registry ''v1'')) = Some m \<and> inf_bucket m = 3 \<and>
       cumulative 0 (take 8 (m_waitCounts m)) ! 4 = 2"
  using histogram_counts_waits [of "[UObserve 0, URequest DecisionProxied, UObserve 45, UObserve 700]" "''v1''"]
  by (auto simp: waitBuckets_def)

section \<open>Admissions and expirations balance\<close>

text \<open>\<open>n\<close> active tickets are what is left of the admissions after the expirations.\<close>

definition balanced :: "int \<Rightarrow> registry option \<Rightarrow> bool" where
  "balanced n r = (case r of None \<Rightarrow> True | Some m \<Rightarrow> m_admissions m = s64 (n + m_expirations m))"

lemma s64_add_right: "s64 (x + s64 y) = s64 (x + y)"
  using s64_add_left [of y x] by (simp add: add.commute)

lemma s64_add_mid: "s64 (x + s64 y - z) = s64 (x + y - z)"
  using s64_add_left [of y "x - z"] by (simp add: algebra_simps)

lemma balanced_observe: "balanced n r \<Longrightarrow> balanced (n + 1) (ObserveAdmission w r)"
  by (auto simp: balanced_def ObserveAdmission_def Let_def s64_add_left s64_add_right algebra_simps split: option.splits)

lemma balanced_observes: "balanced n r \<Longrightarrow> balanced (n + int (length ws)) (fold ObserveAdmission ws r)"
proof (induction ws arbitrary: n r)
  case (Cons w ws)
  show ?case using Cons.IH [OF balanced_observe [OF Cons.prems, of w]] by (simp add: algebra_simps)
qed simp

lemma balanced_reconcile:
  "balanced n r \<Longrightarrow>
     balanced (n - rr_Expired res + int (length (rr_WaitedSecs res)))
       (fold ObserveAdmission (rr_WaitedSecs res) (AddReconcile res r))"
  by (rule balanced_observes)
    (auto simp: balanced_def AddReconcile_def s64_add_right s64_add_mid algebra_simps split: option.splits)

end
