(* ===== verification/Controller.thy ===== *)
theory Controller
  imports Metrics
begin

text \<open>
  \<^verbatim>\<open>internal/queue/controller.go\<close>: the admission state machine on top of a store. The store's
  operations are an argument (the Go interface value); the controller's record holds the
  store's state, the configuration, the atomics, the clock and the metrics registry. Every
  call of \<open>c.now()\<close> reads the next value of the clock, so two readings in one request may
  differ. Functions run one request from start to end; their compare-and-swap then always
  succeeds.
\<close>

section \<open>Data\<close>

datatype decision = DecisionProxy | DecisionWait

record qresult =
  q_Decision :: decision
  q_Position :: int
  q_QueueLength :: int
  q_ActiveCount :: int
  q_ETA :: dur

record config =
  cfg_Capacity :: int
  cfg_ActiveTTL :: dur
  cfg_QueueTTL :: dur
  cfg_MinReconcileGap :: dur
  cfg_StatsCacheTTL :: dur

record 's controller =
  ct_store :: 's
  ct_cfg :: config
  ct_capacity :: int
  ct_clock :: "nat \<Rightarrow> time" \<comment> \<open>the \<open>n\<close>-th reading of \<open>now()\<close>\<close>
  ct_reads :: nat \<comment> \<open>readings made so far\<close>
  ct_metrics :: "registry option"
  ct_lastReconcile :: int
  ct_statsCache :: "(stats \<times> time) option"

definition new_controller :: "'s \<Rightarrow> config \<Rightarrow> (nat \<Rightarrow> time) \<Rightarrow> 's controller" where
  "new_controller s cfg now = \<lparr>ct_store = s, ct_cfg = cfg, ct_capacity = cfg_Capacity cfg,
     ct_clock = now, ct_reads = 0, ct_metrics = None, ct_lastReconcile = 0, ct_statsCache = None\<rparr>"

definition SetMetrics :: "registry option \<Rightarrow> 's controller \<Rightarrow> 's controller" where
  "SetMetrics r c = c\<lparr>ct_metrics := r\<rparr>"

definition read_clock :: "'s controller \<Rightarrow> time \<times> 's controller" where
  "read_clock c = (ct_clock c (ct_reads c), c\<lparr>ct_reads := ct_reads c + 1\<rparr>)"

definition on_store :: "('s \<Rightarrow> 'a \<times> 's) \<Rightarrow> 's controller \<Rightarrow> 'a \<times> 's controller" where
  "on_store f c = (let (v, s') = f (ct_store c) in (v, c\<lparr>ct_store := s'\<rparr>))"

section \<open>Capacity and delegation to the store\<close>

definition ctl_Stats :: "'s store_ops \<Rightarrow> 's controller \<Rightarrow> stats result \<times> 's controller" where
  "ctl_Stats ops c = on_store (op_Stats ops) c"

definition ctl_Flush :: "'s store_ops \<Rightarrow> 's controller \<Rightarrow> int result \<times> 's controller" where
  "ctl_Flush ops c = on_store (op_Flush ops) c"

definition Capacity :: "'s controller \<Rightarrow> int" where
  "Capacity c = ct_capacity c"

definition ctl_SetCapacity :: "'s store_ops \<Rightarrow> int \<Rightarrow> 's controller \<Rightarrow> unit result \<times> 's controller" where
  "ctl_SetCapacity ops n c =
     (if n < 1 then (Err (''capacity must be >= 1, got '' @ itoa n), c)
      else and_then (on_store (op_SetCapacity ops n) c)
             (\<lambda>_ c. (Ok (), c\<lparr>ct_capacity := n\<rparr>)))"

definition refreshCapacity :: "'s store_ops \<Rightarrow> 's controller \<Rightarrow> unit result \<times> 's controller" where
  "refreshCapacity ops c =
     (case on_store (op_GetCapacity ops) c of
        (Err e, c') \<Rightarrow> (Ok (), c')
      | (Panic, c') \<Rightarrow> (Panic, c')
      | (Ok (n, isset), c') \<Rightarrow>
          if isset \<and> n \<ge> 1 then (Ok (), c'\<lparr>ct_capacity := n\<rparr>)
          else (Ok (), c'\<lparr>ct_capacity := cfg_Capacity (ct_cfg c')\<rparr>))"

section \<open>Reconciling\<close>

definition ctl_reconcile :: "'s store_ops \<Rightarrow> time \<Rightarrow> 's controller \<Rightarrow> unit result \<times> 's controller" where
  "ctl_reconcile ops now c =
     and_then
       (on_store (op_Reconcile ops (Capacity c) (cfg_ActiveTTL (ct_cfg c)) (cfg_QueueTTL (ct_cfg c)) now)
          (c\<lparr>ct_lastReconcile := unix_nano now\<rparr>))
       (\<lambda>res c. (Ok (), c\<lparr>ct_metrics :=
          fold ObserveAdmission (rr_WaitedSecs res) (AddReconcile res (ct_metrics c))\<rparr>))"

definition maybeReconcile :: "'s store_ops \<Rightarrow> time \<Rightarrow> 's controller \<Rightarrow> unit result \<times> 's controller" where
  "maybeReconcile ops now c =
     (let gap = cfg_MinReconcileGap (ct_cfg c)
      in if gap > 0
         then let last = ct_lastReconcile c
              in if s64 (unix_nano now - last) < gap then (Ok (), c)
                 else ctl_reconcile ops now (c\<lparr>ct_lastReconcile := unix_nano now\<rparr>)
         else ctl_reconcile ops now c)"

section \<open>The estimated wait\<close>

definition etaStats :: "'s store_ops \<Rightarrow> 's controller \<Rightarrow> stats result \<times> 's controller" where
  "etaStats ops c =
     (let ttl = cfg_StatsCacheTTL (ct_cfg c)
      in if ttl \<le> 0 then on_store (op_Stats ops) c
         else let (now, c) = read_clock c
              in case ct_statsCache c of
                   Some (stats, cachedAt) \<Rightarrow>
                     if time_sub now cachedAt < ttl then (Ok stats, c)
                     else and_then (on_store (op_Stats ops) c)
                            (\<lambda>stats c. (Ok stats, c\<lparr>ct_statsCache := Some (stats, now)\<rparr>))
                 | None \<Rightarrow>
                     and_then (on_store (op_Stats ops) c)
                       (\<lambda>stats c. (Ok stats, c\<lparr>ct_statsCache := Some (stats, now)\<rparr>)))"

text \<open>
  \<open>time.Duration(position) * avg / time.Duration(capacity)\<close>: the product wraps at 64 bits, the
  division truncates, and dividing by zero panics. The conversion of the average from float is
  exact as long as it fits (an average of less than 292 years).
\<close>

definition eta_value :: "int \<Rightarrow> dur \<Rightarrow> int \<Rightarrow> dur result" where
  "eta_value position avg cap =
     (if cap = 0 then Panic else Ok (s64 (s64 (position * avg) sdiv cap)))"

definition avg_duration :: "dur \<Rightarrow> stats result \<Rightarrow> dur" where
  "avg_duration activeTTL st =
     (case st of
        Ok stats \<Rightarrow> if st_AvgSessionSecs stats > 0
                    then s64 (f_trunc (f_mul (st_AvgSessionSecs stats) (f_of_int second)))
                    else activeTTL
      | _ \<Rightarrow> activeTTL)"

definition eta :: "'s store_ops \<Rightarrow> int \<Rightarrow> 's controller \<Rightarrow> dur result \<times> 's controller" where
  "eta ops position c =
     (let (st, c) = etaStats ops c
      in if st = Panic then (Panic, c)
         else (eta_value position (avg_duration (cfg_ActiveTTL (ct_cfg c)) st) (Capacity c), c))"

definition mk_result :: "'s store_ops \<Rightarrow> decision \<Rightarrow> snapshot \<Rightarrow> 's controller \<Rightarrow> qresult result \<times> 's controller" where
  "mk_result ops d snap c =
     (let res = \<lparr>q_Decision = d, q_Position = sn_Position snap, q_QueueLength = sn_QueueLength snap,
                 q_ActiveCount = sn_ActiveCount snap, q_ETA = 0\<rparr>
      in if d = DecisionWait \<and> sn_Position snap > 0
         then and_then (eta ops (sn_Position snap) c) (\<lambda>e c. (Ok (res\<lparr>q_ETA := e\<rparr>), c))
         else (Ok res, c))"

section \<open>Requests\<close>

definition Check :: "'s store_ops \<Rightarrow> string \<Rightarrow> 's controller \<Rightarrow> qresult result \<times> 's controller" where
  "Check ops ticketID c =
     (let (now, c) = read_clock c
      in and_then (maybeReconcile ops now c) (\<lambda>_ c.
         and_then (on_store (op_Lookup ops ticketID now) c) (\<lambda>snap c.
         case sn_Status snap of
           StatusActive \<Rightarrow>
             and_then (on_store (op_Touch ops ticketID now) c) (\<lambda>_ c.
               mk_result ops DecisionProxy snap c)
         | StatusQueued \<Rightarrow> mk_result ops DecisionWait snap c
         | StatusUnknown \<Rightarrow>
             and_then (on_store (op_TryAdmit ops ticketID (Capacity c) now) c) (\<lambda>admitted c.
             if admitted
             then mk_result ops DecisionProxy
                    (snap\<lparr>sn_Status := StatusActive, sn_ActiveCount := sn_ActiveCount snap + 1\<rparr>)
                    (c\<lparr>ct_metrics := ObserveAdmission 0 (ct_metrics c)\<rparr>)
             else and_then (on_store (op_Enqueue ops ticketID now) c) (\<lambda>snap c.
                    mk_result ops DecisionWait snap c)))))"

definition StatusOf :: "'s store_ops \<Rightarrow> string \<Rightarrow> 's controller \<Rightarrow> qresult result \<times> 's controller" where
  "StatusOf ops ticketID c =
     (let (now, c) = read_clock c
      in and_then (maybeReconcile ops now c) (\<lambda>_ c.
         and_then (on_store (op_Lookup ops ticketID now) c) (\<lambda>snap c.
         case sn_Status snap of
           StatusActive \<Rightarrow> mk_result ops DecisionProxy snap c
         | StatusUnknown \<Rightarrow>
             if sn_ActiveCount snap < Capacity c \<and> sn_QueueLength snap = 0
             then mk_result ops DecisionProxy snap c
             else mk_result ops DecisionWait (snap\<lparr>sn_Position := sn_QueueLength snap + 1\<rparr>) c
         | StatusQueued \<Rightarrow> mk_result ops DecisionWait snap c)))"

section \<open>The janitor\<close>

definition run_interval :: "config \<Rightarrow> dur" where
  "run_interval cfg =
     (let interval = cfg_ActiveTTL cfg sdiv 4;
          interval = (if interval > second then second else interval)
      in if interval \<le> 0 then second else interval)"

text \<open>
  One tick of the ticker: adopt an override, then reconcile at the clock's next reading; an
  error of the reconcile is discarded, a panic is not.
\<close>

definition janitor_tick :: "'s store_ops \<Rightarrow> 's controller \<Rightarrow> unit result \<times> 's controller" where
  "janitor_tick ops c =
     and_then (refreshCapacity ops c) (\<lambda>_ c.
       let (now, c) = read_clock c
       in case ctl_reconcile ops now c of
            (Err e, c') \<Rightarrow> (Ok (), c')
          | out \<Rightarrow> out)"

text \<open>\<open>Run\<close> until the context is done, after as many ticks as there are operations in the list.\<close>

fun janitor_loop :: "'s store_ops list \<Rightarrow> 's controller \<Rightarrow> unit result \<times> 's controller" where
  "janitor_loop [] c = (Ok (), c)"
| "janitor_loop (ops # rest) c = and_then (janitor_tick ops c) (\<lambda>_ c. janitor_loop rest c)"

definition Run :: "'s store_ops \<Rightarrow> 's store_ops list \<Rightarrow> 's controller \<Rightarrow> unit result \<times> 's controller" where
  "Run ops0 ticks c = and_then (refreshCapacity ops0 c) (\<lambda>_ c. janitor_loop ticks c)"

end
