(* ===== verification/ControllerRefine.thy ===== *)
theory ControllerRefine
  imports StoreContract Controller MetricsProps
begin

text \<open>
  The controller on a store that keeps its contract and does not fail: what a request does to the
  waiting room behind the store. \<open>room_visit\<close> is the specification of \<open>Check\<close>, once the room has
  been reconciled; the lemmas are proved once, for every such store, in the locale
  \<open>controlled_store\<close>.
\<close>

section \<open>Specification of a request\<close>

definition room_visit :: "clocking \<Rightarrow> string \<Rightarrow> int \<Rightarrow> int \<Rightarrow> room \<Rightarrow> decision \<times> room" where
  "room_visit ck i cap t r =
     (if is_active r i then (DecisionProxy, r\<lparr>sessions := refresh_session i t (sessions r)\<rparr>)
      else if queued r i then (DecisionWait, r\<lparr>waiting := refresh_waiter i t (waiting r)\<rparr>)
      else if active_count r < cap \<and> waiting r = []
        then (DecisionProxy, r\<lparr>sessions := (sessions r)(i \<mapsto> new_session t)\<rparr>)
      else (DecisionWait, r\<lparr>waiting := waiting r @ [\<lparr>w_id = i, w_enqueued = t, w_seen = t\<rparr>]\<rparr>))"

text \<open>Whether \<open>MinReconcileGap\<close> makes a request skip its reconcile, and the room it then sees.\<close>

definition throttled :: "'s controller \<Rightarrow> time \<Rightarrow> bool" where
  "throttled c now \<longleftrightarrow> cfg_MinReconcileGap (ct_cfg c) > 0 \<and>
     s64 (unix_nano now - ct_lastReconcile c) < cfg_MinReconcileGap (ct_cfg c)"

definition seen_room :: "clocking \<Rightarrow> 's controller \<Rightarrow> time \<Rightarrow> room \<Rightarrow> room" where
  "seen_room ck c now r =
     (if throttled c now then r
      else snd (room_Reconcile ck (Capacity c) (cfg_ActiveTTL (ct_cfg c)) (cfg_QueueTTL (ct_cfg c))
                  (ck_stamp ck now) r))"

text \<open>What no request changes.\<close>

definition same_policy :: "'s controller \<Rightarrow> 's controller \<Rightarrow> bool" where
  "same_policy c c' \<longleftrightarrow> ct_cfg c' = ct_cfg c \<and> ct_capacity c' = ct_capacity c \<and> ct_clock c' = ct_clock c"

lemma same_policy_refl [simp]: "same_policy c c"
  by (simp add: same_policy_def)

lemma same_policy_trans: "same_policy a b \<Longrightarrow> same_policy b c \<Longrightarrow> same_policy a c"
  by (simp add: same_policy_def)

lemma same_policy_updates [simp]:
  "same_policy c (c'\<lparr>ct_store := s\<rparr>) \<longleftrightarrow> same_policy c c'"
  "same_policy c (c'\<lparr>ct_metrics := m\<rparr>) \<longleftrightarrow> same_policy c c'"
  "same_policy c (c'\<lparr>ct_reads := n\<rparr>) \<longleftrightarrow> same_policy c c'"
  "same_policy c (c'\<lparr>ct_lastReconcile := t\<rparr>) \<longleftrightarrow> same_policy c c'"
  "same_policy c (c'\<lparr>ct_statsCache := sc\<rparr>) \<longleftrightarrow> same_policy c c'"
  "same_policy (c\<lparr>ct_store := s\<rparr>) c' \<longleftrightarrow> same_policy c c'"
  "same_policy (c\<lparr>ct_reads := n\<rparr>) c' \<longleftrightarrow> same_policy c c'"
  "same_policy (c\<lparr>ct_lastReconcile := t\<rparr>) c' \<longleftrightarrow> same_policy c c'"
  by (simp_all add: same_policy_def)

lemma Capacity_same: "same_policy c c' \<Longrightarrow> Capacity c' = Capacity c"
  by (simp add: same_policy_def Capacity_def)

lemma on_store_Ok:
  "f (ct_store c) = (Ok v, s') \<Longrightarrow> on_store f c = (Ok v, c\<lparr>ct_store := s'\<rparr>)"
  by (simp add: on_store_def)

section \<open>Facts about visits\<close>

lemma room_visit_inv: "room_inv r \<Longrightarrow> room_inv (snd (room_visit ck i cap t r))"
  by (auto simp: room_visit_def room_inv_def queued_def is_active_def)

lemma room_visit_decision:
  assumes "room_inv r"
  shows "fst (room_visit ck i cap t r) = DecisionProxy \<longleftrightarrow> is_active (snd (room_visit ck i cap t r)) i"
    and "fst (room_visit ck i cap t r) = DecisionWait \<longleftrightarrow> queued (snd (room_visit ck i cap t r)) i"
  using assms
  by (auto simp: room_visit_def room_inv_def queued_def is_active_def refresh_session_def
      split: option.splits)

lemma room_visit_capacity:
  assumes "room_inv r"
  shows "active_count (snd (room_visit ck i cap t r)) \<le> max (active_count r) cap"
  using room_invD(2) [OF assms]
  by (auto simp: room_visit_def active_count_def card_insert_if)

text \<open>A result reports the room the request leaves.\<close>

definition visit_result :: "qresult \<Rightarrow> room \<Rightarrow> string \<Rightarrow> bool" where
  "visit_result res r i \<longleftrightarrow>
     q_Position res = (if q_Decision res = DecisionWait then int (position (waiting r) i) else 0) \<and>
     q_QueueLength res = int (length (waiting r)) \<and> q_ActiveCount res = active_count r"

lemma position_hd: "w_id w = i \<Longrightarrow> position (w # ws) i = 1"
  by (simp add: position_def)

lemma room_visit_position: "position (waiting (snd (room_visit ck i cap t r))) i = position (waiting r) i"
  by (simp add: room_visit_def queued_def position_append position_absent position_hd)

text \<open>The switch of \<open>Check\<close> on the status that \<open>Lookup\<close> returned.\<close>

definition check_switch ::
  "'s store_ops \<Rightarrow> string \<Rightarrow> time \<Rightarrow> snapshot \<Rightarrow> 's controller \<Rightarrow> qresult result \<times> 's controller" where
  "check_switch ops i now snap c =
     (case sn_Status snap of
        StatusActive \<Rightarrow>
          and_then (on_store (op_Touch ops i now) c) (\<lambda>_ c. mk_result ops DecisionProxy snap c)
      | StatusQueued \<Rightarrow> mk_result ops DecisionWait snap c
      | StatusUnknown \<Rightarrow>
          and_then (on_store (op_TryAdmit ops i (Capacity c) now) c) (\<lambda>admitted c.
          if admitted
          then mk_result ops DecisionProxy
                 (snap\<lparr>sn_Status := StatusActive, sn_ActiveCount := sn_ActiveCount snap + 1\<rparr>)
                 (c\<lparr>ct_metrics := ObserveAdmission 0 (ct_metrics c)\<rparr>)
          else and_then (on_store (op_Enqueue ops i now) c) (\<lambda>snap c.
                 mk_result ops DecisionWait snap c)))"

lemma Check_switch:
  "Check ops i c =
     (let (now, c) = read_clock c
      in and_then (maybeReconcile ops now c) (\<lambda>_ c.
         and_then (on_store (op_Lookup ops i now) c) (\<lambda>snap c. check_switch ops i now snap c)))"
  by (simp add: Check_def check_switch_def)

section \<open>On any store that keeps its contract\<close>

text \<open>A store under a controller: the contract as the controller's code relies on it.\<close>

locale controlled_store = reliable_store ops legal inv view ck budget
  for ops :: "'e \<Rightarrow> 's store_ops"
    and legal :: "'e \<Rightarrow> bool"
    and inv :: "'s \<Rightarrow> bool"
    and view :: "'s \<Rightarrow> room"
    and ck :: clocking
    and budget :: "'s \<Rightarrow> nat"
begin

lemma Lookup_run:
  assumes "legal e" "inv s"
  obtains s' where "op_Lookup (ops e) i now s = (Ok (room_snapshot (view s) i), s')" "inv s'"
    "view s' = snd (room_Lookup i (ck_stamp ck now) (view s))" "budget s \<le> budget s'"
proof -
  obtain out s' where out: "op_Lookup (ops e) i now s = (out, s')" by fastforce
  show thesis
    using that [of s'] meets_ok [OF Lookup_law Lookup_ok, OF assms assms, of i now]
      keeps_inv_free [OF assms, of "CLookup i now"] keeps_budget [OF assms, of "CLookup i now"]
    by (simp add: out room_Lookup_def)
qed

lemma Touch_run:
  assumes "legal e" "inv s"
  obtains s' where "op_Touch (ops e) i now s = (Ok (is_active (view s) i), s')" "inv s'"
    "view s' = snd (room_Touch i (ck_stamp ck now) (view s))" "budget s \<le> budget s'"
proof -
  obtain out s' where out: "op_Touch (ops e) i now s = (out, s')" by fastforce
  show thesis
    using that [of s'] meets_ok [OF Touch_law Touch_ok, OF assms assms, of i now]
      keeps_inv_free [OF assms, of "CTouch i now"] keeps_budget [OF assms, of "CTouch i now"]
    by (simp add: out room_Touch_def)
qed

lemma TryAdmit_run:
  assumes "legal e" "inv s"
  obtains s' where
    "op_TryAdmit (ops e) i cap now s = (Ok (fst (room_TryAdmit i cap (ck_stamp ck now) (view s))), s')"
    "inv s'" "view s' = snd (room_TryAdmit i cap (ck_stamp ck now) (view s))" "budget s \<le> budget s'"
proof -
  obtain out s' where out: "op_TryAdmit (ops e) i cap now s = (out, s')" by fastforce
  show thesis
    using that [of s'] meets_ok [OF TryAdmit_law TryAdmit_ok, OF assms assms, of i cap now]
      keeps_inv_free [OF assms, of "CTryAdmit i cap now"]
      keeps_budget [OF assms, of "CTryAdmit i cap now"]
    by (simp add: out)
qed

lemma Enqueue_run:
  assumes "legal e" "inv s" "0 < budget s"
  obtains s' where
    "op_Enqueue (ops e) i now s = (Ok (fst (room_Enqueue ck i (ck_stamp ck now) (view s))), s')"
    "inv s'" "view s' = snd (room_Enqueue ck i (ck_stamp ck now) (view s))" "budget s \<le> budget s' + 1"
proof -
  obtain out s' where out: "op_Enqueue (ops e) i now s = (out, s')" by fastforce
  show thesis
    using that [of s'] meets_ok [OF Enqueue_law Enqueue_ok, OF assms assms, of i now]
      keeps_inv [OF assms, of "CEnqueue i now"] enqueue_budget [OF assms(1,2), of i now]
    by (simp add: out)
qed

lemma Reconcile_run:
  assumes "legal e" "inv s"
  obtains s' where
    "op_Reconcile (ops e) cap aTTL qTTL now s =
       (Ok (fst (room_Reconcile ck cap aTTL qTTL (ck_stamp ck now) (view s))), s')"
    "inv s'" "view s' = snd (room_Reconcile ck cap aTTL qTTL (ck_stamp ck now) (view s))"
    "budget s \<le> budget s'"
proof -
  obtain out s' where out: "op_Reconcile (ops e) cap aTTL qTTL now s = (out, s')" by fastforce
  show thesis
    using that [of s'] meets_ok [OF Reconcile_law Reconcile_ok, OF assms assms, of cap aTTL qTTL now]
      keeps_inv_free [OF assms, of "CReconcile cap aTTL qTTL now"]
      keeps_budget [OF assms, of "CReconcile cap aTTL qTTL now"]
    by (simp add: out)
qed

lemma Stats_run:
  assumes "legal e" "inv s"
  obtains st s' where "op_Stats (ops e) s = (Ok st, s')" "inv s'" "view s' = view s" "budget s \<le> budget s'"
proof -
  obtain out s' where out: "op_Stats (ops e) s = (out, s')" by fastforce
  obtain st where "out = Ok st" using Stats_ok [OF assms] by (auto simp: out is_ok_iff)
  then show thesis
    using that [of st s'] Stats_law [OF assms] keeps_inv_free [OF assms, of CStats]
      keeps_budget [OF assms, of CStats]
    by (simp add: out)
qed

text \<open>The registry's admissions and expirations account for the active tickets.\<close>

definition accounts :: "'s controller \<Rightarrow> bool" where
  "accounts c \<longleftrightarrow> balanced (active_count (view (ct_store c))) (ct_metrics c)"

lemma ctl_reconcile_run:
  fixes now :: time
  assumes "legal e" "inv (ct_store c)"
  defines "spec \<equiv> room_Reconcile ck (Capacity c) (cfg_ActiveTTL (ct_cfg c)) (cfg_QueueTTL (ct_cfg c))
      (ck_stamp ck now) (view (ct_store c))"
  obtains s' where
    "ctl_reconcile (ops e) now c =
       (Ok (), c\<lparr>ct_store := s', ct_lastReconcile := unix_nano now,
          ct_metrics := fold ObserveAdmission (rr_WaitedSecs (fst spec)) (AddReconcile (fst spec) (ct_metrics c))\<rparr>)"
    "inv s'" "view s' = snd spec" "budget (ct_store c) \<le> budget s'"
    "accounts c \<Longrightarrow> balanced (active_count (view s'))
       (fold ObserveAdmission (rr_WaitedSecs (fst spec)) (AddReconcile (fst spec) (ct_metrics c)))"
proof -
  obtain s' where
    "op_Reconcile (ops e) (Capacity c) (cfg_ActiveTTL (ct_cfg c)) (cfg_QueueTTL (ct_cfg c)) now (ct_store c) =
       (Ok (fst spec), s')" "inv s'" "view s' = snd spec" "budget (ct_store c) \<le> budget s'"
    unfolding spec_def by (rule Reconcile_run [OF assms(1,2)])
  moreover have "active_count (snd spec) = active_count (view (ct_store c)) - rr_Expired (fst spec) +
      int (length (rr_WaitedSecs (fst spec)))"
    unfolding spec_def by (rule reconcile_accounts [OF abs_room [OF assms(2)]])
  ultimately show thesis
    using that [of s'] balanced_reconcile [of "active_count (view (ct_store c))" "ct_metrics c" "fst spec"]
    by (simp add: ctl_reconcile_def on_store_def Capacity_def accounts_def)
qed

lemma maybeReconcile_run:
  assumes "legal e" "inv (ct_store c)"
  obtains c' where "maybeReconcile (ops e) now c = (Ok (), c')" "same_policy c c'" "inv (ct_store c')"
    "view (ct_store c') = seen_room ck c now (view (ct_store c))"
    "budget (ct_store c) \<le> budget (ct_store c')" "ct_reads c' = ct_reads c"
    "accounts c \<Longrightarrow> accounts c'"
proof (cases "throttled c now")
  case True
  then show thesis
    using that [of c] assms by (simp add: maybeReconcile_def throttled_def seen_room_def Let_def)
next
  case False
  let ?gap = "cfg_MinReconcileGap (ct_cfg c)"
  let ?c = "if ?gap > 0 then c\<lparr>ct_lastReconcile := unix_nano now\<rparr> else c"
  have run: "maybeReconcile (ops e) now c = ctl_reconcile (ops e) now ?c"
    using False by (auto simp: maybeReconcile_def throttled_def Let_def)
  have sel: "ct_store ?c = ct_store c" "ct_cfg ?c = ct_cfg c" "Capacity ?c = Capacity c"
    "ct_reads ?c = ct_reads c" "same_policy c ?c" "accounts ?c = accounts c"
    by (simp_all add: Capacity_def accounts_def)
  have "inv (ct_store ?c)" using assms(2) by (simp add: sel)
  from ctl_reconcile_run [OF assms(1) this, of now] obtain s' m where
    "ctl_reconcile (ops e) now ?c =
       (Ok (), ?c\<lparr>ct_store := s', ct_lastReconcile := unix_nano now, ct_metrics := m\<rparr>)"
    "inv s'" "view s' = snd (room_Reconcile ck (Capacity ?c) (cfg_ActiveTTL (ct_cfg ?c))
        (cfg_QueueTTL (ct_cfg ?c)) (ck_stamp ck now) (view (ct_store ?c)))"
    "budget (ct_store ?c) \<le> budget s'" "accounts ?c \<Longrightarrow> balanced (active_count (view s')) m" by metis
  then show thesis
    using that [of "?c\<lparr>ct_store := s', ct_lastReconcile := unix_nano now, ct_metrics := m\<rparr>"] False
    by (simp only: run sel) (simp add: sel seen_room_def accounts_def)
qed

lemma etaStats_run:
  assumes "legal e" "inv (ct_store c)"
  obtains st c' where "etaStats (ops e) c = (Ok st, c')" "same_policy c c'" "inv (ct_store c')"
    "view (ct_store c') = view (ct_store c)" "budget (ct_store c) \<le> budget (ct_store c')"
    "ct_metrics c' = ct_metrics c" "ct_lastReconcile c' = ct_lastReconcile c"
proof -
  obtain st s' where st: "op_Stats (ops e) (ct_store c) = (Ok st, s')" "inv s'"
    "view s' = view (ct_store c)" "budget (ct_store c) \<le> budget s'"
    by (rule Stats_run [OF assms])
  show thesis
  proof (cases "cfg_StatsCacheTTL (ct_cfg c) \<le> 0")
    case True
    with st show thesis
      using that [of st "c\<lparr>ct_store := s'\<rparr>"] by (simp add: etaStats_def on_store_def Let_def)
  next
    case False
    let ?now = "ct_clock c (ct_reads c)" and ?c = "c\<lparr>ct_reads := ct_reads c + 1\<rparr>"
    show thesis
    proof (cases "\<exists>v u. ct_statsCache c = Some (v, u) \<and> time_sub ?now u < cfg_StatsCacheTTL (ct_cfg c)")
      case True
      then obtain v u where "ct_statsCache c = Some (v, u)" "time_sub ?now u < cfg_StatsCacheTTL (ct_cfg c)"
        by blast
      with False assms(2) show thesis
        using that [of v ?c] by (simp add: etaStats_def read_clock_def Let_def)
    next
      case miss: False
      then have "etaStats (ops e) c =
          (Ok st, ?c\<lparr>ct_store := s', ct_statsCache := Some (st, ?now)\<rparr>)"
        using False st(1)
        by (auto simp: etaStats_def read_clock_def on_store_def Let_def split: option.splits)
      with st show thesis
        using that [of st "?c\<lparr>ct_store := s', ct_statsCache := Some (st, ?now)\<rparr>"] by simp
    qed
  qed
qed

lemma mk_result_run:
  assumes "legal e" "inv (ct_store c)" "Capacity c \<noteq> 0"
  obtains res c' where "mk_result (ops e) d snap c = (Ok res, c')" "same_policy c c'" "inv (ct_store c')"
    "view (ct_store c') = view (ct_store c)" "budget (ct_store c) \<le> budget (ct_store c')"
    "ct_metrics c' = ct_metrics c"
    "q_Decision res = d" "q_Position res = sn_Position snap" "q_QueueLength res = sn_QueueLength snap"
    "q_ActiveCount res = sn_ActiveCount snap"
proof (cases "d = DecisionWait \<and> sn_Position snap > 0")
  case True
  obtain st c' where st: "etaStats (ops e) c = (Ok st, c')" "same_policy c c'" "inv (ct_store c')"
    "view (ct_store c') = view (ct_store c)" "budget (ct_store c) \<le> budget (ct_store c')"
    "ct_metrics c' = ct_metrics c"
    by (rule etaStats_run [OF assms(1,2)])
  have "eta (ops e) (sn_Position snap) c =
      (Ok (s64 (s64 (sn_Position snap * avg_duration (cfg_ActiveTTL (ct_cfg c')) (Ok st)) sdiv Capacity c')), c')"
    using assms(3) Capacity_same [OF st(2)] by (simp add: eta_def st(1) eta_value_def)
  then show thesis
    using that [of _ c'] st True by (simp add: mk_result_def Let_def)
next
  case False
  let ?res = "\<lparr>q_Decision = d, q_Position = sn_Position snap, q_QueueLength = sn_QueueLength snap,
    q_ActiveCount = sn_ActiveCount snap, q_ETA = 0\<rparr>"
  have "mk_result (ops e) d snap c = (Ok ?res, c)" using False by (auto simp: mk_result_def Let_def)
  then show thesis using that [of ?res c] assms(2) by simp
qed

definition visits ::
  "'s controller \<Rightarrow> qresult result \<times> 's controller \<Rightarrow> string \<Rightarrow> int \<Rightarrow> room \<Rightarrow> nat \<Rightarrow> bool" where
  "visits c out i t r n \<longleftrightarrow>
     (\<exists>res c'. out = (Ok res, c') \<and> same_policy c c' \<and> inv (ct_store c') \<and>
        n \<le> budget (ct_store c') + 1 \<and>
        (q_Decision res, view (ct_store c')) = room_visit ck i (Capacity c) t r \<and>
        (accounts c \<longrightarrow> accounts c') \<and> visit_result res (view (ct_store c')) i)"

lemma mk_result_visits:
  assumes "legal e" "Capacity c \<noteq> 0"
    and "same_policy c c'" "inv (ct_store c')" "n \<le> budget (ct_store c') + 1"
    and "(d, view (ct_store c')) = room_visit ck i (Capacity c) t r"
    and "sn_Position snap = (if d = DecisionWait then int (position (waiting (view (ct_store c'))) i) else 0)"
    and "sn_QueueLength snap = int (length (waiting (view (ct_store c'))))"
    and "sn_ActiveCount snap = active_count (view (ct_store c'))" and "accounts c \<Longrightarrow> accounts c'"
  shows "visits c (mk_result (ops e) d snap c') i t r n"
proof -
  have "Capacity c' \<noteq> 0" using Capacity_same [OF assms(3)] assms(2) by simp
  from mk_result_run [OF assms(1,4) this, of d snap] obtain res c'' where
    "mk_result (ops e) d snap c' = (Ok res, c'')" "same_policy c' c''" "inv (ct_store c'')"
    "view (ct_store c'') = view (ct_store c')" "budget (ct_store c') \<le> budget (ct_store c'')"
    "ct_metrics c'' = ct_metrics c'" "q_Decision res = d" "q_Position res = sn_Position snap" "q_QueueLength res = sn_QueueLength snap"
    "q_ActiveCount res = sn_ActiveCount snap" by metis
  with assms same_policy_trans [OF assms(3), of c''] show ?thesis
    unfolding visits_def by (intro exI [of _ res] exI [of _ c'']) (simp add: visit_result_def accounts_def)
qed

lemma switch_active:
  assumes "legal e" "Capacity c \<noteq> 0" "same_policy c c2" "inv (ct_store c2)" "n \<le> budget (ct_store c2)"
    and acc: "accounts c \<Longrightarrow> balanced (active_count r) (ct_metrics c2)"
    and v2: "view (ct_store c2) = snd (room_Lookup i (ck_stamp ck now) r)"
    and ri: "room_inv r" and st: "room_status r i = StatusActive"
  shows "visits c (check_switch (ops e) i now (room_snapshot r i) c2) i (ck_stamp ck now) r n"
proof -
  let ?t = "ck_stamp ck now"
  have act: "is_active r i" using st by (simp add: room_status_def split: if_splits)
  then have nq: "\<not> queued r i" using ri by (auto simp: room_inv_def queued_def is_active_def)
  obtain s3 where 3: "op_Touch (ops e) i now (ct_store c2) = (Ok (is_active (view (ct_store c2)) i), s3)"
    "inv s3" "view s3 = snd (room_Touch i ?t (view (ct_store c2)))" "budget (ct_store c2) \<le> budget s3"
    by (rule Touch_run [OF assms(1,4)])
  have v: "view s3 = r\<lparr>sessions := refresh_session i ?t (sessions r)\<rparr>"
    using nq unfolding 3(3) v2
    by (auto simp: room_Touch_def room_Lookup_def refresh_waiter_absent queued_def
        refresh_session_def fun_eq_iff split: option.splits)
  have "check_switch (ops e) i now (room_snapshot r i) c2 =
      mk_result (ops e) DecisionProxy (room_snapshot r i) (c2\<lparr>ct_store := s3\<rparr>)"
    using st 3(1) by (simp add: check_switch_def room_snapshot_def on_store_def)
  moreover have "visits c (mk_result (ops e) DecisionProxy (room_snapshot r i) (c2\<lparr>ct_store := s3\<rparr>)) i ?t r n"
    by (rule mk_result_visits [OF assms(1,2)])
      (use act st assms(3,5) 3(2,4) v acc in
        \<open>simp_all add: room_visit_def room_snapshot_def active_count_def accounts_def\<close>)
  ultimately show ?thesis by simp
qed

lemma switch_queued:
  assumes "legal e" "Capacity c \<noteq> 0" "same_policy c c2" "inv (ct_store c2)" "n \<le> budget (ct_store c2)"
    and acc: "accounts c \<Longrightarrow> balanced (active_count r) (ct_metrics c2)"
    and v2: "view (ct_store c2) = snd (room_Lookup i (ck_stamp ck now) r)"
    and st: "room_status r i = StatusQueued"
  shows "visits c (check_switch (ops e) i now (room_snapshot r i) c2) i (ck_stamp ck now) r n"
proof -
  have q: "queued r i" "\<not> is_active r i" using st by (simp_all add: room_status_def split: if_splits)
  then have v: "view (ct_store c2) = r\<lparr>waiting := refresh_waiter i (ck_stamp ck now) (waiting r)\<rparr>"
    unfolding v2 by (simp add: room_Lookup_def refresh_session_absent is_active_def)
  have "visits c (mk_result (ops e) DecisionWait (room_snapshot r i) c2) i (ck_stamp ck now) r n"
    by (rule mk_result_visits [OF assms(1-4)])
      (use q st assms(5) acc v in
        \<open>simp_all add: room_visit_def room_snapshot_def active_count_def accounts_def\<close>)
  with st show ?thesis by (simp add: check_switch_def room_snapshot_def)
qed

lemma switch_unknown:
  assumes "legal e" "Capacity c \<noteq> 0" "same_policy c c2" "inv (ct_store c2)" "n \<le> budget (ct_store c2)"
    and acc: "accounts c \<Longrightarrow> balanced (active_count r) (ct_metrics c2)"
    and v2: "view (ct_store c2) = snd (room_Lookup i (ck_stamp ck now) r)"
    and ri: "room_inv r" and st: "room_status r i = StatusUnknown" and pos: "0 < n"
  shows "visits c (check_switch (ops e) i now (room_snapshot r i) c2) i (ck_stamp ck now) r n"
proof -
  let ?t = "ck_stamp ck now" and ?cap = "Capacity c"
  have cap: "Capacity c2 = ?cap" by (rule Capacity_same [OF assms(3)])
  have u: "\<not> queued r i" "\<not> is_active r i" using st by (simp_all add: room_status_def split: if_splits)
  then have v2': "view (ct_store c2) = r"
    unfolding v2
    by (simp add: room_Lookup_def refresh_session_absent refresh_waiter_absent is_active_def queued_def)
  obtain s3 where 3:
    "op_TryAdmit (ops e) i ?cap now (ct_store c2) = (Ok (fst (room_TryAdmit i ?cap ?t r)), s3)"
    "inv s3" "view s3 = snd (room_TryAdmit i ?cap ?t r)" "budget (ct_store c2) \<le> budget s3"
    using TryAdmit_run [OF assms(1,4), of i ?cap now] v2' by metis
  show ?thesis
  proof (cases "active_count r < ?cap \<and> waiting r = []")
    case True
    let ?c3 = "c2\<lparr>ct_store := s3, ct_metrics := ObserveAdmission 0 (ct_metrics c2)\<rparr>"
      and ?snap = "(room_snapshot r i)\<lparr>sn_Status := StatusActive,
        sn_ActiveCount := sn_ActiveCount (room_snapshot r i) + 1\<rparr>"
    have v: "view s3 = r\<lparr>sessions := (sessions r)(i \<mapsto> new_session ?t)\<rparr>"
      using u True unfolding 3(3) by (simp add: room_TryAdmit_def)
    have "i \<notin> dom (sessions r)" using u(2) by (simp add: is_active_def domIff)
    then have cnt: "active_count (view s3) = active_count r + 1"
      using room_invD(2) [OF ri] by (simp add: v active_count_def)
    have "check_switch (ops e) i now (room_snapshot r i) c2 = mk_result (ops e) DecisionProxy ?snap ?c3"
      using st 3(1) True u cap
      by (simp add: check_switch_def room_snapshot_def on_store_def room_TryAdmit_def)
    moreover have "visits c (mk_result (ops e) DecisionProxy ?snap ?c3) i ?t r n"
      by (rule mk_result_visits [OF assms(1,2)])
        (use u True st assms(3,5) 3(2,4) v cnt balanced_observe [OF acc] in
          \<open>simp_all add: room_visit_def room_snapshot_def accounts_def\<close>)
    ultimately show ?thesis by simp
  next
    case False
    then have no: "\<not> fst (room_TryAdmit i ?cap ?t r)" and v3: "view s3 = r"
      using u unfolding 3(3) by (auto simp: room_TryAdmit_def)
    have "0 < budget s3" using assms(5) 3(4) pos by simp
    then obtain s4 where 4: "op_Enqueue (ops e) i now s3 = (Ok (fst (room_Enqueue ck i ?t r)), s4)" "inv s4"
      "view s4 = snd (room_Enqueue ck i ?t r)" "budget s3 \<le> budget s4 + 1"
      using Enqueue_run [OF assms(1) 3(2), of i now] v3 by metis
    have v: "view s4 = r\<lparr>waiting := waiting r @ [\<lparr>w_id = i, w_enqueued = ?t, w_seen = ?t\<rparr>]\<rparr>"
      using u unfolding 4(3) by (simp add: room_Enqueue_def Let_def)
    have "fst (room_Enqueue ck i ?t r) = room_snapshot (view s4) i"
      unfolding 4(3) by (simp add: room_Enqueue_def Let_def)
    then have "check_switch (ops e) i now (room_snapshot r i) c2 =
        mk_result (ops e) DecisionWait (room_snapshot (view s4) i) (c2\<lparr>ct_store := s4\<rparr>)"
      using st 3(1) 4(1) no cap by (simp add: check_switch_def room_snapshot_def on_store_def)
    moreover have "room_status (view s4) i = StatusQueued"
      using u by (simp add: v room_status_def is_active_def queued_def)
    then have "visits c (mk_result (ops e) DecisionWait (room_snapshot (view s4) i) (c2\<lparr>ct_store := s4\<rparr>)) i ?t r n"
      by (intro mk_result_visits [OF assms(1,2)])
        (use u False assms(3,5) 3(4) 4(2,4) v acc in
          \<open>auto simp: room_visit_def room_snapshot_def active_count_def accounts_def\<close>)
    ultimately show ?thesis by simp
  qed
qed

lemma Check_run:
  fixes c :: "'s controller" and i :: string
  assumes "legal e" "inv (ct_store c)" "0 < budget (ct_store c)" "Capacity c \<noteq> 0"
  defines "now \<equiv> ct_clock c (ct_reads c)"
  defines "r \<equiv> seen_room ck c now (view (ct_store c))"
  shows "visits c (Check (ops e) i c) i (ck_stamp ck now) r (budget (ct_store c))"
proof -
  let ?c0 = "c\<lparr>ct_reads := ct_reads c + 1\<rparr>" and ?t = "ck_stamp ck now"
  have "inv (ct_store ?c0)" using assms(2) by simp
  from maybeReconcile_run [OF assms(1) this, of now] obtain c1 where 1:
    "maybeReconcile (ops e) now ?c0 = (Ok (), c1)" "same_policy ?c0 c1" "inv (ct_store c1)"
    "view (ct_store c1) = seen_room ck ?c0 now (view (ct_store ?c0))"
    "budget (ct_store ?c0) \<le> budget (ct_store c1)" "accounts ?c0 \<Longrightarrow> accounts c1" by metis
  have r: "view (ct_store c1) = r"
    unfolding 1(4) by (simp add: r_def seen_room_def throttled_def Capacity_def)
  obtain s2 where 2: "op_Lookup (ops e) i now (ct_store c1) = (Ok (room_snapshot r i), s2)" "inv s2"
    "view s2 = snd (room_Lookup i ?t r)" "budget (ct_store c1) \<le> budget s2"
    using Lookup_run [OF assms(1) 1(3), of i now] r by metis
  let ?c2 = "c1\<lparr>ct_store := s2\<rparr>"
  have clock: "read_clock c = (now, ?c0)" by (simp add: read_clock_def now_def)
  have "Check (ops e) i c = check_switch (ops e) i now (room_snapshot r i) ?c2"
    using 1(1) 2(1) by (simp add: Check_switch clock on_store_def)
  moreover have "same_policy c ?c2" "inv (ct_store ?c2)" "budget (ct_store c) \<le> budget (ct_store ?c2)"
    "view (ct_store ?c2) = snd (room_Lookup i ?t r)" "room_inv r"
    "accounts c \<Longrightarrow> balanced (active_count r) (ct_metrics ?c2)"
    using 1(2,5,6) 2 abs_room [OF 1(3)] r by (simp_all add: accounts_def)
  ultimately show ?thesis
    using switch_active [OF assms(1,4)] switch_queued [OF assms(1,4)]
      switch_unknown [OF assms(1,4)] assms(3)
    by (cases "room_status r i") simp_all
qed

lemma StatusOf_run:
  fixes c :: "'s controller" and i :: string
  assumes "legal e" "inv (ct_store c)" "Capacity c \<noteq> 0"
  defines "now \<equiv> ct_clock c (ct_reads c)"
  defines "r \<equiv> seen_room ck c now (view (ct_store c))"
  obtains res c' where "StatusOf (ops e) i c = (Ok res, c')" "same_policy c c'" "inv (ct_store c')"
    "budget (ct_store c) \<le> budget (ct_store c')"
    "view (ct_store c') = snd (room_Lookup i (ck_stamp ck now) r)"
    "q_Decision res = fst (room_visit ck i (Capacity c) (ck_stamp ck now) r)"
    "q_Position res = (if q_Decision res = DecisionWait then int (position (waiting r) i) else 0)"
    "q_QueueLength res = int (length (waiting r))" "q_ActiveCount res = active_count r"
    "accounts c \<Longrightarrow> accounts c'"
proof -
  let ?c0 = "c\<lparr>ct_reads := ct_reads c + 1\<rparr>" and ?t = "ck_stamp ck now"
  have "inv (ct_store ?c0)" using assms(2) by simp
  from maybeReconcile_run [OF assms(1) this, of now] obtain c1 where 1:
    "maybeReconcile (ops e) now ?c0 = (Ok (), c1)" "same_policy ?c0 c1" "inv (ct_store c1)"
    "view (ct_store c1) = seen_room ck ?c0 now (view (ct_store ?c0))"
    "budget (ct_store ?c0) \<le> budget (ct_store c1)" "accounts ?c0 \<Longrightarrow> accounts c1" by metis
  have r: "view (ct_store c1) = r"
    unfolding 1(4) by (simp add: r_def seen_room_def throttled_def Capacity_def)
  obtain s2 where 2: "op_Lookup (ops e) i now (ct_store c1) = (Ok (room_snapshot r i), s2)" "inv s2"
    "view s2 = snd (room_Lookup i ?t r)" "budget (ct_store c1) \<le> budget s2"
    using Lookup_run [OF assms(1) 1(3), of i now] r by metis
  let ?c2 = "c1\<lparr>ct_store := s2\<rparr>"
  have pol: "same_policy c ?c2" using 1(2) by simp
  have cap: "Capacity ?c2 = Capacity c" by (rule Capacity_same [OF pol])
  define d where "d = fst (room_visit ck i (Capacity c) ?t r)"
  define snap where "snap = (room_snapshot r i)\<lparr>sn_Position :=
    (if d = DecisionWait then int (position (waiting r) i) else 0)\<rparr>"
  have clock: "read_clock c = (now, ?c0)" by (simp add: read_clock_def now_def)
  have "StatusOf (ops e) i c = mk_result (ops e) d snap ?c2"
    using 1(1) 2(1) cap position_absent [of i "waiting r"]
    by (cases "room_status r i")
      (auto simp: add.commute StatusOf_def clock on_store_def room_snapshot_def snap_def d_def room_visit_def
        room_status_def queued_def Capacity_def split: if_splits)
  moreover from mk_result_run [of e ?c2 d snap] obtain res c' where
    "mk_result (ops e) d snap ?c2 = (Ok res, c')" "same_policy ?c2 c'" "inv (ct_store c')"
    "view (ct_store c') = view (ct_store ?c2)" "budget (ct_store ?c2) \<le> budget (ct_store c')"
    "q_Decision res = d" "q_Position res = sn_Position snap" "q_QueueLength res = sn_QueueLength snap"
    "q_ActiveCount res = sn_ActiveCount snap" "ct_metrics c' = ct_metrics ?c2"
    using assms(1,3) 2(2) cap by (metis controller.select_convs(1) controller.update_convs(1)
        controller.surjective)
  moreover have "accounts ?c2" if "accounts c"
    using 1(6) that 2(3) r by (simp add: accounts_def room_Lookup_def active_count_def)
  ultimately show thesis
    using that [of res c'] same_policy_trans [OF pol, of c'] 1(5) 2(3,4)
    by (simp add: snap_def room_snapshot_def d_def accounts_def)
qed

section \<open>Capacity and the janitor\<close>

lemma refreshCapacity_run:
  assumes "legal e" "inv (ct_store c)" "\<And>n. override (view (ct_store c)) = Some n \<Longrightarrow> ck_carries ck n"
  obtains s' n where "refreshCapacity (ops e) c = (Ok (), c\<lparr>ct_store := s', ct_capacity := n\<rparr>)"
    "inv s'" "view s' = view (ct_store c)" "budget (ct_store c) \<le> budget s'"
    "n = (case override (view (ct_store c)) of Some m \<Rightarrow> if m \<ge> 1 then m else cfg_Capacity (ct_cfg c)
          | None \<Rightarrow> cfg_Capacity (ct_cfg c))"
proof -
  obtain out s' where out: "op_GetCapacity (ops e) (ct_store c) = (out, s')" by fastforce
  obtain n isset where v: "out = Ok (n, isset)"
    using GetCapacity_ok [OF assms] by (auto simp: out is_ok_iff)
  have law: "view s' = view (ct_store c)"
    "override (view (ct_store c)) = (if isset then Some n else None)"
    using GetCapacity_law [OF assms(1,2)] by (simp_all add: out v split: if_splits)
  have frame: "inv s'" "budget (ct_store c) \<le> budget s'"
    using keeps_inv_free [OF assms(1,2), of CGetCapacity] keeps_budget [OF assms(1,2), of CGetCapacity]
    by (simp_all add: out)
  let ?n = "if isset \<and> n \<ge> 1 then n else cfg_Capacity (ct_cfg c)"
  have "refreshCapacity (ops e) c = (Ok (), c\<lparr>ct_store := s', ct_capacity := ?n\<rparr>)"
    by (simp add: refreshCapacity_def on_store_def out v)
  then show thesis
    by (rule that [of ?n s']) (simp_all add: law frame)
qed

lemma SetCapacity_run:
  assumes "legal e" "inv (ct_store c)" "1 \<le> n"
  obtains s' where "ctl_SetCapacity (ops e) n c = (Ok (), c\<lparr>ct_store := s', ct_capacity := n\<rparr>)"
    "inv s'" "view s' = (view (ct_store c))\<lparr>override := Some n\<rparr>" "budget (ct_store c) \<le> budget s'"
proof -
  obtain out s' where out: "op_SetCapacity (ops e) n (ct_store c) = (out, s')" by fastforce
  note law = meets_ok [OF SetCapacity_law SetCapacity_ok, OF assms(1,2) assms(1,2), of n, unfolded out]
    and frame = keeps_inv_free [OF assms(1,2), of "CSetCapacity n"]
      keeps_budget [OF assms(1,2), of "CSetCapacity n"]
  show thesis
    using that [of s'] law frame assms(3) by (simp add: ctl_SetCapacity_def on_store_def out)
qed

end

end
