(* ===== verification/ControllerRun.thy ===== *)
theory ControllerRun
  imports ControllerRefine
begin

text \<open>
  Sequences of requests against one controller: gatekeeper checks, status polls, janitor ticks
  and the admin operations, in any order. On every reliable store such a run never panics,
  never drives the capacity below one and never admits more tickets than the largest capacity
  that was ever configured.
\<close>

datatype request =
    RCheck string \<comment> \<open>a proxied request: \<open>Check\<close>\<close>
  | RStatus string \<comment> \<open>a poll of the waiting page: \<open>StatusOf\<close>\<close>
  | RTick \<comment> \<open>one tick of the janitor's loop in \<open>Run\<close>\<close>
  | RSetCapacity int \<comment> \<open>the admin endpoint or the prober: \<open>SetCapacity\<close>\<close>
  | RStats \<comment> \<open>the metrics and admin endpoints: \<open>Stats\<close>\<close>
  | RFlush \<comment> \<open>the admin endpoint: \<open>Flush\<close>\<close>

text \<open>Serving a request: whether it ended without a panic, and the controller after it.\<close>

definition no_panic :: "'a result \<times> 'c \<Rightarrow> bool \<times> 'c" where
  "no_panic out = (fst out \<noteq> Panic, snd out)"

fun serve :: "'s store_ops \<Rightarrow> request \<Rightarrow> 's controller \<Rightarrow> bool \<times> 's controller" where
  "serve ops (RCheck i) c = no_panic (Check ops i c)"
| "serve ops (RStatus i) c = no_panic (StatusOf ops i c)"
| "serve ops RTick c = no_panic (janitor_tick ops c)"
| "serve ops (RSetCapacity n) c = no_panic (ctl_SetCapacity ops n c)"
| "serve ops RStats c = no_panic (ctl_Stats ops c)"
| "serve ops RFlush c = no_panic (ctl_Flush ops c)"

fun serve_all :: "('e \<Rightarrow> 's store_ops) \<Rightarrow> ('e \<times> request) list \<Rightarrow> 's controller \<Rightarrow> bool \<times> 's controller" where
  "serve_all ops [] c = (True, c)"
| "serve_all ops ((e, q) # qs) c =
     (let (ok, c) = serve (ops e) q c; (oks, c) = serve_all ops qs c in (ok \<and> oks, c))"

lemma seen_room_inv: "room_inv r \<Longrightarrow> room_inv (seen_room ck c now r)"
  using room_inv_exec [of r ck "CReconcile (Capacity c) (cfg_ActiveTTL (ct_cfg c)) (cfg_QueueTTL (ct_cfg c)) now"]
  by (simp add: seen_room_def)

lemma seen_room_override [simp]: "override (seen_room ck c now r) = override r"
  by (simp add: seen_room_def room_Reconcile_sel)

lemma seen_room_count:
  "room_inv r \<Longrightarrow> active_count (seen_room ck c now r) \<le> max (active_count r) (Capacity c)"
  using active_count_exec [of r ck "CReconcile (Capacity c) (cfg_ActiveTTL (ct_cfg c)) (cfg_QueueTTL (ct_cfg c)) now"]
  by (simp add: seen_room_def)

lemma room_visit_override [simp]: "override (snd (room_visit ck i cap t r)) = override r"
  by (simp add: room_visit_def)

context controlled_store
begin

text \<open>The invariant of a run in which every capacity set is at most \<open>C\<close>.\<close>

definition bounded :: "int \<Rightarrow> 's controller \<Rightarrow> bool" where
  "bounded C c \<longleftrightarrow> inv (ct_store c) \<and> 1 \<le> Capacity c \<and> Capacity c \<le> C \<and>
     1 \<le> cfg_Capacity (ct_cfg c) \<and> cfg_Capacity (ct_cfg c) \<le> C \<and>
     active_count (view (ct_store c)) \<le> C \<and>
     (\<forall>n. override (view (ct_store c)) = Some n \<longrightarrow> n \<le> C \<and> ck_carries ck n) \<and>
     (\<forall>n. 1 \<le> n \<and> n \<le> C \<longrightarrow> ck_carries ck n) \<and> accounts c"

definition serves_well :: "int \<Rightarrow> 's controller \<Rightarrow> bool \<times> 's controller \<Rightarrow> bool" where
  "serves_well C c out \<longleftrightarrow> fst out \<and> bounded C (snd out) \<and>
     budget (ct_store c) \<le> budget (ct_store (snd out)) + 1"

lemma boundedI:
  assumes "bounded C c" "same_policy c c'" "inv (ct_store c')"
    "active_count (view (ct_store c')) \<le> C" "override (view (ct_store c')) = override (view (ct_store c))"
    "accounts c \<Longrightarrow> accounts c'"
  shows "bounded C c'"
  using assms by (simp add: bounded_def same_policy_def Capacity_def)

lemma serve_Check:
  assumes "legal e" "bounded C c" "0 < budget (ct_store c)"
  shows "serves_well C c (serve (ops e) (RCheck i) c)"
proof -
  let ?r = "seen_room ck c (ct_clock c (ct_reads c)) (view (ct_store c))"
  have B: "inv (ct_store c)" "Capacity c \<noteq> 0" "Capacity c \<le> C" "active_count (view (ct_store c)) \<le> C"
    using assms(2) by (auto simp: bounded_def)
  obtain res c' where v: "Check (ops e) i c = (Ok res, c')" "same_policy c c'" "inv (ct_store c')"
    "budget (ct_store c) \<le> budget (ct_store c') + 1"
    "view (ct_store c') = snd (room_visit ck i (Capacity c) (ck_stamp ck (ct_clock c (ct_reads c))) ?r)"
    "accounts c \<longrightarrow> accounts c'"
    using Check_run [OF assms(1) B(1) assms(3) B(2), of i] unfolding visits_def by (metis snd_conv)
  have "active_count (view (ct_store c')) \<le> C"
    using room_visit_capacity [OF seen_room_inv [OF abs_room [OF B(1)]], of ck i "Capacity c"]
      seen_room_count [OF abs_room [OF B(1)], of ck c "ct_clock c (ct_reads c)"] B(3,4)
    unfolding v(5) by (meson max.bounded_iff order.trans)
  moreover have "override (view (ct_store c')) = override (view (ct_store c))" by (simp add: v(5))
  ultimately show ?thesis
    using boundedI [OF assms(2) v(2,3)] v(1,4,6) by (simp add: serves_well_def no_panic_def)
qed

lemma serve_Status:
  assumes "legal e" "bounded C c"
  shows "serves_well C c (serve (ops e) (RStatus i) c)"
proof -
  let ?r = "seen_room ck c (ct_clock c (ct_reads c)) (view (ct_store c))"
  have B: "inv (ct_store c)" "Capacity c \<noteq> 0" "Capacity c \<le> C" "active_count (view (ct_store c)) \<le> C"
    using assms(2) by (auto simp: bounded_def)
  obtain res c' where v: "StatusOf (ops e) i c = (Ok res, c')" "same_policy c c'" "inv (ct_store c')"
    "budget (ct_store c) \<le> budget (ct_store c')"
    "view (ct_store c') = snd (room_Lookup i (ck_stamp ck (ct_clock c (ct_reads c))) ?r)"
    "accounts c \<Longrightarrow> accounts c'"
    using StatusOf_run [OF assms(1) B(1,2), of i] by metis
  have "active_count (view (ct_store c')) = active_count ?r"
    by (simp add: v(5) room_Lookup_def active_count_def)
  then have "active_count (view (ct_store c')) \<le> C"
    using seen_room_count [OF abs_room [OF B(1)], of ck c "ct_clock c (ct_reads c)"] B(3,4) by simp
  moreover have "override (view (ct_store c')) = override (view (ct_store c))"
    by (simp add: v(5) room_Lookup_def)
  ultimately show ?thesis
    using boundedI [OF assms(2) v(2,3)] v(1,4,6) by (simp add: serves_well_def no_panic_def)
qed

lemma janitor_tick_run:
  fixes c :: "'s controller"
  assumes "legal e" "inv (ct_store c)" "\<And>n. override (view (ct_store c)) = Some n \<Longrightarrow> ck_carries ck n"
  defines "n \<equiv> case override (view (ct_store c)) of
      Some m \<Rightarrow> if m \<ge> 1 then m else cfg_Capacity (ct_cfg c) | None \<Rightarrow> cfg_Capacity (ct_cfg c)"
  obtains c' where "janitor_tick (ops e) c = (Ok (), c')" "inv (ct_store c')" "Capacity c' = n"
    "ct_cfg c' = ct_cfg c" "budget (ct_store c) \<le> budget (ct_store c')"
    "view (ct_store c') = snd (room_Reconcile ck n (cfg_ActiveTTL (ct_cfg c)) (cfg_QueueTTL (ct_cfg c))
        (ck_stamp ck (ct_clock c (ct_reads c))) (view (ct_store c)))"
    "accounts c \<longrightarrow> accounts c'"
proof -
  obtain s1 k where k: "k = n" and 0: "refreshCapacity (ops e) c = (Ok (), c\<lparr>ct_store := s1, ct_capacity := k\<rparr>)"
    "inv s1" "view s1 = view (ct_store c)" "budget (ct_store c) \<le> budget s1"
    unfolding n_def by (rule refreshCapacity_run [OF assms(1-3)])
  note 1 = 0 [unfolded k]
  let ?now = "ct_clock c (ct_reads c)"
  let ?c1 = "c\<lparr>ct_store := s1, ct_capacity := n, ct_reads := ct_reads c + 1\<rparr>"
  have "inv (ct_store ?c1)" using 1(2) by simp
  from ctl_reconcile_run [OF assms(1) this, of ?now] obtain s2 m where
    "ctl_reconcile (ops e) ?now ?c1 =
       (Ok (), ?c1\<lparr>ct_store := s2, ct_lastReconcile := unix_nano ?now, ct_metrics := m\<rparr>)"
    "inv s2" "view s2 = snd (room_Reconcile ck (Capacity ?c1) (cfg_ActiveTTL (ct_cfg ?c1))
       (cfg_QueueTTL (ct_cfg ?c1)) (ck_stamp ck ?now) (view (ct_store ?c1)))"
    "budget (ct_store ?c1) \<le> budget s2"
    "accounts ?c1 \<Longrightarrow> balanced (active_count (view s2)) m" by metis
  with 1 show thesis
    using that [of "?c1\<lparr>ct_store := s2, ct_lastReconcile := unix_nano ?now, ct_metrics := m\<rparr>"]
    by (simp add: janitor_tick_def read_clock_def Capacity_def accounts_def)
qed

lemma serve_Tick:
  assumes "legal e" "bounded C c"
  shows "serves_well C c (serve (ops e) RTick c)"
proof -
  define n where "n = (case override (view (ct_store c)) of
      Some m \<Rightarrow> if m \<ge> 1 then m else cfg_Capacity (ct_cfg c) | None \<Rightarrow> cfg_Capacity (ct_cfg c))"
  let ?call = "CReconcile n (cfg_ActiveTTL (ct_cfg c)) (cfg_QueueTTL (ct_cfg c)) (ct_clock c (ct_reads c))"
  have B: "inv (ct_store c)" "active_count (view (ct_store c)) \<le> C" using assms(2) by (auto simp: bounded_def)
  have carries: "\<And>n. override (view (ct_store c)) = Some n \<Longrightarrow> ck_carries ck n"
    using assms(2) by (simp add: bounded_def)
  have n: "1 \<le> n" "n \<le> C" using assms(2) by (auto simp: bounded_def n_def split: option.splits)
  obtain c' where t: "janitor_tick (ops e) c = (Ok (), c')" "inv (ct_store c')" "Capacity c' = n"
    "ct_cfg c' = ct_cfg c" "budget (ct_store c) \<le> budget (ct_store c')"
    "view (ct_store c') = snd (room_Reconcile ck n (cfg_ActiveTTL (ct_cfg c)) (cfg_QueueTTL (ct_cfg c))
        (ck_stamp ck (ct_clock c (ct_reads c))) (view (ct_store c)))"
    "accounts c \<longrightarrow> accounts c'"
    by (rule janitor_tick_run [OF assms(1) B(1) carries, folded n_def])
  note t6 = t(6) [folded room_exec.simps(5)]
  have "active_count (view (ct_store c')) \<le> C"
    using active_count_exec [OF abs_room [OF B(1)], of ck ?call] B(2) n(2) unfolding t6 call_cap.simps
    by simp
  moreover have "override (view (ct_store c')) = override (view (ct_store c))"
    unfolding t(6) by (simp add: room_Reconcile_sel)
  ultimately show ?thesis
    using assms(2) t(1-5,7) n by (simp add: serves_well_def no_panic_def bounded_def)
qed

lemma serve_SetCapacity:
  assumes "legal e" "bounded C c" "n \<le> C"
  shows "serves_well C c (serve (ops e) (RSetCapacity n) c)"
proof (cases "1 \<le> n")
  case True
  have B: "inv (ct_store c)" using assms(2) by (auto simp: bounded_def)
  obtain s' where "ctl_SetCapacity (ops e) n c = (Ok (), c\<lparr>ct_store := s', ct_capacity := n\<rparr>)"
    "inv s'" "view s' = (view (ct_store c))\<lparr>override := Some n\<rparr>" "budget (ct_store c) \<le> budget s'"
    by (rule SetCapacity_run [OF assms(1) B True])
  with assms True show ?thesis
    by (simp add: serves_well_def no_panic_def bounded_def Capacity_def active_count_def accounts_def)
qed (use assms in \<open>simp add: serves_well_def no_panic_def ctl_SetCapacity_def\<close>)

lemma serve_Stats:
  assumes "legal e" "bounded C c"
  shows "serves_well C c (serve (ops e) RStats c)"
proof -
  have B: "inv (ct_store c)" using assms(2) by (auto simp: bounded_def)
  obtain st s' where "op_Stats (ops e) (ct_store c) = (Ok st, s')" "inv s'"
    "view s' = view (ct_store c)" "budget (ct_store c) \<le> budget s'"
    by (rule Stats_run [OF assms(1) B])
  with assms(2) show ?thesis
    by (simp add: serves_well_def no_panic_def bounded_def Capacity_def ctl_Stats_def on_store_def accounts_def)
qed

lemma serve_Flush:
  assumes "legal e" "bounded C c"
  shows "serves_well C c (serve (ops e) RFlush c)"
proof -
  have B: "inv (ct_store c)" using assms(2) by (auto simp: bounded_def)
  obtain out s' where out: "op_Flush (ops e) (ct_store c) = (out, s')" by fastforce
  have "out = Ok (int (length (waiting (view (ct_store c)))))" "view s' = (view (ct_store c))\<lparr>waiting := []\<rparr>"
    "inv s'" "budget (ct_store c) \<le> budget s'"
    using meets_ok [OF Flush_law Flush_ok, OF assms(1) B assms(1) B]
      keeps_inv_free [OF assms(1) B, of CFlush] keeps_budget [OF assms(1) B, of CFlush]
    by (simp_all add: out room_Flush_def)
  with assms(2) out show ?thesis
    by (simp add: serves_well_def no_panic_def bounded_def Capacity_def ctl_Flush_def on_store_def
        active_count_def accounts_def)
qed

lemma serve_bounded:
  assumes "legal e" "bounded C c" "\<And>i. q = RCheck i \<Longrightarrow> 0 < budget (ct_store c)"
    "\<And>n. q = RSetCapacity n \<Longrightarrow> n \<le> C"
  shows "serves_well C c (serve (ops e) q c)"
  using assms(3) serve_Check [OF assms(1,2)] serve_Status [OF assms(1,2)] serve_Tick [OF assms(1,2)]
    serve_SetCapacity [OF assms(1,2)] serve_Stats [OF assms(1,2)] serve_Flush [OF assms(1,2)] assms(4)
  by (cases q) blast+

lemma serve_all_bounded:
  assumes "bounded C c" "length qs \<le> budget (ct_store c)" "\<forall>(e, q) \<in> set qs. legal e"
    and "\<forall>(e, q) \<in> set qs. \<forall>n. q = RSetCapacity n \<longrightarrow> n \<le> C"
  shows "fst (serve_all ops qs c) \<and> bounded C (snd (serve_all ops qs c))"
  using assms
proof (induction qs arbitrary: c)
  case (Cons p qs)
  obtain e q where p: "p = (e, q)" by fastforce
  have "serves_well C c (serve (ops e) q c)"
    using Cons.prems by (intro serve_bounded) (auto simp: p)
  then have "fst (serve (ops e) q c)" "bounded C (snd (serve (ops e) q c))"
    "length qs \<le> budget (ct_store (snd (serve (ops e) q c)))"
    using Cons.prems(2) by (auto simp: serves_well_def)
  with Cons.IH [of "snd (serve (ops e) q c)"] Cons.prems(3,4) show ?case
    by (simp add: p split_beta Let_def)
qed simp

text \<open>The janitor alone: whatever it does, it ends every tick with the room as full as it can be.\<close>

definition effective :: "'s controller \<Rightarrow> int" where
  "effective c = (case override (view (ct_store c)) of
     Some m \<Rightarrow> if m \<ge> 1 then m else cfg_Capacity (ct_cfg c) | None \<Rightarrow> cfg_Capacity (ct_cfg c))"

lemma janitor_loop_run:
  assumes "\<forall>e \<in> set es. legal e" "inv (ct_store c)"
    and "\<And>n. override (view (ct_store c)) = Some n \<Longrightarrow> ck_carries ck n"
  shows "\<exists>c'. janitor_loop (map ops es) c = (Ok (), c') \<and> inv (ct_store c') \<and>
    (es \<noteq> [] \<longrightarrow> Capacity c' = effective c \<and>
       (waiting (view (ct_store c')) = [] \<or> effective c \<le> active_count (view (ct_store c'))))"
  using assms
proof (induction es arbitrary: c)
  case (Cons e es)
  have e: "legal e" and es: "\<forall>e \<in> set es. legal e" using Cons.prems(1) by auto
  obtain c1 where 1: "janitor_tick (ops e) c = (Ok (), c1)" "inv (ct_store c1)"
    "Capacity c1 = effective c" "ct_cfg c1 = ct_cfg c"
    "view (ct_store c1) = snd (room_Reconcile ck (effective c) (cfg_ActiveTTL (ct_cfg c))
        (cfg_QueueTTL (ct_cfg c)) (ck_stamp ck (ct_clock c (ct_reads c))) (view (ct_store c)))"
    by (rule janitor_tick_run [OF e Cons.prems(2,3), folded effective_def])
  have full: "waiting (view (ct_store c1)) = [] \<or> effective c \<le> active_count (view (ct_store c1))"
    unfolding 1(5) by (rule reconcile_work_conserving [OF abs_room [OF Cons.prems(2)]])
  have over: "override (view (ct_store c1)) = override (view (ct_store c))"
    unfolding 1(5) room_Reconcile_sel ..
  have "effective c1 = effective c" 
    unfolding effective_def 1(4,5) room_Reconcile_sel ..
  with Cons.IH [OF es 1(2)] 1(1-3) full Cons.prems(3) over show ?case by (cases es) auto
qed simp

end

end
