(* ===== verification/ControllerProps.thy ===== *)
theory ControllerProps
  imports ControllerRun MemoryAverage
begin

text \<open>
  What the controller of \<^verbatim>\<open>controller.go\<close> guarantees on the in-process store of \<^verbatim>\<open>memory.go\<close>:
  the lemmas of \<open>ControllerRefine\<close> and \<open>ControllerRun\<close>, through the interpretation of the store
  contract, stated on the state of the code; and what it guarantees on any store (the throttle,
  the estimated wait, the interval of the janitor).
\<close>

interpretation gate: controlled_store memory_ops range_ok mem_inv mem_abs memory_clocking mem_budget
  by unfold_locales

section \<open>Check\<close>

definition demo_cfg :: config where
  "demo_cfg = \<lparr>cfg_Capacity = 1, cfg_ActiveTTL = 10 * second, cfg_QueueTTL = 10 * second,
     cfg_MinReconcileGap = 0, cfg_StatsCacheTTL = 0\<rparr>"

definition demo_ctl :: "mem_store controller" where
  "demo_ctl = new_controller demo demo_cfg (\<lambda>n. 3 * second)"

lemma demo_ctl_sel [simp]:
  "ct_store demo_ctl = demo" "ct_cfg demo_ctl = demo_cfg" "Capacity demo_ctl = 1"
  "ct_clock demo_ctl n = 3 * second" "ct_reads demo_ctl = 0" "ct_capacity demo_ctl = 1"
  by (simp_all add: demo_ctl_def new_controller_def Capacity_def demo_cfg_def)

lemma demo_ctl_ok: "mem_inv (ct_store demo_ctl)" "0 < mem_budget (ct_store demo_ctl)"
  by (simp_all add: mem_inv_demo mem_budget_demo)

text \<open>
  C3: \<open>Check\<close> implements the visit of the abstract waiting room: after the reconcile (which a
  throttled request skips), an active ticket is proxied and its heartbeat refreshed, a queued one
  waits at its place, a new one is admitted when nobody waits and a slot is free and otherwise
  joins the tail. It never fails on the in-process store.
\<close>

theorem check_refines_visit:
  assumes "range_ok ord" and "mem_inv (ct_store c)" and "0 < mem_budget (ct_store c)" and "1 \<le> Capacity c"
  shows "\<exists>res c'. Check (memory_ops ord) i c = (Ok res, c') \<and> mem_inv (ct_store c') \<and>
    (q_Decision res, mem_abs (ct_store c')) =
      room_visit memory_clocking i (Capacity c) (ct_clock c (ct_reads c))
        (seen_room memory_clocking c (ct_clock c (ct_reads c)) (mem_abs (ct_store c))) \<and>
    Capacity c' = Capacity c \<and> ct_cfg c' = ct_cfg c"
  using gate.Check_run [OF assms(1-3), of i] assms(4)
  by (fastforce simp: gate.visits_def same_policy_def Capacity_def)

theorem check_refines_visit_witness:
  "\<exists>res c'. Check (memory_ops sorted_range) ''c'' demo_ctl = (Ok res, c') \<and> mem_inv (ct_store c')"
  using check_refines_visit [OF range_ok_sorted_range demo_ctl_ok, of "''c''"] by auto

text \<open>The decision of \<open>Check\<close> and the store it leaves, read off the visit of the room.\<close>

lemma check_report:
  assumes "range_ok ord" and "mem_inv (ct_store c)" and "0 < mem_budget (ct_store c)" and "1 \<le> Capacity c"
    and "Check (memory_ops ord) i c = (out, c')"
  shows "\<exists>res. out = Ok res \<and>
    (q_Decision res = DecisionProxy \<longleftrightarrow> status_of (ct_store c') i = StatusActive) \<and>
    (q_Decision res = DecisionWait \<longleftrightarrow> status_of (ct_store c') i = StatusQueued) \<and>
    (q_Decision res = DecisionWait \<longrightarrow> 1 \<le> q_Position res \<and> q_Position res \<le> q_QueueLength res \<and>
       queue_ids (ct_store c') ! nat (q_Position res - 1) = i) \<and>
    q_QueueLength res = int (length (queue (ct_store c'))) \<and> q_ActiveCount res = active (ct_store c')"
proof -
  let ?now = "ct_clock c (ct_reads c)" and ?s = "ct_store c'"
  let ?r = "seen_room memory_clocking c ?now (mem_abs (ct_store c))"
  obtain res where res: "out = Ok res" "mem_inv ?s" "visit_result res (mem_abs ?s) i"
    "(q_Decision res, mem_abs ?s) = room_visit memory_clocking i (Capacity c) ?now ?r"
    using gate.Check_run [OF assms(1-3), of i] assms(4,5) by (auto simp: gate.visits_def)
  have "fst (room_visit memory_clocking i (Capacity c) ?now ?r) = q_Decision res"
    "snd (room_visit memory_clocking i (Capacity c) ?now ?r) = mem_abs ?s"
    unfolding res(4) [symmetric] by simp_all
  note dec = room_visit_decision [OF seen_room_inv [OF mem_abs_room_inv [OF assms(2)]],
      of memory_clocking i "Capacity c" ?now memory_clocking c ?now, unfolded this is_active_status queued_mem
      queued_status [OF res(2)]]
  have pos: "1 \<le> q_Position res \<and> q_Position res \<le> int (length (queue ?s)) \<and>
      queue_ids ?s ! nat (q_Position res - 1) = i" if wait: "q_Decision res = DecisionWait"
  proof -
    have "i \<in> set (queue_ids ?s)" using dec(2) wait queued_status [OF res(2)] by simp
    then obtain k where k: "k < length (queue ?s)" "queue_ids ?s ! k = i"
      by (auto simp: in_set_conv_nth queue_ids_def)
    with position_queue_ids [OF res(2) k(1)] res(3) wait show ?thesis
      by (simp add: visit_result_def del: mem_abs_sel(1))
  qed
  show ?thesis
    using res(1,3) dec pos mem_invD(2) [OF res(2)] by (simp add: visit_result_def)
qed

text \<open>
  C13: The answer of \<open>Check\<close> is the truth about the store it leaves: it proxies exactly the
  tickets that are active then, and makes wait exactly those in the queue, at the place it
  reports; the queue length and the active count are those of the store.
\<close>

theorem check_reports_the_store:
  assumes "range_ok ord" and "mem_inv (ct_store c)" and "0 < mem_budget (ct_store c)" and "1 \<le> Capacity c"
    and "Check (memory_ops ord) i c = (out, c')"
  shows "\<exists>res. out = Ok res \<and>
    (q_Decision res = DecisionProxy \<longleftrightarrow> status_of (ct_store c') i = StatusActive) \<and>
    (q_Decision res = DecisionWait \<longleftrightarrow> status_of (ct_store c') i = StatusQueued) \<and>
    (q_Decision res = DecisionWait \<longrightarrow> 1 \<le> q_Position res \<and> q_Position res \<le> q_QueueLength res \<and>
       queue_ids (ct_store c') ! nat (q_Position res - 1) = i) \<and>
    q_QueueLength res = int (length (queue (ct_store c'))) \<and> q_ActiveCount res = active (ct_store c')"
  using assms by (rule check_report)

theorem check_reports_the_store_witness:
  "\<exists>res. fst (Check (memory_ops sorted_range) ''d'' demo_ctl) = Ok res \<and>
     q_ActiveCount res = active (ct_store (snd (Check (memory_ops sorted_range) ''d'' demo_ctl)))"
  using check_reports_the_store [OF range_ok_sorted_range demo_ctl_ok _ prod.collapse [symmetric],
      of "''d''"] by auto

text \<open>
  C21: \<open>StatusOf\<close> and \<open>Check\<close> begin with the same reconcile, which may promote the heads of the queue,
  the polling ticket among them. Beyond that \<open>StatusOf\<close> changes neither the queue nor the set of active
  tickets, and a ticket that the store does not know stays unknown, where \<open>Check\<close> would enqueue or admit
  it. Its answer is what \<open>Check\<close> of the same ticket at the same time would decide, with the same
  position.
\<close>

theorem status_predicts_check:
  assumes "range_ok ord" and "mem_inv (ct_store c)" and "0 < mem_budget (ct_store c)" and "1 \<le> Capacity c"
    and "StatusOf (memory_ops ord) i c = (out, c1)" and "Check (memory_ops ord) i c = (out', c2)"
  defines "r \<equiv> seen_room memory_clocking c (ct_clock c (ct_reads c)) (mem_abs (ct_store c))"
  shows "queue_ids (ct_store c1) = ids (waiting r) \<and>
    {j. status_of (ct_store c1) j = StatusActive} = dom (sessions r) \<and>
    (\<forall>j. status_of (ct_store c) j = StatusUnknown \<longrightarrow> status_of (ct_store c1) j = StatusUnknown) \<and>
    (\<exists>res res'. out = Ok res \<and> out' = Ok res' \<and> q_Decision res = q_Decision res' \<and>
       q_Position res = q_Position res')"
proof -
  let ?now = "ct_clock c (ct_reads c)"
  have cap: "Capacity c \<noteq> 0" using assms(4) by simp
  obtain res where res: "out = Ok res" "mem_inv (ct_store c1)"
    "mem_abs (ct_store c1) = snd (room_Lookup i ?now r)"
    "q_Decision res = fst (room_visit memory_clocking i (Capacity c) ?now r)"
    "q_Position res = (if q_Decision res = DecisionWait then int (position (waiting r) i) else 0)"
    using gate.StatusOf_run [OF assms(1,2) cap, of i] assms(5) unfolding r_def
    by (metis Pair_inject memory_clocking_simps(1))
  obtain res' where res': "out' = Ok res'" "visit_result res' (mem_abs (ct_store c2)) i"
    "(q_Decision res', mem_abs (ct_store c2)) = room_visit memory_clocking i (Capacity c) ?now r"
    using gate.Check_run [OF assms(1-3) cap, of i] assms(6) by (auto simp: gate.visits_def r_def)
  have d: "q_Decision res = q_Decision res'" using res(4) res'(3) by (metis fst_conv)
  have "mem_abs (ct_store c2) = snd (room_visit memory_clocking i (Capacity c) ?now r)"
    using res'(3) by (metis snd_conv)
  then have "position (waiting (mem_abs (ct_store c2))) i = position (waiting r) i"
    by (simp only: room_visit_position)
  with d res(5) res'(2) have "q_Position res = q_Position res'"
    by (simp add: visit_result_def del: mem_abs_sel(1))
  moreover have "queue_ids (ct_store c1) = ids (waiting r)"
    unfolding queue_ids_room [OF res(3)] by (simp add: room_Lookup_def)
  moreover have "{j. status_of (ct_store c1) j = StatusActive} = dom (sessions r)"
    unfolding is_active_status [symmetric] res(3) is_active_def
    by (subst dom_refresh_session [of i ?now, symmetric]) (simp add: room_Lookup_def dom_def)
  moreover have "status_of (ct_store c1) j = StatusUnknown" if "status_of (ct_store c) j = StatusUnknown" for j
  proof -
    have "j \<notin> set (ids (waiting (mem_abs (ct_store c)))) \<and> j \<notin> dom (sessions (mem_abs (ct_store c)))"
      using that unknown_status [OF assms(2)] by blast
    then have "j \<notin> set (ids (waiting r)) \<and> j \<notin> dom (sessions r)"
      using room_Reconcile_strangers [OF mem_abs_room_inv [OF assms(2)] _ _ refl]
      unfolding r_def seen_room_def by presburger
    then show ?thesis
      unfolding unknown_status [OF res(2)] res(3) by (simp add: room_Lookup_def)
  qed
  ultimately show ?thesis using res(1) res'(1) d by blast
qed

theorem status_predicts_check_witness:
  "\<exists>res res'. fst (StatusOf (memory_ops sorted_range) ''d'' demo_ctl) = Ok res \<and>
     fst (Check (memory_ops sorted_range) ''d'' demo_ctl) = Ok res' \<and> q_Position res = q_Position res'"
  using status_predicts_check [OF range_ok_sorted_range demo_ctl_ok _ prod.collapse [symmetric]
      prod.collapse [symmetric], of "''d''"] by auto

section \<open>Runs of requests\<close>

lemma bounded_start:
  assumes "1 \<le> cfg_Capacity cfg" "cfg_Capacity cfg \<le> C"
  shows "gate.bounded C (SetMetrics (Some (new_registry v)) (new_controller New cfg now))"
  using assms mem_inv_New
  by (simp add: gate.bounded_def SetMetrics_def new_controller_def Capacity_def gate.accounts_def
      balanced_def new_registry_def active_count_def mem_abs_New empty_room_def s64_def
      del: mem_abs_sel)

text \<open>
  The whole gate, over any sequence of requests (proxied requests, status polls, janitor
  ticks, capacity changes, flushes, scrapes) from a fresh start, under any clock, even one that
  jumps: nothing panics, the capacity stays at least one, and no more tickets are active than
  the largest capacity configured.
\<close>

lemma gate_never_overfills:
  assumes "1 \<le> cfg_Capacity cfg" and "cfg_Capacity cfg \<le> C" and "length qs \<le> 2 ^ 63 - 2"
    and "\<forall>(ord, q) \<in> set qs. range_ok ord"
    and "\<forall>(ord, q) \<in> set qs. \<forall>n. q = RSetCapacity n \<longrightarrow> n \<le> C"
    and "serve_all memory_ops qs (SetMetrics (Some (new_registry v)) (new_controller New cfg now)) = (ok, c)"
  shows "ok \<and> mem_inv (ct_store c) \<and> active (ct_store c) \<le> C \<and> 1 \<le> Capacity c \<and> Capacity c \<le> C"
proof -
  have "fst (ok, c) \<and> gate.bounded C (snd (ok, c))"
    unfolding assms(6) [symmetric]
    by (rule gate.serve_all_bounded [OF bounded_start [OF assms(1,2)]])
      (use assms(3-5) in \<open>simp_all add: SetMetrics_def new_controller_def mem_budget_New\<close>)
  then show ?thesis by (simp add: gate.bounded_def mem_invD(2) del: mem_abs_sel)
qed

text \<open>
  C24: The counters account for the room: over any such run, admissions less expirations is the
  number of active tickets (as 64-bit counters), so every admission, direct or by promotion, and
  every expiration is counted exactly once.
\<close>

theorem admissions_account_for_active:
  assumes "1 \<le> cfg_Capacity cfg" and "cfg_Capacity cfg \<le> C" and "length qs \<le> 2 ^ 63 - 2"
    and "\<forall>(ord, q) \<in> set qs. range_ok ord"
    and "\<forall>(ord, q) \<in> set qs. \<forall>n. q = RSetCapacity n \<longrightarrow> n \<le> C"
    and "serve_all memory_ops qs (SetMetrics (Some (new_registry v)) (new_controller New cfg now)) = (ok, c)"
    and "ct_metrics c = Some m"
  shows "m_admissions m = s64 (active (ct_store c) + m_expirations m)"
proof -
  have "fst (ok, c) \<and> gate.bounded C (snd (ok, c))"
    unfolding assms(6) [symmetric]
    by (rule gate.serve_all_bounded [OF bounded_start [OF assms(1,2)]])
      (use assms(3-5) in \<open>simp_all add: SetMetrics_def new_controller_def mem_budget_New\<close>)
  then show ?thesis
    using assms(7) by (simp add: gate.bounded_def gate.accounts_def balanced_def mem_invD(2) del: mem_abs_sel)
qed

definition demo_gate :: "mem_store controller" where
  "demo_gate = SetMetrics (Some (new_registry ''v1'')) (new_controller New demo_cfg (\<lambda>n. 0))"

lemma demo_gate_metrics:
  "\<exists>m. ct_metrics (snd (serve_all memory_ops [(sorted_range, RCheck ''a'')] demo_gate)) = Some m \<and>
     m_expirations m = 0"
  by (simp add: demo_gate_def SetMetrics_def new_controller_def demo_cfg_def no_panic_def Check_def
      read_clock_def maybeReconcile_def ctl_reconcile_def on_store_def Reconcile_def New_def
      sorted_range_def pruneHolesLocked_def promoteHeads.simps zero_reconcile_result_def
      AddReconcile_def new_registry_def Lookup_def TryAdmit_def mem_prims ObserveAdmission_def
      mk_result_def Capacity_def Let_def s64_def)

theorem admissions_account_for_active_witness:
  "\<exists>m. ct_metrics (snd (serve_all memory_ops [(sorted_range, RCheck ''a'')] demo_gate)) = Some m \<and>
     m_admissions m = s64 (active (ct_store (snd (serve_all memory_ops [(sorted_range, RCheck ''a'')] demo_gate))))"
proof -
  obtain m where m: "ct_metrics (snd (serve_all memory_ops [(sorted_range, RCheck ''a'')] demo_gate)) = Some m"
    "m_expirations m = 0" using demo_gate_metrics by blast
  then show ?thesis
    using admissions_account_for_active [of demo_cfg 1, OF _ _ _ _ _
        prod.collapse [symmetric] m(1) [unfolded demo_gate_def]]
    by (simp add: demo_cfg_def range_ok_sorted_range demo_gate_def del: serve_all.simps)
qed

section \<open>Capacity\<close>

text \<open>
  C26: \<open>SetCapacity\<close> refuses a capacity below one and then changes nothing; otherwise it takes
  effect at once, is written through to the store, and every other controller on the same store
  adopts it at its next janitor tick, filling the new slots at once.
\<close>

theorem capacity_propagates:
  assumes "range_ok ord" and "mem_inv (ct_store c1)" and "ctl_SetCapacity (memory_ops ord) n c1 = (out, c1')"
  shows "(n < 1 \<longrightarrow> c1' = c1 \<and> out = Err (''capacity must be >= 1, got '' @ itoa n)) \<and>
    (1 \<le> n \<longrightarrow> out = Ok () \<and> Capacity c1' = n \<and>
      (\<forall>c2. ct_store c2 = ct_store c1' \<longrightarrow>
        (let (out2, c2') = janitor_tick (memory_ops ord) c2
         in out2 = Ok () \<and> Capacity c2' = n \<and>
            (queue (ct_store c2') = [] \<or> n \<le> active (ct_store c2')))))"
proof (cases "1 \<le> n")
  case True
  obtain s' where s': "ctl_SetCapacity (memory_ops ord) n c1 = (Ok (), c1\<lparr>ct_store := s', ct_capacity := n\<rparr>)"
    "mem_inv s'" "mem_abs s' = (mem_abs (ct_store c1))\<lparr>override := Some n\<rparr>"
    by (rule gate.SetCapacity_run [OF assms(1,2) True])
  have "case janitor_tick (memory_ops ord) c2 of (out2, c2') \<Rightarrow> out2 = Ok () \<and> Capacity c2' = n \<and>
      (queue (ct_store c2') = [] \<or> n \<le> active (ct_store c2'))" if c2: "ct_store c2 = s'" for c2
  proof -
    have inv: "mem_inv (ct_store c2)" and o: "override (mem_abs (ct_store c2)) = Some n"
      using s' c2 by (simp_all del: mem_abs_sel)
    have pick: "(case override (mem_abs (ct_store c2)) of
        Some m \<Rightarrow> if m \<ge> 1 then m else cfg_Capacity (ct_cfg c2) | None \<Rightarrow> cfg_Capacity (ct_cfg c2)) = n"
      unfolding o using True by simp
    obtain c2' where t: "janitor_tick (memory_ops ord) c2 = (Ok (), c2')" "mem_inv (ct_store c2')"
      "Capacity c2' = n"
      "mem_abs (ct_store c2') = snd (room_Reconcile memory_clocking n (cfg_ActiveTTL (ct_cfg c2))
         (cfg_QueueTTL (ct_cfg c2)) (ck_stamp memory_clocking (ct_clock c2 (ct_reads c2))) (mem_abs (ct_store c2)))"
      by (rule gate.janitor_tick_run [OF assms(1) inv memory_clocking_simps(5), unfolded pick])
    have "waiting (mem_abs (ct_store c2')) = [] \<or> n \<le> active_count (mem_abs (ct_store c2'))"
      unfolding t(4) by (rule reconcile_work_conserving [OF mem_abs_room_inv [OF inv]])
    then show ?thesis using t(1,3) mem_invD(2) [OF t(2)] by simp
  qed
  then show ?thesis using True s'(1) assms(3) by (auto simp: Capacity_def)
next
  case False
  then show ?thesis using assms(3) by (simp add: ctl_SetCapacity_def)
qed

theorem capacity_propagates_witness:
  "Capacity (snd (ctl_SetCapacity (memory_ops sorted_range) 4 demo_ctl)) = 4 \<and>
   fst (ctl_SetCapacity (memory_ops sorted_range) 0 demo_ctl) \<noteq> Ok ()"
  using capacity_propagates [OF range_ok_sorted_range demo_ctl_ok(1) prod.collapse [symmetric], of 4]
    capacity_propagates [OF range_ok_sorted_range demo_ctl_ok(1) prod.collapse [symmetric], of 0]
  by simp

text \<open>
  C27: The janitor keeps the queue draining without any traffic: \<open>Run\<close> ends without error or panic
  however many ticks it makes, and after the last one the capacity in force is the store's
  override (or the configured value when there is none) and no slot is free while somebody waits.
\<close>

theorem janitor_drains_the_queue:
  assumes "mem_inv (ct_store c)" and "range_ok ord" and "\<forall>ord' \<in> set ords. range_ok ord'"
    and "Run (memory_ops ord) (map memory_ops ords) c = (out, c')" and "ords \<noteq> []"
  shows "out = Ok () \<and> mem_inv (ct_store c') \<and>
    Capacity c' = (if capacitySet (ct_store c) \<and> capacity (ct_store c) \<ge> 1
                   then capacity (ct_store c) else cfg_Capacity (ct_cfg c)) \<and>
    (queue (ct_store c') = [] \<or> Capacity c' \<le> active (ct_store c'))"
proof -
  obtain s' n where 1: "refreshCapacity (memory_ops ord) c = (Ok (), c\<lparr>ct_store := s', ct_capacity := n\<rparr>)"
    "mem_inv s'" "mem_abs s' = mem_abs (ct_store c)"
    by (rule gate.refreshCapacity_run [OF assms(2,1) memory_clocking_simps(5)])
  let ?c = "c\<lparr>ct_store := s', ct_capacity := n\<rparr>"
  have "mem_inv (ct_store ?c)" using 1(2) by simp
  from gate.janitor_loop_run [OF assms(3) this memory_clocking_simps(5)] assms(5) obtain c'' where
    2: "janitor_loop (map memory_ops ords) ?c = (Ok (), c'')" "mem_inv (ct_store c'')"
    "Capacity c'' = gate.effective ?c"
    "waiting (mem_abs (ct_store c'')) = [] \<or> gate.effective ?c \<le> active_count (mem_abs (ct_store c''))"
    by blast
  have "gate.effective ?c = (if capacitySet (ct_store c) \<and> capacity (ct_store c) \<ge> 1
      then capacity (ct_store c) else cfg_Capacity (ct_cfg c))"
    by (simp add: gate.effective_def 1(3) del: mem_abs_sel(1,2))
  with 1(1) 2 assms(4) mem_invD(2) [OF 2(2)] show ?thesis by (simp add: Run_def)
qed

theorem janitor_drains_the_queue_witness:
  "fst (Run (memory_ops sorted_range) (map memory_ops [sorted_range, sorted_range]) demo_ctl) = Ok ()"
  using janitor_drains_the_queue [OF _ range_ok_sorted_range _ prod.collapse [symmetric],
      of demo_ctl "[sorted_range, sorted_range]"] demo_ctl_ok(1) range_ok_sorted_range by simp

text \<open>
  The janitor's ticker always has a legal, prompt interval: positive (a non-positive one would
  panic in \<open>time.NewTicker\<close>), at most a second, and at most a quarter of the session
  time-to-live when that is at least four nanoseconds.
\<close>

lemma janitor_interval_bounds:
  "0 < run_interval cfg \<and> run_interval cfg \<le> second \<and>
   (4 \<le> cfg_ActiveTTL cfg \<longrightarrow> 4 * run_interval cfg \<le> cfg_ActiveTTL cfg)"
proof (cases "4 \<le> cfg_ActiveTTL cfg")
  case True
  then have "cfg_ActiveTTL cfg sdiv 4 = cfg_ActiveTTL cfg div 4" by (simp add: sdiv_nonneg)
  moreover have "4 * (cfg_ActiveTTL cfg div 4) \<le> cfg_ActiveTTL cfg" "0 < cfg_ActiveTTL cfg div 4"
    "second < cfg_ActiveTTL cfg div 4 \<Longrightarrow> 4 * second \<le> cfg_ActiveTTL cfg"
    using True by linarith+
  ultimately show ?thesis by (simp add: run_interval_def Let_def)
qed (simp add: run_interval_def Let_def)

section \<open>The throttle\<close>

text \<open>
  On any store: once a request has triggered a reconcile, every request within
  \<open>MinReconcileGap\<close> of it leaves the store alone.
\<close>

lemma throttle_spaces_reconciles:
  assumes "0 < cfg_MinReconcileGap (ct_cfg c)" and "\<not> throttled c now"
    and "maybeReconcile ops now c = (out, c')"
    and "in_s64 now" and "in_s64 now'" and "now \<le> now'" and "now' - now < cfg_MinReconcileGap (ct_cfg c)"
    and "in_s64 (cfg_MinReconcileGap (ct_cfg c))"
  shows "maybeReconcile ops' now' c' = (Ok (), c')"
proof -
  have run: "maybeReconcile ops now c = ctl_reconcile ops now (c\<lparr>ct_lastReconcile := unix_nano now\<rparr>)"
    using assms(1,2) by (auto simp: maybeReconcile_def throttled_def Let_def)
  have c': "ct_lastReconcile c' = now" "ct_cfg c' = ct_cfg c"
    using assms(3,4) unfolding run
    by (auto simp: ctl_reconcile_def on_store_def and_then_def unix_nano_def split: prod.splits result.splits)
  have "in_s64 (now' - now)" using assms(6-8) by (auto simp: in_s64_def)
  then show ?thesis using assms(1,5,7) by (simp add: maybeReconcile_def c' unix_nano_def)
qed

section \<open>The estimated wait\<close>

lemma eta_value_exact:
  assumes "1 \<le> cap" "0 \<le> p" "0 \<le> avg" "p * avg < 2 ^ 63"
  shows "eta_value p avg cap = Ok (p * avg div cap)"
proof -
  have "0 \<le> p * avg" using assms by simp
  moreover have "p * avg div cap \<le> p * avg" using assms calculation zdiv_mono2 [of "p * avg" 1 cap] by simp
  moreover have "0 \<le> p * avg div cap" using assms calculation by (simp add: pos_imp_zdiv_nonneg_iff)
  ultimately show ?thesis
    using assms by (simp add: eta_value_def in_s64_nonneg sdiv_nonneg)
qed

text \<open>
  C39: While position times average fits 64 bits, the estimate of a waiting request is exactly
  position times the average session length over the capacity, rounded down, where the average is
  the measured one once a session has ended and the session time-to-live before.
\<close>

theorem eta_formula:
  fixes c :: "mem_store controller" and p :: int
  defines "avg \<equiv> if 0 < avgSession (ct_store c)
                 then s64 (floor (f_mul (avgSession (ct_store c)) (f_of_int second)))
                 else cfg_ActiveTTL (ct_cfg c)"
  assumes "cfg_StatsCacheTTL (ct_cfg c) \<le> 0" and "1 \<le> Capacity c"
    and "0 \<le> p" and "0 \<le> avg" and "p * avg < 2 ^ 63"
  shows "eta (memory_ops ord) p c = (Ok (p * avg div Capacity c), c)"
proof -
  have "etaStats (memory_ops ord) c = (Ok \<lparr>st_QueueLength = int (length (queue (ct_store c))),
      st_ActiveCount = active (ct_store c), st_AvgSessionSecs = avgSession (ct_store c)\<rparr>, c)"
    using assms(2) by (simp add: etaStats_def on_store_def Stats_def)
  moreover have "0 \<le> f_mul (avgSession (ct_store c)) (f_of_int second)" if "0 < avgSession (ct_store c)"
    using that by (intro f_mul_nonneg f_of_int_nonneg) simp_all
  ultimately show ?thesis
    using eta_value_exact [OF assms(3-6)]
    by (simp add: eta_def avg_duration_def f_trunc_def avg_def split: if_splits)
qed

theorem eta_formula_witness:
  "eta (memory_ops sorted_range) 2 demo_ctl = (Ok (20 * second), demo_ctl)"
  using eta_formula [of demo_ctl 2 sorted_range] by (simp add: demo_cfg_def demo_state)

text \<open>
  The estimate never runs backwards: with the same average, a ticket further back is told to
  wait at least as long, and a larger capacity never lengthens the wait, while the products fit
  64 bits.
\<close>

lemma eta_monotone:
  assumes "1 \<le> cap" and "cap \<le> cap'" and "0 \<le> p" and "p \<le> p'" and "0 \<le> avg" and "p' * avg < 2 ^ 63"
  shows "\<exists>d d' d''. eta_value p avg cap = Ok d \<and> eta_value p' avg cap = Ok d' \<and>
    eta_value p' avg cap' = Ok d'' \<and> 0 \<le> d \<and> d \<le> d' \<and> d'' \<le> d'"
proof -
  have le: "p * avg \<le> p' * avg" using assms by (simp add: mult_right_mono)
  have "0 \<le> p' * avg" using assms by simp
  then have "p' * avg div cap' \<le> p' * avg div cap" using assms by (intro zdiv_mono2) simp_all
  moreover have "p * avg div cap \<le> p' * avg div cap" using le assms by (intro zdiv_mono1) simp_all
  moreover have "0 \<le> p * avg div cap" using assms by (simp add: pos_imp_zdiv_nonneg_iff)
  ultimately show ?thesis
    using eta_value_exact [of cap p avg] eta_value_exact [of cap p' avg] eta_value_exact [of cap' p' avg]
      assms le by simp
qed

text \<open>
  Beyond 64 bits the product wraps: once position times the average reaches \<open>2 ^ 63\<close>
  nanoseconds (and up to twice that), the estimate comes out negative or zero.
\<close>

lemma eta_overflow_is_negative:
  assumes "1 \<le> cap" and "2 ^ 63 \<le> p * avg" and "p * avg < 2 ^ 64"
  shows "\<exists>d. eta_value p avg cap = Ok d \<and> d \<le> 0"
proof -
  have w: "s64 (p * avg) = p * avg - 2 ^ 64"
    using assms(2,3) mod_add_self2 [of "p * avg - 2 ^ 63" "2 ^ 64"]
    by (simp add: s64_def add.commute)
  let ?n = "2 ^ 64 - p * avg"
  have n: "0 < ?n" "?n \<le> 2 ^ 63" using assms by simp_all
  have "s64 (p * avg) sdiv cap = - (?n div cap)"
    using n(1) assms(1) by (simp add: w signed_divide_int_def)
  moreover have "0 \<le> ?n div cap" "?n div cap \<le> ?n"
    using n(1) assms(1) zdiv_mono2 [of ?n 1 cap] by (simp_all add: pos_imp_zdiv_nonneg_iff)
  moreover from this n(2) have "in_s64 (- (?n div cap))" by (simp add: in_s64_def)
  ultimately show ?thesis using assms(1) by (simp add: eta_value_def)
qed

text \<open>
  On any store: the statistics behind an estimate are never older than \<open>StatsCacheTTL\<close>:
  \<open>etaStats\<close> answers from the cache, leaving the store alone, only within that time, and otherwise
  asks the store and remembers the answer with the time of the reading.
\<close>

lemma eta_stats_never_stale:
  assumes "0 < cfg_StatsCacheTTL (ct_cfg c)" and "etaStats ops c = (Ok st, c')"
  shows "\<exists>t. ct_statsCache c' = Some (st, t) \<and>
    time_sub (ct_clock c (ct_reads c)) t < cfg_StatsCacheTTL (ct_cfg c) \<and>
    (ct_store c' = ct_store c \<and> ct_statsCache c' = ct_statsCache c \<or>
     t = ct_clock c (ct_reads c) \<and> op_Stats ops (ct_store c) = (Ok st, ct_store c'))"
proof -
  let ?now = "ct_clock c (ct_reads c)" and ?ttl = "cfg_StatsCacheTTL (ct_cfg c)"
  show ?thesis
  proof (cases "\<exists>v t. ct_statsCache c = Some (v, t) \<and> time_sub ?now t < ?ttl")
    case True
    then show ?thesis using assms by (auto simp: etaStats_def read_clock_def Let_def)
  next
    case False
    then have "etaStats ops c = and_then (on_store (op_Stats ops) (c\<lparr>ct_reads := ct_reads c + 1\<rparr>))
        (\<lambda>st c. (Ok st, c\<lparr>ct_statsCache := Some (st, ?now)\<rparr>))"
      using assms(1) by (auto simp: etaStats_def read_clock_def Let_def split: option.splits)
    then show ?thesis
      using assms by (auto simp: on_store_def and_then_def split: prod.splits result.splits)
  qed
qed

end
