(* ===== verification/Prober.thy ===== *)
theory Prober
  imports Controller
begin

text \<open>
  \<^verbatim>\<open>internal/prober/prober.go\<close>: capacity from backend health, by additive increase and
  multiplicative decrease. The prober drives the \<open>Controller\<close> interface (\<open>Capacity\<close>,
  \<open>SetCapacity\<close>) and, with several replicas, a \<open>Locker\<close>; both are records of operations here.
  The outcome of the HTTP request of a probe is an argument: the response's status code, or no
  response. The log lines are left out.
\<close>

definition successesPerIncrease :: int where "successesPerIncrease = 3"

definition lockName :: string where "lockName = ''prober''"

record 'c controller_ops =
  pc_Capacity :: "'c \<Rightarrow> int"
  pc_SetCapacity :: "int \<Rightarrow> 'c \<Rightarrow> unit result \<times> 'c"

record prober_config =
  pr_Interval :: dur
  pr_Min :: int
  pr_Max :: int

record prober =
  p_cfg :: prober_config
  p_successes :: int

definition new_prober :: "prober_config \<Rightarrow> prober" where
  "new_prober cfg = \<lparr>p_cfg = cfg, p_successes = 0\<rparr>"

text \<open>What the HTTP client brings back: the request cannot be built, it fails, or a status code.\<close>

datatype probe_outcome = BadRequest | NoResponse | Response int

fun probe :: "probe_outcome \<Rightarrow> bool" where
  "probe BadRequest = False"
| "probe NoResponse = False"
| "probe (Response code) \<longleftrightarrow> code \<ge> 200 \<and> code < 400"

definition clamp_next :: "prober_config \<Rightarrow> int \<Rightarrow> int" where
  "clamp_next cfg next =
     (let next = (if next < pr_Min cfg then pr_Min cfg else next)
      in if next > pr_Max cfg then pr_Max cfg else next)"

text \<open>
  One step of the prober on its own state and the state behind the two interfaces. An error of
  \<open>SetCapacity\<close> or of the lock is logged and ends the round; a panic is not caught.
\<close>

definition set_next :: "'c controller_ops \<Rightarrow> int \<Rightarrow> int \<Rightarrow> prober \<times> 'c \<Rightarrow> unit result \<times> prober \<times> 'c" where
  "set_next ctrl cur next st =
     (let (p, c) = st;
          next = clamp_next (p_cfg p) next
      in if next = cur then (Ok (), p, c)
         else case pc_SetCapacity ctrl next c of
                (Panic, c') \<Rightarrow> (Panic, p, c')
              | (_, c') \<Rightarrow> (Ok (), p, c'))"

definition adjust :: "'c controller_ops \<Rightarrow> bool \<Rightarrow> prober \<times> 'c \<Rightarrow> unit result \<times> prober \<times> 'c" where
  "adjust ctrl healthy st =
     (let (p, c) = st;
          cur = pc_Capacity ctrl c
      in if healthy
         then let p = p\<lparr>p_successes := s64 (p_successes p + 1)\<rparr>
              in if p_successes p < successesPerIncrease then (Ok (), p, c)
                 else set_next ctrl cur (s64 (cur + 1)) (p\<lparr>p_successes := 0\<rparr>, c)
         else set_next ctrl cur (cur sdiv 2) (p\<lparr>p_successes := 0\<rparr>, c))"

definition tick ::
  "'c controller_ops \<Rightarrow> 'c locker_ops option \<Rightarrow> probe_outcome \<Rightarrow> prober \<times> 'c \<Rightarrow> unit result \<times> prober \<times> 'c" where
  "tick ctrl locker outcome st =
     (let (p, c) = st
      in case locker of
           None \<Rightarrow> adjust ctrl (probe outcome) (p, c)
         | Some lk \<Rightarrow>
             (case lk_TryLock lk lockName (pr_Interval (p_cfg p)) c of
                (Ok got, c') \<Rightarrow> if got then adjust ctrl (probe outcome) (p, c') else (Ok (), p, c')
              | (Err e, c') \<Rightarrow> (Ok (), p, c')
              | (Panic, c') \<Rightarrow> (Panic, p, c')))"

text \<open>\<open>Run\<close> until the context is done: one tick per firing of the ticker.\<close>

fun prober_run ::
  "'c controller_ops \<Rightarrow> 'c locker_ops option \<Rightarrow> probe_outcome list \<Rightarrow> prober \<times> 'c \<Rightarrow> unit result \<times> prober \<times> 'c" where
  "prober_run ctrl locker [] st = (Ok (), st)"
| "prober_run ctrl locker (x # xs) st =
     and_then (tick ctrl locker x st) (\<lambda>_ st. prober_run ctrl locker xs st)"

text \<open>The queue controller behind the interface.\<close>

definition queue_controller :: "'s store_ops \<Rightarrow> 's controller controller_ops" where
  "queue_controller ops = \<lparr>pc_Capacity = Capacity, pc_SetCapacity = ctl_SetCapacity ops\<rparr>"

text \<open>A lock of the store, seen from a controller that holds the store.\<close>

definition store_locker :: "'s locker_ops \<Rightarrow> 's controller locker_ops" where
  "store_locker lk = \<lparr>lk_TryLock = (\<lambda>name ttl. on_store (lk_TryLock lk name ttl))\<rparr>"

end
