(* ===== verification/ProberProps.thy ===== *)
theory ProberProps
  imports Prober ControllerProps
begin

text \<open>
  What the prober of \<^verbatim>\<open>prober.go\<close> does to the capacity: the additive increase and
  multiplicative decrease it promises, within its bounds, on any controller that keeps the small
  contract \<open>capacity_control\<close>; the queue controller on the in-process store is one.
\<close>

section \<open>The contract of the driven controller\<close>

locale capacity_control =
  fixes ctrl :: "'c controller_ops"
    and good :: "'c \<Rightarrow> bool"
  assumes set_capacity: "good c \<Longrightarrow> 1 \<le> n \<Longrightarrow>
    \<exists>c'. pc_SetCapacity ctrl n c = (Ok (), c') \<and> good c' \<and> pc_Capacity ctrl c' = n"
begin

lemma set_next_run:
  assumes "good c" "1 \<le> pr_Min (p_cfg p)" "pr_Min (p_cfg p) \<le> pr_Max (p_cfg p)"
    "cur = pc_Capacity ctrl c"
  shows "\<exists>c'. set_next ctrl cur next (p, c) = (Ok (), p, c') \<and> good c' \<and>
    pc_Capacity ctrl c' = clamp_next (p_cfg p) next"
proof (cases "clamp_next (p_cfg p) next = cur")
  case False
  have "1 \<le> clamp_next (p_cfg p) next" using assms(2,3) by (simp add: clamp_next_def Let_def)
  from set_capacity [OF assms(1) this] False show ?thesis by (auto simp: set_next_def Let_def)
qed (use assms in \<open>simp add: set_next_def Let_def\<close>)

lemma adjust_run:
  assumes "good c" "1 \<le> pr_Min (p_cfg p)" "pr_Min (p_cfg p) \<le> pr_Max (p_cfg p)"
    "0 \<le> p_successes p" "p_successes p < 3" "0 \<le> pc_Capacity ctrl c" "pc_Capacity ctrl c < 2 ^ 63 - 1"
  defines "cur \<equiv> pc_Capacity ctrl c"
  shows "\<exists>c'. adjust ctrl healthy (p, c) =
      (Ok (), p\<lparr>p_successes := (if healthy \<and> p_successes p < 2 then p_successes p + 1 else 0)\<rparr>, c') \<and>
    good c' \<and> pc_Capacity ctrl c' =
      (if \<not> healthy then clamp_next (p_cfg p) (cur div 2)
       else if p_successes p < 2 then cur else clamp_next (p_cfg p) (cur + 1))"
proof -
  have s: "s64 (p_successes p + 1) = p_successes p + 1" "s64 (cur + 1) = cur + 1"
    using assms by (simp_all add: in_s64_nonneg)
  have d: "cur sdiv 2 = cur div 2" using assms by (simp add: sdiv_nonneg)
  show ?thesis
    using set_next_run [of c "p\<lparr>p_successes := 0\<rparr>" cur "cur + 1"]
      set_next_run [of c "p\<lparr>p_successes := 0\<rparr>" cur "cur div 2"] assms(1-5)
    by (auto simp: adjust_def Let_def s [unfolded cur_def] d [unfolded cur_def] successesPerIncrease_def
        cur_def)
qed

definition sane :: "prober \<Rightarrow> 'c \<Rightarrow> bool" where
  "sane p c \<longleftrightarrow> good c \<and> 1 \<le> pr_Min (p_cfg p) \<and> pr_Min (p_cfg p) \<le> pr_Max (p_cfg p) \<and>
     pr_Max (p_cfg p) < 2 ^ 63 - 1 \<and> 0 \<le> p_successes p \<and> p_successes p < 3 \<and>
     0 \<le> pc_Capacity ctrl c \<and> pc_Capacity ctrl c < 2 ^ 63 - 1"

lemma tick_run:
  assumes "sane p c"
    and "\<And>lk n d c. locker = Some lk \<Longrightarrow> good c \<Longrightarrow>
      fst (lk_TryLock lk n d c) \<noteq> Panic \<and> good (snd (lk_TryLock lk n d c)) \<and>
      pc_Capacity ctrl (snd (lk_TryLock lk n d c)) = pc_Capacity ctrl c"
  shows "\<exists>p' c'. tick ctrl locker x (p, c) = (Ok (), p', c') \<and> sane p' c' \<and> p_cfg p' = p_cfg p \<and>
    (pc_Capacity ctrl c' = pc_Capacity ctrl c \<or>
     pr_Min (p_cfg p) \<le> pc_Capacity ctrl c' \<and> pc_Capacity ctrl c' \<le> pr_Max (p_cfg p))"
proof -
  have step: "\<exists>p' c'. adjust ctrl h (p, d) = (Ok (), p', c') \<and> sane p' c' \<and> p_cfg p' = p_cfg p \<and>
      (pc_Capacity ctrl c' = pc_Capacity ctrl d \<or>
       pr_Min (p_cfg p) \<le> pc_Capacity ctrl c' \<and> pc_Capacity ctrl c' \<le> pr_Max (p_cfg p))"
    if "sane p d" for d h
    using adjust_run [of d p h] that by (auto simp: sane_def clamp_next_def Let_def)
  show ?thesis
  proof (cases locker)
    case None
    then show ?thesis using step [OF assms(1)] by (simp add: tick_def)
  next
    case (Some lk)
    obtain got d where l: "lk_TryLock lk lockName (pr_Interval (p_cfg p)) c = (got, d)" by fastforce
    have d: "sane p d" "got \<noteq> Panic" "pc_Capacity ctrl d = pc_Capacity ctrl c"
      using assms(2) [OF Some, of c lockName "pr_Interval (p_cfg p)"] assms(1) by (auto simp: sane_def l)
    then show ?thesis
      using step [OF d(1), of "probe x"] by (cases got) (auto simp: tick_def Some l)
  qed
qed

lemma prober_run_bounds:
  assumes "sane p c"
    and "\<And>lk n d c. locker = Some lk \<Longrightarrow> good c \<Longrightarrow>
      fst (lk_TryLock lk n d c) \<noteq> Panic \<and> good (snd (lk_TryLock lk n d c)) \<and>
      pc_Capacity ctrl (snd (lk_TryLock lk n d c)) = pc_Capacity ctrl c"
  shows "\<exists>p' c'. prober_run ctrl locker xs (p, c) = (Ok (), p', c') \<and> good c' \<and>
    (pc_Capacity ctrl c' = pc_Capacity ctrl c \<or>
     pr_Min (p_cfg p) \<le> pc_Capacity ctrl c' \<and> pc_Capacity ctrl c' \<le> pr_Max (p_cfg p))"
  using assms(1)
proof (induction xs arbitrary: p c)
  case (Cons x xs)
  obtain p1 c1 where 1: "tick ctrl locker x (p, c) = (Ok (), p1, c1)" "sane p1 c1" "p_cfg p1 = p_cfg p"
    "pc_Capacity ctrl c1 = pc_Capacity ctrl c \<or>
     pr_Min (p_cfg p) \<le> pc_Capacity ctrl c1 \<and> pc_Capacity ctrl c1 \<le> pr_Max (p_cfg p)"
    using tick_run [OF Cons.prems assms(2)] by blast
  obtain p' c' where "prober_run ctrl locker xs (p1, c1) = (Ok (), p', c')" "good c'"
    "pc_Capacity ctrl c' = pc_Capacity ctrl c1 \<or>
     pr_Min (p_cfg p) \<le> pc_Capacity ctrl c' \<and> pc_Capacity ctrl c' \<le> pr_Max (p_cfg p)"
    using Cons.IH [OF 1(2)] 1(3) by auto
  with 1(1,4) show ?case by auto
qed (auto simp: sane_def)

text \<open>A row of failures halves the capacity down to the minimum.\<close>

lemma failures_run:
  assumes "sane p c" "pr_Min (p_cfg p) \<le> pc_Capacity ctrl c" "pc_Capacity ctrl c \<le> pr_Max (p_cfg p)"
    and "\<forall>x \<in> set xs. \<not> probe x"
  shows "\<exists>p' c'. prober_run ctrl None xs (p, c) = (Ok (), p', c') \<and>
    pc_Capacity ctrl c' = max (pr_Min (p_cfg p)) (pc_Capacity ctrl c div 2 ^ length xs)"
  using assms
proof (induction xs arbitrary: p c)
  case (Cons x xs)
  let ?p = "p\<lparr>p_successes := 0\<rparr>" and ?m = "pr_Min (p_cfg p)" and ?C = "pc_Capacity ctrl c"
  have half: "clamp_next (p_cfg p) (?C div 2) = max ?m (?C div 2)"
    using Cons.prems(1-3) by (auto simp: clamp_next_def Let_def sane_def)
  obtain c1 where 1: "adjust ctrl False (p, c) = (Ok (), ?p, c1)" "good c1"
    "pc_Capacity ctrl c1 = max ?m (?C div 2)"
    using adjust_run [of c p False] Cons.prems(1) half by (auto simp: sane_def)
  have t: "tick ctrl None x (p, c) = (Ok (), ?p, c1)" using Cons.prems(4) 1(1) by (simp add: tick_def)
  have le: "?C div 2 \<le> ?C"
    using Cons.prems(1) zdiv_mono2 [of ?C 1 2] by (simp add: sane_def)
  have "sane ?p c1" "?m \<le> pc_Capacity ctrl c1" "pc_Capacity ctrl c1 \<le> pr_Max (p_cfg p)"
    using Cons.prems(1-3) 1(2,3) le by (auto simp: sane_def)
  with Cons.IH [of ?p c1] Cons.prems(4) t have *: "\<exists>p' c'. prober_run ctrl None (x # xs) (p, c) = (Ok (), p', c') \<and>
      pc_Capacity ctrl c' = max ?m (max ?m (?C div 2) div 2 ^ length xs)" by (simp add: 1(3))
  have "max ?m (max ?m (?C div 2) div 2 ^ length xs) = max ?m (?C div 2 div 2 ^ length xs)"
  proof (cases "?m \<le> ?C div 2")
    case False
    have m: "0 \<le> ?m" "0 \<le> ?C div 2" using Cons.prems(1) by (simp_all add: sane_def)
    have "?m div 2 ^ length xs \<le> ?m" "?C div 2 div 2 ^ length xs \<le> ?m div 2 ^ length xs"
      using zdiv_mono2 [OF m(1), of 1 "2 ^ length xs"] False by (simp_all add: zdiv_mono1)
    with False show ?thesis by simp
  qed simp
  with * show ?case by (simp add: zdiv_zmult2_eq [symmetric] mult.commute)
qed simp

end

interpretation prb: capacity_control "queue_controller (memory_ops ord)" "\<lambda>c. mem_inv (ct_store c)"
  for ord
proof
  fix c :: "mem_store controller" and n :: int
  assume "mem_inv (ct_store c)" "1 \<le> n"
  then show "\<exists>c'. pc_SetCapacity (queue_controller (memory_ops ord)) n c = (Ok (), c') \<and>
      mem_inv (ct_store c') \<and> pc_Capacity (queue_controller (memory_ops ord)) c' = n"
    using SetCapacity_refines [of "ct_store c" n]
    by (simp add: queue_controller_def ctl_SetCapacity_def on_store_def Capacity_def split_beta and_then_def
        split: result.split)
qed

section \<open>The prober on the queue controller\<close>

lemma pc_Capacity_queue [simp]: "pc_Capacity (queue_controller ops) c = Capacity c"
  by (simp add: queue_controller_def)

definition demo_prober :: prober where
  "demo_prober = new_prober \<lparr>pr_Interval = 5 * second, pr_Min = 1, pr_Max = 50\<rparr>"

definition demo_wide :: "mem_store controller" where
  "demo_wide = demo_ctl\<lparr>ct_capacity := 40\<rparr>"

lemma demo_wide_sel [simp]: "Capacity demo_wide = 40" "mem_inv (ct_store demo_wide)"
  by (simp_all add: demo_wide_def Capacity_def mem_inv_demo)

lemma demo_prober_sel [simp]:
  "pr_Min (p_cfg demo_prober) = 1" "pr_Max (p_cfg demo_prober) = 50" "p_successes demo_prober = 0"
  by (simp_all add: demo_prober_def new_prober_def)

text \<open>
  One round of the prober, exactly: a failed probe halves the capacity and resets the streak;
  a healthy one counts towards the streak, and the third in a row raises the capacity by one and
  starts a new streak; the result is clamped to the bounds and handed to the controller.
\<close>

lemma aimd_step:
  assumes "mem_inv (ct_store c)" and "1 \<le> pr_Min (p_cfg p)" and "pr_Min (p_cfg p) \<le> pr_Max (p_cfg p)"
    and "0 \<le> p_successes p" and "p_successes p < 3" and "0 \<le> Capacity c" and "Capacity c < 2 ^ 63 - 1"
  shows "\<exists>p' c'. adjust (queue_controller (memory_ops ord)) healthy (p, c) = (Ok (), p', c') \<and>
    Capacity c' =
      (if \<not> healthy then max (pr_Min (p_cfg p)) (min (pr_Max (p_cfg p)) (Capacity c div 2))
       else if p_successes p = 2 then max (pr_Min (p_cfg p)) (min (pr_Max (p_cfg p)) (Capacity c + 1))
       else Capacity c) \<and>
    p_successes p' = (if healthy then (p_successes p + 1) mod 3 else 0) \<and> p_cfg p' = p_cfg p"
proof -
  have clamp: "clamp_next (p_cfg p) x = max (pr_Min (p_cfg p)) (min (pr_Max (p_cfg p)) x)" for x
    using assms(3) by (auto simp: clamp_next_def Let_def)
  have "p_successes p = 0 \<or> p_successes p = 1 \<or> p_successes p = 2" using assms(4,5) by linarith
  then show ?thesis
    using prb.adjust_run [OF assms(1-5), of ord healthy] assms(6,7) by (auto simp: clamp)
qed

text \<open>What is asked of a lock service: it does not panic and changes neither store nor capacity.\<close>

definition only_locks :: "mem_store controller locker_ops \<Rightarrow> bool" where
  "only_locks lk \<longleftrightarrow> (\<forall>n d c. mem_inv (ct_store c) \<longrightarrow>
     fst (lk_TryLock lk n d c) \<noteq> Panic \<and> mem_inv (ct_store (snd (lk_TryLock lk n d c))) \<and>
     Capacity (snd (lk_TryLock lk n d c)) = Capacity c)"

definition demo_locker :: "mem_store controller locker_ops" where
  "demo_locker = \<lparr>lk_TryLock = (\<lambda>n d c. (Ok (even (ct_reads c)), c))\<rparr>"

text \<open>
  C40: Whatever the backend answers, and whoever wins the lock, the prober never panics and never
  moves the capacity out of its bounds: after any number of rounds the capacity is the one it
  found or lies between the minimum and the maximum.
\<close>

theorem prober_respects_bounds:
  assumes "mem_inv (ct_store c)" and "1 \<le> pr_Min cfg" and "pr_Min cfg \<le> pr_Max cfg"
    and "pr_Max cfg < 2 ^ 63 - 1" and "0 \<le> Capacity c" and "Capacity c < 2 ^ 63 - 1"
    and "\<forall>lk. locker = Some lk \<longrightarrow> only_locks lk"
  shows "\<exists>p' c'. prober_run (queue_controller (memory_ops ord)) locker outcomes (new_prober cfg, c) =
      (Ok (), p', c') \<and>
    (Capacity c' = Capacity c \<or> pr_Min cfg \<le> Capacity c' \<and> Capacity c' \<le> pr_Max cfg)"
  using prb.prober_run_bounds [of ord "new_prober cfg" c locker outcomes] assms
  by (auto simp: prb.sane_def new_prober_def only_locks_def)

theorem prober_respects_bounds_witness:
  "\<exists>p' c'. prober_run (queue_controller (memory_ops sorted_range)) (Some demo_locker)
      [Response 200, NoResponse, Response 503]
      (new_prober \<lparr>pr_Interval = second, pr_Min = 1, pr_Max = 50\<rparr>, demo_wide) = (Ok (), p', c')"
proof -
  have "only_locks demo_locker" by (simp add: only_locks_def demo_locker_def)
  then show ?thesis
    using prober_respects_bounds [of demo_wide "\<lparr>pr_Interval = second, pr_Min = 1, pr_Max = 50\<rparr>"
        "Some demo_locker" sorted_range "[Response 200, NoResponse, Response 503]"]
    by (auto simp del: prober_run.simps)
qed

text \<open>
  Load is shed fast: a row of \<open>n\<close> failed probes divides the capacity by \<open>2 ^ n\<close>, down to the
  minimum.
\<close>

lemma failures_shed_load:
  assumes "mem_inv (ct_store c)" and "1 \<le> pr_Min (p_cfg p)" and "pr_Max (p_cfg p) < 2 ^ 63 - 1"
    and "0 \<le> p_successes p" and "p_successes p < 3"
    and "pr_Min (p_cfg p) \<le> Capacity c" and "Capacity c \<le> pr_Max (p_cfg p)"
    and "\<forall>x \<in> set outcomes. \<not> probe x"
  shows "\<exists>p' c'. prober_run (queue_controller (memory_ops ord)) None outcomes (p, c) = (Ok (), p', c') \<and>
    Capacity c' = max (pr_Min (p_cfg p)) (Capacity c div 2 ^ length outcomes)"
  using prb.failures_run [of ord p c outcomes] assms by (auto simp: prb.sane_def)

text \<open>
  The clamp applies to a halved capacity too: a failed probe raises a capacity that was set
  below the minimum (by an administrator, or in the configuration) to the minimum.
\<close>

lemma failure_raises_low_capacity:
  assumes "mem_inv (ct_store c)" and "pr_Min (p_cfg p) \<le> pr_Max (p_cfg p)"
    and "1 \<le> Capacity c" and "Capacity c < pr_Min (p_cfg p)"
  shows "\<exists>p' c'. adjust (queue_controller (memory_ops ord)) False (p, c) = (Ok (), p', c') \<and>
    Capacity c' = pr_Min (p_cfg p) \<and> Capacity c < Capacity c'"
proof -
  let ?p = "p\<lparr>p_successes := 0\<rparr>"
  have "Capacity c sdiv 2 \<le> Capacity c" using assms(3) by (simp add: sdiv_nonneg)
  then have "clamp_next (p_cfg p) (Capacity c sdiv 2) = pr_Min (p_cfg p)"
    using assms by (simp add: clamp_next_def Let_def)
  then show ?thesis
    using prb.set_next_run [of c ?p "Capacity c" ord "Capacity c sdiv 2"] assms
    by (auto simp: adjust_def Let_def)
qed

end
