(* ===== verification/GoText.thy ===== *)
theory GoText
  imports GoFloat
begin

text \<open>
  What gowait uses of \<open>strings\<close>, \<open>strconv\<close>, \<open>fmt\<close> and \<open>time\<close> to read and write text: the strings
  are byte sequences, as in Go. Parsers return the value or the kind of their error, which is all
  the callers look at.
\<close>

section \<open>Strings\<close>

fun contains :: "string \<Rightarrow> string \<Rightarrow> bool" where
  "contains [] p = (p = [])"
| "contains (c # s) p = (prefix p (c # s) \<or> contains s p)"

definition trim_prefix :: "string \<Rightarrow> string \<Rightarrow> string" where
  "trim_prefix s p = (if prefix p s then drop (length p) s else s)"

fun join :: "string \<Rightarrow> string list \<Rightarrow> string" where
  "join sep [] = []"
| "join sep [s] = s"
| "join sep (s # ss) = s @ sep @ join sep ss"

lemma trim_prefix_append [simp]: "trim_prefix (p @ s) p = s"
  by (simp add: trim_prefix_def)

section \<open>Integers\<close>

definition is_digit :: "char \<Rightarrow> bool" where
  "is_digit c \<longleftrightarrow> 48 \<le> (of_char c :: nat) \<and> (of_char c :: nat) \<le> 57"

definition lower_code :: "char \<Rightarrow> nat" where
  "lower_code c = (let n = of_char c in if n div 32 mod 2 = 0 then n + 32 else n)"

definition digit_value :: "char \<Rightarrow> nat option" where
  "digit_value c =
     (if is_digit c then Some (of_char c - 48)
      else if 97 \<le> lower_code c \<and> lower_code c \<le> 122 then Some (lower_code c - 87) else None)"

datatype num_error = ErrSyntax | ErrRange

text \<open>
  The loop of \<open>strconv.ParseUint\<close>: underscores are skipped when the base is taken from the text,
  a digit that does not fit the base is a syntax error, a value beyond 64 bits a range error.
\<close>

fun uint_digits :: "bool \<Rightarrow> nat \<Rightarrow> nat \<Rightarrow> string \<Rightarrow> num_error + nat" where
  "uint_digits base0 base n [] = Inr n"
| "uint_digits base0 base n (c # cs) =
     (if base0 \<and> c = CHR ''_'' then uint_digits base0 base n cs
      else case digit_value c of
             None \<Rightarrow> Inl ErrSyntax
           | Some d \<Rightarrow>
               if d \<ge> base then Inl ErrSyntax
               else if n * base + d \<ge> 2 ^ 64 then Inl ErrRange
               else uint_digits base0 base (n * base + d) cs)"

text \<open>\<open>underscoreOK\<close>: underscores stand only between digits, or after the base prefix.\<close>

datatype digit_mark = MBegin | MDigit | MUnderscore | MOther

fun underscores_from :: "bool \<Rightarrow> digit_mark \<Rightarrow> string \<Rightarrow> bool" where
  "underscores_from hexa i [] = (i \<noteq> MUnderscore)"
| "underscores_from hexa i (c # cs) =
     (if is_digit c \<or> hexa \<and> 97 \<le> lower_code c \<and> lower_code c \<le> 102
      then underscores_from hexa MDigit cs
      else if c = CHR ''_'' then i = MDigit \<and> underscores_from hexa MUnderscore cs
      else i \<noteq> MUnderscore \<and> underscores_from hexa MOther cs)"

definition sign_char :: "char \<Rightarrow> bool" where
  "sign_char c \<longleftrightarrow> c = CHR ''+'' \<or> c = CHR ''-''"

definition strip_sign :: "string \<Rightarrow> string" where
  "strip_sign s = (case s of [] \<Rightarrow> [] | c # cs \<Rightarrow> if sign_char c then cs else s)"

definition underscoreOK :: "string \<Rightarrow> bool" where
  "underscoreOK s0 =
     (let s = strip_sign s0
      in case s of
           CHR ''0'' # b # rest \<Rightarrow>
             if lower_code b \<in> {98, 111, 120} then underscores_from (lower_code b = 120) MDigit rest
             else underscores_from False MBegin s
         | _ \<Rightarrow> underscores_from False MBegin s)"

text \<open>The base that a text announces, and the text after the announcement.\<close>

definition detect_base :: "string \<Rightarrow> nat \<times> string" where
  "detect_base s =
     (case s of
        CHR ''0'' # rest \<Rightarrow>
          (case rest of
             b # c # cs \<Rightarrow>
               if lower_code b = 98 then (2, c # cs)
               else if lower_code b = 111 then (8, c # cs)
               else if lower_code b = 120 then (16, c # cs)
               else (8, rest)
           | _ \<Rightarrow> (8, rest))
      | _ \<Rightarrow> (10, s))"

definition parse_uint :: "nat \<Rightarrow> string \<Rightarrow> num_error + nat" where
  "parse_uint base s =
     (if s = [] then Inl ErrSyntax
      else if base = 0
      then let (b, rest) = detect_base s
           in case uint_digits True b 0 rest of
                Inl e \<Rightarrow> Inl e
              | Inr n \<Rightarrow> if CHR ''_'' \<in> set rest \<and> \<not> underscoreOK s then Inl ErrSyntax else Inr n
      else uint_digits False base 0 s)"

text \<open>\<open>strconv.ParseInt(s, base, 64)\<close>, which is \<open>strconv.Atoi\<close> for base ten.\<close>

definition ParseInt :: "nat \<Rightarrow> string \<Rightarrow> num_error + int" where
  "ParseInt base s =
     (if s = [] then Inl ErrSyntax
      else case parse_uint base (strip_sign s) of
             Inl e \<Rightarrow> Inl e
           | Inr un \<Rightarrow>
               if hd s = CHR ''-''
               then if un > 2 ^ 63 then Inl ErrRange else Inr (- int un)
               else if un \<ge> 2 ^ 63 then Inl ErrRange else Inr (int un))"

text \<open>What \<open>Itoa\<close> (or the verb \<open>%d\<close>) prints parses back to the number.\<close>

lemma digit_value_of_digit: "d < 10 \<Longrightarrow> digit_value (char_of (48 + d :: nat)) = Some d"
  by (simp add: digit_value_def is_digit_def)

lemma sign_char_code: "sign_char c \<Longrightarrow> (of_char c :: nat) \<in> {43, 45}"
  by (auto simp: sign_char_def)

lemma digit_not_sign: "d < 10 \<Longrightarrow> \<not> sign_char (char_of (48 + d :: nat))"
  using sign_char_code [of "char_of (48 + d)"] by auto

lemma digit_not_underscore: "d < 10 \<Longrightarrow> char_of (48 + d :: nat) \<noteq> CHR ''_''"
proof
  assume "d < 10" and "char_of (48 + d) = CHR ''_''"
  from arg_cong [OF this(2), of "of_char :: char \<Rightarrow> nat"] this(1) show False by simp
qed

text \<open>The digits of a number, and its first digit.\<close>

lemma set_itoa_nat: "c \<in> set (itoa_nat n) \<Longrightarrow> \<exists>d < 10. c = char_of (48 + d :: nat)"
proof (induction n rule: itoa_nat.induct)
  case (1 n)
  show ?case
  proof (cases "n < 10")
    case True
    with 1(2) show ?thesis by (subst (asm) itoa_nat.simps) auto
  next
    case False
    from 1(2) False have "c \<in> set (itoa_nat (n div 10)) \<or> c = char_of (48 + n mod 10)"
      by (subst (asm) itoa_nat.simps) auto
    with "1.IH" [OF False] show ?thesis by (metis mod_less_divisor zero_less_numeral)
  qed
qed

lemma itoa_nat_digits: "c \<in> set (itoa_nat n) \<Longrightarrow> is_digit c \<and> \<not> sign_char c \<and> c \<noteq> CHR ''_''"
  using set_itoa_nat [of c n] digit_not_sign digit_not_underscore by (auto simp: is_digit_def)

lemma itoa_nat_nonempty [simp]: "itoa_nat n \<noteq> []"
  by (subst itoa_nat.simps) simp

lemma itoa_nat_hd: "\<not> sign_char (hd (itoa_nat n))"
  using itoa_nat_digits [OF hd_in_set [OF itoa_nat_nonempty]] by blast

lemma itoa_nat_hd_0: "0 < n \<Longrightarrow> hd (itoa_nat n) \<noteq> CHR ''0''"
proof (induction n rule: itoa_nat.induct)
  case (1 n)
  show ?case
  proof (cases "n < 10")
    case True
    have "char_of (48 + n) \<noteq> CHR ''0''"
    proof
      assume "char_of (48 + n) = CHR ''0''"
      from arg_cong [OF this, of "of_char :: char \<Rightarrow> nat"] True 1(2) show False by simp
    qed
    with True show ?thesis by (subst itoa_nat.simps) simp
  next
    case False
    with 1 show ?thesis by (subst itoa_nat.simps) simp
  qed
qed

lemma itoa_nat_step:
  "itoa_nat n @ rest = (if n < 10 then char_of (48 + n) # rest
     else itoa_nat (n div 10) @ char_of (48 + n mod 10) # rest)"
  by (subst itoa_nat.simps) simp

lemma uint_digits_itoa:
  "n < 2 ^ 64 \<Longrightarrow> uint_digits b 10 0 (itoa_nat n @ rest) = uint_digits b 10 n rest"
proof (induction n arbitrary: rest rule: itoa_nat.induct)
  case (1 n)
  show ?case
  proof (cases "n < 10")
    case True
    with 1 show ?thesis
      by (simp add: itoa_nat_step [of n] digit_value_of_digit digit_not_underscore)
  next
    case False
    have "n div 10 < 2 ^ 64" using 1(2) by (meson div_le_dividend order_le_less_trans)
    moreover have "\<not> 10 \<le> n mod 10" "n div 10 * 10 + n mod 10 = n" by simp_all
    ultimately show ?thesis
      using "1.IH" [OF False, of "char_of (48 + n mod 10) # rest"] False 1(2)
      by (simp add: itoa_nat_step [of n] digit_value_of_digit digit_not_underscore)
  qed
qed

lemma parse_uint_itoa: "n < 2 ^ 64 \<Longrightarrow> parse_uint 10 (itoa_nat n) = Inr n"
  using uint_digits_itoa [of n False "[]"] by (simp add: parse_uint_def)

lemma parse_uint0_itoa:
  assumes "n < 2 ^ 64"
  shows "parse_uint 0 (itoa_nat n) = Inr n"
proof (cases "n = 0")
  case True
  have "itoa_nat 0 = ''0''" by (subst itoa_nat.simps) (simp add: char_of_def bit_Suc_0_iff)
  then show ?thesis using True by (simp add: parse_uint_def detect_base_def)
next
  case False
  obtain c cs where c: "itoa_nat n = c # cs" by (cases "itoa_nat n") simp_all
  with False itoa_nat_hd_0 [of n] have "c \<noteq> CHR ''0''" by simp
  then have "detect_base (itoa_nat n) = (10, itoa_nat n)"
    unfolding c detect_base_def by (auto split: char.splits bool.splits)
  moreover have "CHR ''_'' \<notin> set (itoa_nat n)" using itoa_nat_digits by blast
  ultimately show ?thesis
    using uint_digits_itoa [OF assms, of True "[]"] by (simp add: parse_uint_def)
qed

lemma strip_sign_digits: "strip_sign (itoa_nat n) = itoa_nat n"
  using itoa_nat_hd [of n] by (cases "itoa_nat n") (simp_all add: strip_sign_def)

lemma ParseInt_itoa:
  assumes "in_s64 n" and base: "base \<in> {0, 10}"
  shows "ParseInt base (itoa n) = Inr n"
proof -
  have p: "m < 2 ^ 64 \<Longrightarrow> parse_uint base (itoa_nat m) = Inr m" for m
    using base parse_uint_itoa parse_uint0_itoa by auto
  show ?thesis
  proof (cases "n < 0")
    case True
    with assms have "nat (- n) \<le> 2 ^ 63" by (simp add: in_s64_def)
    with True show ?thesis
      by (simp add: ParseInt_def itoa_def strip_sign_def sign_char_def p)
  next
    case False
    with assms have "nat n < 2 ^ 63" by (simp add: in_s64_def nat_less_iff)
    moreover have "hd (itoa_nat (nat n)) \<noteq> CHR ''-''"
      using itoa_nat_hd [of "nat n"] by (auto simp: sign_char_def)
    ultimately show ?thesis
      using False by (simp add: ParseInt_def itoa_def strip_sign_digits p)
  qed
qed

text \<open>
  \<open>fmt.Sscanf(s, "%d", &n)\<close>: leading white space (Unicode's, in UTF-8) is skipped, but a newline is
  an error; then a sign and decimal digits are read, and whatever follows them is ignored.
\<close>

definition bytes :: "nat list \<Rightarrow> string" where
  "bytes ns = map char_of ns"

definition wide_spaces :: "string list" where
  "wide_spaces = map bytes
     ([[194, 133], [194, 160], [225, 154, 128], [226, 128, 168], [226, 128, 169], [226, 128, 175],
       [226, 129, 159], [227, 128, 128]] @ map (\<lambda>k. [226, 128, k]) [128..<139])"

function skip_space :: "string \<Rightarrow> string option" where
  "skip_space s =
     (case s of
        [] \<Rightarrow> Some []
      | c # cs \<Rightarrow>
          if c = CHR 0x0A then None
          else if c \<in> {CHR 0x09, CHR 0x0B, CHR 0x0C, CHR 0x0D, CHR '' ''} then skip_space cs
          else case filter (\<lambda>w. prefix w s) wide_spaces of
                 w # _ \<Rightarrow> skip_space (drop (max 1 (length w)) s)
               | [] \<Rightarrow> Some s)"
  by pat_completeness auto
termination
  by (relation "measure length") auto

declare skip_space.simps [simp del]

definition Sscanf_d :: "string \<Rightarrow> int option" where
  "Sscanf_d s =
     (case skip_space s of
        None \<Rightarrow> None
      | Some t \<Rightarrow>
          let digits = takeWhile is_digit (strip_sign t);
              sgn = take (length t - length (strip_sign t)) t
          in if digits = [] then None
             else case ParseInt 10 (sgn @ digits) of Inr n \<Rightarrow> Some n | Inl e \<Rightarrow> None)"

section \<open>Booleans\<close>

definition ParseBool :: "string \<Rightarrow> bool option" where
  "ParseBool s =
     (if s \<in> {''1'', ''t'', ''T'', ''TRUE'', ''true'', ''True''} then Some True
      else if s \<in> {''0'', ''f'', ''F'', ''FALSE'', ''false'', ''False''} then Some False
      else None)"

section \<open>Durations\<close>

text \<open>
  \<open>time.ParseDuration\<close>: a sign, then one or more numbers with a fraction and a unit. \<open>leadingInt\<close>
  fails beyond \<open>2 ^ 63\<close>; \<open>leadingFraction\<close> drops the digits that no longer fit.
\<close>

fun leading_int :: "nat \<Rightarrow> string \<Rightarrow> (nat \<times> string) option" where
  "leading_int x [] = Some (x, [])"
| "leading_int x (c # cs) =
     (if \<not> is_digit c then Some (x, c # cs)
      else if x > 2 ^ 63 div 10 then None
      else let x' = x * 10 + (of_char c - 48) in if x' > 2 ^ 63 then None else leading_int x' cs)"

fun leading_fraction :: "nat \<Rightarrow> float64 \<Rightarrow> bool \<Rightarrow> string \<Rightarrow> nat \<times> float64 \<times> string" where
  "leading_fraction x scale overflow [] = (x, scale, [])"
| "leading_fraction x scale overflow (c # cs) =
     (if \<not> is_digit c then (x, scale, c # cs)
      else if overflow \<or> x > (2 ^ 63 - 1) div 10 then leading_fraction x scale True cs
      else let y = x * 10 + (of_char c - 48)
           in if y > 2 ^ 63 then leading_fraction x scale True cs
              else leading_fraction y (f_mul scale 10) False cs)"

definition unit_of :: "string \<Rightarrow> nat option" where
  "unit_of u =
     map_of [(''ns'', 1), (''us'', 1000), (bytes [194, 181] @ ''s'', 1000), (bytes [206, 188] @ ''s'', 1000),
             (''ms'', 1000000), (''s'', 1000000000), (''m'', 60000000000), (''h'', 3600000000000)] u"

definition number_char :: "char \<Rightarrow> bool" where
  "number_char c \<longleftrightarrow> c = CHR ''.'' \<or> is_digit c"

text \<open>One number with its unit: its value in nanoseconds and the rest of the text.\<close>

definition duration_part :: "string \<Rightarrow> (nat \<times> string) option" where
  "duration_part s =
     (if s = [] \<or> \<not> number_char (hd s) then None
      else case leading_int 0 s of
             None \<Rightarrow> None
           | Some (v, s1) \<Rightarrow>
               let pre = length s \<noteq> length s1;
                   (f, scale, s2) = (case s1 of
                       CHR ''.'' # t \<Rightarrow> leading_fraction 0 1 False t | _ \<Rightarrow> (0, 1, s1));
                   post = (s1 \<noteq> [] \<and> hd s1 = CHR ''.'' \<and> length s2 \<noteq> length s1 - 1);
                   u = takeWhile (\<lambda>c. \<not> number_char c) s2
               in if \<not> pre \<and> \<not> post then None
                  else if u = [] then None
                  else case unit_of u of
                         None \<Rightarrow> None
                       | Some un \<Rightarrow>
                           if v > 2 ^ 63 div un then None
                           else let w = (if f > 0
                                         then v * un + nat (f_trunc (f_mul (f_of_int (int f)) (f_div (f_of_int (int un)) scale)))
                                         else v * un)
                                in if f > 0 \<and> w > 2 ^ 63 then None else Some (w, drop (length u) s2))"

lemma leading_int_length: "leading_int x s = Some (v, t) \<Longrightarrow> length t \<le> length s"
  by (induction x s rule: leading_int.induct) (fastforce simp: Let_def split: if_splits)+

lemma leading_fraction_length: "leading_fraction x sc b s = (f, sc', t) \<Longrightarrow> length t \<le> length s"
  by (induction x sc b s rule: leading_fraction.induct) (fastforce simp: Let_def split: if_splits)+

lemma duration_part_shorter:
  assumes "duration_part s = Some (v, t)"
  shows "length t < length s"
proof -
  obtain x s1 where 1: "leading_int 0 s = Some (x, s1)"
    using assms by (auto simp: duration_part_def split: option.splits if_splits)
  define s2 where "s2 = snd (snd (case s1 of
      CHR ''.'' # t \<Rightarrow> leading_fraction 0 1 False t | _ \<Rightarrow> (0, 1, s1)))"
  have "length s2 \<le> length s1"
    using leading_fraction_length [of 0 1 False "tl s1" "fst (leading_fraction 0 1 False (tl s1))"]
    by (auto simp: s2_def le_SucI prod_eq_iff split: list.splits char.splits bool.splits)
  moreover have "t = drop (length (takeWhile (\<lambda>c. \<not> number_char c) s2)) s2 \<and>
      takeWhile (\<lambda>c. \<not> number_char c) s2 \<noteq> []"
    using assms unfolding duration_part_def 1 s2_def
    by (simp add: Let_def split_beta split: option.splits if_splits)
  ultimately show ?thesis using leading_int_length [OF 1]
    by (cases s2) auto
qed

text \<open>The sum is kept in 64 unsigned bits and refused above \<open>2 ^ 63\<close>.\<close>

function duration_sum :: "nat \<Rightarrow> string \<Rightarrow> nat option" where
  "duration_sum d s =
     (if s = [] then Some d
      else case duration_part s of
             None \<Rightarrow> None
           | Some (v, t) \<Rightarrow>
               let d' = (d + v) mod 2 ^ 64 in if d' > 2 ^ 63 then None else duration_sum d' t)"
  by pat_completeness auto
termination
  by (relation "measure (\<lambda>(d, s). length s)") (auto dest: duration_part_shorter)

declare duration_sum.simps [simp del]

definition ParseDuration :: "string \<Rightarrow> dur option" where
  "ParseDuration s0 =
     (let s = strip_sign s0; neg = (s0 \<noteq> [] \<and> hd s0 = CHR ''-'')
      in if s = ''0'' then Some 0
         else if s = [] then None
         else case duration_sum 0 s of
                None \<Rightarrow> None
              | Some d \<Rightarrow>
                  if neg then Some (- int d)
                  else if d > 2 ^ 63 - 1 then None
                  else Some (int d))"

text \<open>A number of nanoseconds printed with its unit parses back.\<close>

lemma leading_int_itoa:
  "n \<le> 2 ^ 63 \<Longrightarrow> leading_int 0 (itoa_nat n @ rest) = leading_int n rest"
proof (induction n arbitrary: rest rule: itoa_nat.induct)
  case (1 n)
  have dig: "is_digit (char_of (48 + d :: nat))" "of_char (char_of (48 + d :: nat)) - 48 = d"
    if "d < 10" for d using that by (simp_all add: is_digit_def)
  show ?case
  proof (cases "n < 10")
    case True
    with 1 dig [of n] show ?thesis by (simp add: itoa_nat_step [of n] Let_def)
  next
    case False
    have "n div 10 \<le> 2 ^ 63 div 10" using 1(2) by (rule div_le_mono)
    moreover have "n div 10 * 10 + n mod 10 = n" "n div 10 \<le> 2 ^ 63"
      using 1(2) by (simp_all add: order_trans [OF div_le_dividend])
    ultimately show ?thesis
      using "1.IH" [OF False, of "char_of (48 + n mod 10) # rest"] False 1(2) dig [of "n mod 10"]
      by (simp add: itoa_nat_step [of n] Let_def)
  qed
qed

lemma duration_part_ns:
  assumes "n \<le> 2 ^ 63"
  shows "duration_part (itoa_nat n @ ''ns'') = Some (n, [])"
proof -
  have "leading_int 0 (itoa_nat n @ ''ns'') = Some (n, ''ns'')"
    using leading_int_itoa [OF assms, of "''ns''"] by (simp add: is_digit_def)
  moreover have "number_char (hd (itoa_nat n))"
    using itoa_nat_digits [OF hd_in_set [OF itoa_nat_nonempty]] by (simp add: number_char_def)
  ultimately show ?thesis
    using assms by (simp add: duration_part_def Let_def unit_of_def number_char_def is_digit_def)
qed

lemma ParseDuration_ns:
  assumes "in_s64 d"
  shows "ParseDuration (itoa d @ ''ns'') = Some d"
proof -
  have sum: "duration_sum 0 (itoa_nat n @ ''ns'') = Some n" if "n \<le> 2 ^ 63" for n
    using that duration_part_ns [OF that]
    by (subst duration_sum.simps) (simp add: duration_sum.simps [of _ "[]"])
  have ns: "itoa_nat n @ ''ns'' \<noteq> ''0''" for n by (cases "itoa_nat n") simp_all
  have st: "strip_sign (itoa_nat n @ ''ns'') = itoa_nat n @ ''ns''" "hd (itoa_nat n) \<noteq> CHR ''-''" for n
    using itoa_nat_hd [of n] by (cases "itoa_nat n"; simp add: strip_sign_def sign_char_def)+
  show ?thesis
  proof (cases "d < 0")
    case True
    with assms have "nat (- d) \<le> 2 ^ 63" by (simp add: in_s64_def)
    with True ns show ?thesis
      by (simp add: ParseDuration_def itoa_def strip_sign_def sign_char_def sum)
  next
    case False
    with assms have "nat d < 2 ^ 63" by (simp add: in_s64_def nat_less_iff)
    with False ns st show ?thesis by (simp add: ParseDuration_def itoa_def sum)
  qed
qed

text \<open>\<open>Duration.String\<close>, the verb \<open>%s\<close>.\<close>

fun fmt_frac :: "nat \<Rightarrow> nat \<Rightarrow> bool \<Rightarrow> string \<Rightarrow> string \<times> nat" where
  "fmt_frac 0 v pr acc = (if pr then CHR ''.'' # acc else acc, v)"
| "fmt_frac (Suc i) v pr acc =
     (let d = v mod 10; pr' = (pr \<or> d \<noteq> 0)
      in fmt_frac i (v div 10) pr' (if pr' then char_of (48 + d) # acc else acc))"

definition dur_string :: "dur \<Rightarrow> string" where
  "dur_string d =
     (let u = nat \<bar>d\<bar>;
          digits =
            (if u = 0 then ''0s''
             else if u < 1000000000
             then let (prec, suffix) =
                        (if u < 1000 then (0, ''ns'')
                         else if u < 1000000 then (3, bytes [194, 181] @ ''s'')
                         else (6, ''ms''));
                      (frac, v) = fmt_frac prec u False []
                  in itoa_nat v @ frac @ suffix
             else let (frac, v) = fmt_frac 9 u False [];
                      secs = itoa_nat (v mod 60) @ frac @ ''s'';
                      mins = v div 60
                  in if mins = 0 then secs
                     else (if mins div 60 = 0 then [] else itoa_nat (mins div 60) @ ''h'') @
                          itoa_nat (mins mod 60) @ ''m'' @ secs)
      in if d < 0 then CHR ''-'' # digits else digits)"

end
