(* ===== verification/Ticket.thy ===== *)
theory Ticket
  imports GoText
begin

text \<open>
  \<^verbatim>\<open>internal/ticket/ticket.go\<close>: ticket identifiers and signed cookie values. Go strings are
  byte sequences, as \<^typ>\<open>string\<close> is; hexadecimal and unpadded URL-safe base64 are modelled byte by
  byte. The keyed hash (HMAC-SHA256 of the key and the data) is an argument, and so are the random
  bytes, or the error, that \<open>rand.Read\<close> delivers: what is proved holds for every hash function.
\<close>

section \<open>Encodings\<close>

definition hex_digits :: string where
  "hex_digits = ''0123456789abcdef''"

definition hex_digit :: "nat \<Rightarrow> char" where
  "hex_digit n = hex_digits ! n"

definition hex_encode :: "string \<Rightarrow> string" where
  "hex_encode bs = concat (map (\<lambda>b. [hex_digit (of_char b div 16), hex_digit (of_char b mod 16)]) bs)"

definition b64_char :: "nat \<Rightarrow> char" where
  "b64_char n = ''ABCDEFGHIJKLMNOPQRSTUVWXYZabcdefghijklmnopqrstuvwxyz0123456789-_'' ! n"

text \<open>\<open>base64.RawURLEncoding\<close>: three bytes make four digits; a rest of one or two bytes makes two or three.\<close>

fun b64_encode :: "string \<Rightarrow> string" where
  "b64_encode [] = []"
| "b64_encode [a] =
     (let n = of_char a * 16 in [b64_char (n div 64), b64_char (n mod 64)])"
| "b64_encode [a, b] =
     (let n = (of_char a * 256 + of_char b) * 4
      in [b64_char (n div 4096), b64_char (n div 64 mod 64), b64_char (n mod 64)])"
| "b64_encode (a # b # c # rest) =
     (let n = (of_char a * 256 + of_char b) * 256 + of_char c
      in [b64_char (n div 262144), b64_char (n div 4096 mod 64), b64_char (n div 64 mod 64),
          b64_char (n mod 64)] @ b64_encode rest)"

section \<open>Strings\<close>

text \<open>\<open>strings.LastIndex\<close> for a single byte.\<close>

fun last_index :: "char \<Rightarrow> string \<Rightarrow> nat option" where
  "last_index c [] = None"
| "last_index c (x # xs) =
     (case last_index c xs of
        Some i \<Rightarrow> Some (i + 1)
      | None \<Rightarrow> if x = c then Some 0 else None)"

section \<open>Identifiers\<close>

definition NewID :: "string result \<Rightarrow> string result" where
  "NewID rnd = (case rnd of
     Ok b \<Rightarrow> Ok (hex_encode b)
   | Err e \<Rightarrow> Err (''generating ticket id: '' @ e)
   | Panic \<Rightarrow> Panic)"

definition NewSecret :: "string result \<Rightarrow> string result" where
  "NewSecret rnd = (case rnd of
     Ok b \<Rightarrow> Ok (hex_encode b)
   | Err e \<Rightarrow> Err (''generating cookie secret: '' @ e)
   | Panic \<Rightarrow> Panic)"

section \<open>Signing\<close>

definition version :: string where "version = ''v1''"

text \<open>The signer is the secret with the keyed hash: \<open>hmac secret data\<close> are the bytes of the digest.\<close>

record signer =
  sg_secret :: string
  sg_hmac :: "string \<Rightarrow> string \<Rightarrow> string"

definition NewSigner :: "(string \<Rightarrow> string \<Rightarrow> string) \<Rightarrow> string \<Rightarrow> signer" where
  "NewSigner hmac secret = \<lparr>sg_secret = secret, sg_hmac = hmac\<rparr>"

definition mac :: "signer \<Rightarrow> string \<Rightarrow> string" where
  "mac s data = b64_encode (sg_hmac s (sg_secret s) data)"

definition Sign :: "signer \<Rightarrow> string \<Rightarrow> string" where
  "Sign s payload = (let p = version @ '':'' @ payload in p @ '':'' @ mac s p)"

definition Verify :: "signer \<Rightarrow> string \<Rightarrow> string option" where
  "Verify s value =
     (case last_index (CHR '':'') value of
        None \<Rightarrow> None
      | Some i \<Rightarrow>
          let p = take i value; sig = drop (i + 1) value
          in if \<not> prefix (version @ '':'') p then None
             else if sig \<noteq> mac s p then None
             else Some (trim_prefix p (version @ '':'')))"

section \<open>What the encodings produce\<close>

lemma of_char_less: "(of_char c :: nat) < 256"
  using nat_of_char_less_256 [of c] by simp

lemma of_char_le: "(of_char c :: nat) \<le> 255"
  using of_char_less [of c] by linarith

text \<open>The leading digit of a group of one, two or three bytes is below 64.\<close>

lemma b64_head_range:
  assumes "a \<le> 255" "b \<le> 255" "c \<le> (255::nat)"
  shows "a * 16 div 64 < 64" "(a * 256 + b) * 4 div 4096 < 64"
    "((a * 256 + b) * 256 + c) div 262144 < 64"
proof -
  have "a * 16 < 64 * 64" "(a * 256 + b) * 4 < 64 * 4096" "(a * 256 + b) * 256 + c < 64 * 262144"
    using assms by simp_all
  then show "a * 16 div 64 < 64" "(a * 256 + b) * 4 div 4096 < 64"
    "((a * 256 + b) * 256 + c) div 262144 < 64"
    by (blast intro: less_mult_imp_div_less)+
qed

lemma hex_digits_facts: "distinct hex_digits" "length hex_digits = 16" "CHR ''m'' \<notin> set hex_digits"
  by (simp_all add: hex_digits_def)

lemma hex_digit_inj: "m < 16 \<Longrightarrow> n < 16 \<Longrightarrow> hex_digit m = hex_digit n \<Longrightarrow> m = n"
  using nth_eq_iff_index_eq [OF hex_digits_facts(1)] by (simp add: hex_digit_def hex_digits_facts(2))

lemma hex_digit_mem: "n < 16 \<Longrightarrow> hex_digit n \<in> set hex_digits"
  unfolding hex_digit_def by (rule nth_mem) (simp add: hex_digits_facts(2))

lemma hex_byte_range: "(of_char b :: nat) div 16 < 16" "(of_char b :: nat) mod 16 < 16"
  using of_char_less [of b] by linarith simp

lemma length_hex_encode: "length (hex_encode bs) = 2 * length bs"
  by (induction bs) (simp_all add: hex_encode_def)

lemma set_hex_encode: "set (hex_encode bs) \<subseteq> set hex_digits"
  using hex_digit_mem [OF hex_byte_range(1)] hex_digit_mem [OF hex_byte_range(2)]
  by (auto simp: hex_encode_def)

lemma hex_encode_inj: "hex_encode bs = hex_encode cs \<Longrightarrow> bs = cs"
proof (induction bs arbitrary: cs)
  case (Cons b bs)
  then obtain c ds where cs: "cs = c # ds" by (cases cs) (auto simp: hex_encode_def)
  with Cons.prems have "(of_char b :: nat) div 16 = of_char c div 16" "(of_char b :: nat) mod 16 = of_char c mod 16"
    "hex_encode bs = hex_encode ds"
    by (auto simp: hex_encode_def intro!: hex_digit_inj hex_byte_range)
  moreover from this have "(of_char b :: nat) = of_char c" by (metis div_mult_mod_eq)
  ultimately show ?case using Cons.IH by (simp add: cs)
qed (auto simp: hex_encode_def)

lemma b64_char_not_colon: "n < 64 \<Longrightarrow> b64_char n \<noteq> CHR '':''"
proof -
  assume "n < 64"
  then have "b64_char n \<in> set ''ABCDEFGHIJKLMNOPQRSTUVWXYZabcdefghijklmnopqrstuvwxyz0123456789-_''"
    unfolding b64_char_def by (intro nth_mem) simp
  then show ?thesis by auto
qed

lemma b64_char_mod: "CHR '':'' \<noteq> b64_char (n mod 64)"
  using b64_char_not_colon [of "n mod 64"] by auto

lemma b64_no_colon: "CHR '':'' \<notin> set (b64_encode bs)"
proof (induction bs rule: b64_encode.induct)
  case (2 a)
  from b64_char_not_colon [OF b64_head_range(1) [OF of_char_le of_char_le of_char_le, of a]]
  show ?case by (auto simp: Let_def b64_char_mod dest: sym)
next
  case (3 a b)
  from b64_char_not_colon [OF b64_head_range(2) [OF of_char_le of_char_le of_char_le, of a b]]
  show ?case by (auto simp: Let_def b64_char_mod dest: sym)
next
  case (4 a b c rest)
  from b64_char_not_colon [OF b64_head_range(3) [OF of_char_le of_char_le of_char_le, of a b c]] 4
  show ?case by (auto simp: Let_def b64_char_mod dest: sym)
qed simp

lemma last_index_split:
  "last_index c s = Some i \<longleftrightarrow> (\<exists>p t. s = p @ c # t \<and> length p = i \<and> c \<notin> set t)"
proof (induction s arbitrary: i)
  case (Cons x xs)
  show ?case
  proof (cases "last_index c xs")
    case None
    then have no: "c \<notin> set xs"
      by (induction xs) (auto split: option.splits if_splits)
    have "(\<exists>p t. x # xs = p @ c # t \<and> length p = i \<and> c \<notin> set t) \<longleftrightarrow> x = c \<and> i = 0"
      using no by (auto simp: Cons_eq_append_conv)
    with None show ?thesis by auto
  next
    case (Some j)
    then obtain q t where q: "xs = q @ c # t" "length q = j" "c \<notin> set t" using Cons.IH by blast
    have "(\<exists>p u. x # xs = p @ c # u \<and> length p = i \<and> c \<notin> set u) \<longleftrightarrow> i = Suc j"
    proof
      assume "\<exists>p u. x # xs = p @ c # u \<and> length p = i \<and> c \<notin> set u"
      then obtain p u where p: "x # xs = p @ c # u" "length p = i" "c \<notin> set u" by blast
      then obtain k where k: "i = Suc k" using q by (cases p) auto
      then have "\<exists>p t. xs = p @ c # t \<and> length p = k \<and> c \<notin> set t"
        using p by (cases p) auto
      with Cons.IH [of k] Some k show "i = Suc j" by simp
    next
      assume "i = Suc j"
      with q show "\<exists>p u. x # xs = p @ c # u \<and> length p = i \<and> c \<notin> set u"
        by (intro exI [of _ "x # q"] exI [of _ t]) simp
    qed
    with Some show ?thesis by auto
  qed
qed simp

section \<open>What a signature proves\<close>

lemma Verify_iff: "Verify s value = Some payload \<longleftrightarrow> value = Sign s payload"
proof
  assume "Verify s value = Some payload"
  then obtain i where i: "last_index (CHR '':'') value = Some i"
    "prefix (version @ '':'') (take i value)" "drop (i + 1) value = mac s (take i value)"
    "payload = trim_prefix (take i value) (version @ '':'')"
    by (auto simp: Verify_def Let_def split: option.splits if_splits)
  obtain p t where v: "value = p @ CHR '':'' # t" "length p = i"
    using i(1) last_index_split by blast
  then have tk: "take i value = p" "drop (i + 1) value = t" by auto
  obtain q where q: "p = version @ '':'' @ q" using i(2) unfolding tk by (auto simp: prefix_def)
  have "payload = q" using i(4) unfolding tk q by (simp add: trim_prefix_def)
  moreover have "t = mac s p" using i(3) unfolding tk .
  ultimately show "value = Sign s payload" using v(1) q by (simp add: Sign_def Let_def)
next
  assume v: "value = Sign s payload"
  let ?p = "version @ '':'' @ payload"
  have "last_index (CHR '':'') value = Some (length ?p)"
    unfolding last_index_split v Sign_def Let_def mac_def
    using b64_no_colon [of "sg_hmac s (sg_secret s) ?p"]
    by (intro exI [of _ ?p] exI [of _ "b64_encode (sg_hmac s (sg_secret s) ?p)"]) simp
  then show "Verify s value = Some payload"
    by (simp add: Verify_def v Sign_def Let_def trim_prefix_def)
qed

lemma Verify_Sign [simp]: "Verify s (Sign s p) = Some p"
  by (simp add: Verify_iff)

lemma Sign_inject [simp]: "Sign s p = Sign s q \<longleftrightarrow> p = q"
  by (metis Verify_Sign option.inject)

text \<open>An identifier is hexadecimal, so it has no letter m.\<close>

lemma hex_not_admin: "\<not> prefix ''admin:'' (hex_encode b)"
proof
  assume "prefix ''admin:'' (hex_encode b)"
  then have "CHR ''m'' \<in> set (hex_encode b)" by (auto simp: prefix_def)
  with set_hex_encode [of b] hex_digits_facts(3) show False by blast
qed

section \<open>Properties\<close>

text \<open>
  C37: A signature is exact: \<open>Verify\<close> returns a payload for a value if and only if the value is what
  \<open>Sign\<close> makes of that payload. So what was signed verifies, nothing else does, even when the
  payload contains colons, and no second spelling of a signed value is accepted.
\<close>

theorem verify_exact: "Verify s value = Some payload \<longleftrightarrow> value = Sign s payload"
  by (rule Verify_iff)

text \<open>
  A ticket identifier is 32 hexadecimal digits, and distinct random bytes give distinct
  identifiers; it can be taken neither for the empty string nor for an admin payload.
\<close>

lemma ticket_id_form:
  assumes "length b = 16" and "NewID (Ok b) = Ok i"
  shows "length i = 32 \<and> set i \<subseteq> set hex_digits \<and> i \<noteq> [] \<and> \<not> prefix ''admin:'' i \<and>
    (\<forall>c. NewID (Ok c) = Ok i \<longrightarrow> c = b)"
proof -
  have i: "i = hex_encode b" using assms(2) by (simp add: NewID_def)
  have "\<not> prefix ''admin:'' i" unfolding i by (rule hex_not_admin)
  moreover have "c = b" if "NewID (Ok c) = Ok i" for c
    using that i hex_encode_inj [of c b] by (simp add: NewID_def)
  ultimately show ?thesis
    using assms(1) set_hex_encode [of b] length_hex_encode [of b] by (auto simp: i)
qed

end
