(* ===== verification/GoUrl.thy ===== *)
theory GoUrl
  imports GoText "HOL-Library.List_Lexorder" "HOL-Library.Char_ord"
begin

text \<open>
  What gowait uses of \<open>net/url\<close>: the fields of a parsed URL, percent-encoding, and query strings. A
  \<open>url.Values\<close> is the list of its key-value pairs in order of arrival: the values of a key are those
  of its pairs, and a key is present when it has a pair. The limits that \<open>net/url\<close> puts on the
  number of parameters are left out.
\<close>

record url =
  u_Scheme :: string
  u_Host :: string
  u_Path :: string \<comment> \<open>decoded\<close>
  u_RawQuery :: string

section \<open>Percent-encoding\<close>

definition hex_value :: "char \<Rightarrow> nat option" where
  "hex_value c = (case digit_value c of Some d \<Rightarrow> if d < 16 then Some d else None | None \<Rightarrow> None)"

text \<open>\<open>unescape\<close>, for query components (where \<open>+\<close> is a space) and for path segments.\<close>

fun unescape :: "bool \<Rightarrow> string \<Rightarrow> string option" where
  "unescape query [] = Some []"
| "unescape query (c # cs) =
     (if c = CHR ''%''
      then case cs of
             a # b # rest \<Rightarrow>
               (case (hex_value a, hex_value b) of
                  (Some h, Some l) \<Rightarrow> map_option ((#) (char_of (16 * h + l))) (unescape query rest)
                | _ \<Rightarrow> None)
           | _ \<Rightarrow> None
      else map_option ((#) (if query \<and> c = CHR ''+'' then CHR '' '' else c)) (unescape query cs))"

definition path_unescape :: "string \<Rightarrow> string" where
  "path_unescape s = (case unescape False s of Some t \<Rightarrow> t | None \<Rightarrow> s)"

definition upper_hex :: "nat \<Rightarrow> char" where
  "upper_hex n = ''0123456789ABCDEF'' ! n"

definition unreserved :: "char \<Rightarrow> bool" where
  "unreserved c \<longleftrightarrow> is_digit c \<or> (let n = of_char c in (65::nat) \<le> n \<and> n \<le> 90 \<or> 97 \<le> n \<and> n \<le> 122) \<or>
     c \<in> {CHR ''-'', CHR ''_'', CHR ''.'', CHR ''~''}"

definition escape_char :: "char \<Rightarrow> string" where
  "escape_char c =
     (if c = CHR '' '' then ''+''
      else if unreserved c then [c]
      else [CHR ''%'', upper_hex (of_char c div 16), upper_hex (of_char c mod 16)])"

definition query_escape :: "string \<Rightarrow> string" where
  "query_escape s = concat (map escape_char s)"

section \<open>Query strings\<close>

text \<open>\<open>strings.Cut\<close> at a byte, and the pieces between its occurrences.\<close>

definition cut :: "char \<Rightarrow> string \<Rightarrow> string \<times> string" where
  "cut c s = (takeWhile (\<lambda>x. x \<noteq> c) s, drop (length (takeWhile (\<lambda>x. x \<noteq> c) s) + 1) s)"

fun split_on :: "char \<Rightarrow> string \<Rightarrow> string list" where
  "split_on c [] = [[]]"
| "split_on c (x # xs) =
     (if x = c then [] # split_on c xs
      else case split_on c xs of [] \<Rightarrow> [[x]] | p # ps \<Rightarrow> (x # p) # ps)"

type_synonym query = "(string \<times> string) list"

text \<open>A piece that holds a semicolon or a malformed escape is dropped, and so is an empty one.\<close>

definition query_pair :: "string \<Rightarrow> (string \<times> string) option" where
  "query_pair piece =
     (if CHR '';'' \<in> set piece \<or> piece = [] then None
      else let (k, v) = cut (CHR ''='') piece
           in case (unescape True k, unescape True v) of
                (Some k', Some v') \<Rightarrow> Some (k', v')
              | _ \<Rightarrow> None)"

definition parse_query :: "string \<Rightarrow> query" where
  "parse_query s = List.map_filter query_pair (split_on (CHR ''&'') s)"

definition query_get :: "query \<Rightarrow> string \<Rightarrow> string" where
  "query_get q k = (case filter (\<lambda>p. fst p = k) q of [] \<Rightarrow> [] | p # _ \<Rightarrow> snd p)"

definition query_del :: "query \<Rightarrow> string \<Rightarrow> query" where
  "query_del q k = filter (\<lambda>p. fst p \<noteq> k) q"

text \<open>\<open>Encode\<close>: the keys in order, the values of a key in their order.\<close>

definition encode_pair :: "string \<times> string \<Rightarrow> string" where
  "encode_pair p = query_escape (fst p) @ ''='' @ query_escape (snd p)"

definition encode_query :: "query \<Rightarrow> string" where
  "encode_query q = join ''&'' (map encode_pair (sort_key fst q))"

section \<open>Encoding a query and parsing it back\<close>

lemma of_char_lt: "(of_char c :: nat) < 256"
  using nat_of_char_less_256 [of c] by simp

lemma less16_cases:
  fixes n :: nat
  assumes "n < 16"
  shows "n \<in> set [0..<16]"
  using assms by simp

lemma upper_hex_table:
  "\<forall>n \<in> set [0..<16]. hex_value (upper_hex n) = Some n \<and>
     upper_hex n \<notin> {CHR ''&'', CHR ''='', CHR '';'', CHR ''%'', CHR ''+''}"
  by (simp add: upt_rec hex_value_def upper_hex_def digit_value_def is_digit_def lower_code_def)

lemma upper_hex_value: "n < 16 \<Longrightarrow> hex_value (upper_hex n) = Some n"
  using upper_hex_table less16_cases by blast

lemma upper_hex_plain:
  "n < 16 \<Longrightarrow> upper_hex n \<notin> {CHR ''&'', CHR ''='', CHR '';'', CHR ''%'', CHR ''+''}"
  using upper_hex_table less16_cases by blast

lemma byte_halves: "(of_char c :: nat) div 16 < 16" "(of_char c :: nat) mod 16 < 16"
  using of_char_lt [of c] by linarith simp

lemma unreserved_plain:
  "unreserved c \<Longrightarrow> c \<notin> {CHR ''&'', CHR ''='', CHR '';'', CHR ''%'', CHR ''+''}"
  by (auto simp: unreserved_def is_digit_def)

lemma escape_char_plain:
  "x \<in> set (escape_char c) \<Longrightarrow> x \<notin> {CHR ''&'', CHR ''='', CHR '';''}"
  using unreserved_plain [of c] upper_hex_plain [OF byte_halves(1), of c]
    upper_hex_plain [OF byte_halves(2), of c]
  by (auto simp: escape_char_def split: if_splits)

lemma query_escape_plain:
  "x \<in> set (query_escape s) \<Longrightarrow> x \<notin> {CHR ''&'', CHR ''='', CHR '';''}"
  using escape_char_plain by (auto simp: query_escape_def)

lemma unescape_escape_char: "unescape True (escape_char c @ s) = map_option ((#) c) (unescape True s)"
proof -
  have "char_of (16 * ((of_char c :: nat) div 16) + of_char c mod 16) = c" by simp
  then show ?thesis
    using unreserved_plain [of c]
    by (auto simp: escape_char_def upper_hex_value byte_halves)
qed

lemma unescape_escape: "unescape True (query_escape s) = Some s"
  by (induction s) (simp_all add: query_escape_def unescape_escape_char)

lemma query_pair_encode: "query_pair (encode_pair p) = Some p"
proof -
  have k: "\<forall>x \<in> set (query_escape (fst p)). x \<noteq> CHR ''=''"
    and no: "CHR '';'' \<notin> set (encode_pair p)"
    using query_escape_plain by (auto simp: encode_pair_def)
  have "takeWhile (\<lambda>x. x \<noteq> CHR ''='') (encode_pair p) = query_escape (fst p)"
    unfolding encode_pair_def using k by (simp add: takeWhile_append)
  then have "cut (CHR ''='') (encode_pair p) = (query_escape (fst p), query_escape (snd p))"
    by (simp add: cut_def) (simp add: encode_pair_def)
  with no show ?thesis by (simp add: query_pair_def unescape_escape encode_pair_def)
qed

lemma split_on_none: "c \<notin> set s \<Longrightarrow> split_on c s = [s]"
  by (induction s) auto

lemma split_on_append: "c \<notin> set s \<Longrightarrow> split_on c (s @ c # t) = s # split_on c t"
  by (induction s) auto

lemma split_on_join:
  "\<forall>s \<in> set ss. c \<notin> set s \<Longrightarrow> split_on c (join [c] ss) = (if ss = [] then [[]] else ss)"
proof (induction ss rule: induct_list012)
  case (3 s t ss)
  then show ?case using split_on_append [of c s "join [c] (t # ss)"] by simp
qed (simp_all add: split_on_none)

lemma parse_encode_query: "parse_query (encode_query q) = sort_key fst q"
proof -
  let ?ss = "map encode_pair (sort_key fst q)"
  have "\<forall>s \<in> set ?ss. CHR ''&'' \<notin> set s" using query_escape_plain by (auto simp: encode_pair_def)
  then have "split_on (CHR ''&'') (encode_query q) = (if ?ss = [] then [[]] else ?ss)"
    unfolding encode_query_def by (rule split_on_join)
  moreover have "List.map_filter query_pair ?ss = sort_key fst q"
    by (simp add: map_filter_def comp_def query_pair_encode)
  ultimately show ?thesis
    by (simp add: parse_query_def map_filter_def query_pair_def split: if_splits)
qed

text \<open>What is left after a key is deleted and the query is printed: every other pair, in order per key.\<close>

lemma query_del_round_trip:
  "filter (\<lambda>p. fst p = k) (parse_query (encode_query (query_del q d))) =
   (if k = d then [] else filter (\<lambda>p. fst p = k) q)"
  by (auto simp: parse_encode_query query_del_def filter_empty_conv sort_key_stable filter_filter intro!: filter_cong)

end
