(* ===== verification/Waitpage.thy ===== *)
theory Waitpage
  imports GoUrl "HOL-Library.Multiset"
begin

text \<open>
  \<^verbatim>\<open>internal/waitpage/waitpage.go\<close>: the localized texts and the rendering of the waiting page. The
  embedded template file, reading a template from disk, and parsing and executing a template
  (\<open>html/template\<close>) are arguments, collected in \<open>page_env\<close>; so is the verb \<open>%q\<close> of an error text.
\<close>

section \<open>Data\<close>

record Options =
  o_PollInterval :: dur
  o_Lang :: string
  o_Title :: string
  o_Brand :: string
  o_Message :: string
  o_TemplatePath :: string

record Strings =
  l_Title :: string
  l_Message :: string
  l_EtaLabel :: string
  l_Notice :: string
  l_LessMinute :: string
  l_Minute :: string
  l_Minutes :: string
  l_Position :: string
  l_Updated :: string

text \<open>The French texts are in UTF-8.\<close>

definition e_acute :: string where "e_acute = bytes [195, 169]"
definition e_grave :: string where "e_grave = bytes [195, 168]"
definition e_circumflex :: string where "e_circumflex = bytes [195, 170]"
definition a_grave :: string where "a_grave = bytes [195, 160]"

definition english :: Strings where
  "english = \<lparr>
     l_Title = ''You are in the waiting room'',
     l_Message = ''Due to a high number of simultaneous connections, we invite you to wait in the queue. You will be let in automatically.'',
     l_EtaLabel = ''Your estimated wait time'',
     l_Notice = ''Keep this page open. You will be redirected automatically to the service as soon as possible. Refreshing will not lose your place in line.'',
     l_LessMinute = ''< 1 minute'',
     l_Minute = ''minute'',
     l_Minutes = ''minutes'',
     l_Position = ''Position {pos} of {len} in the queue'',
     l_Updated = ''Last updated at {time}''\<rparr>"

definition french :: Strings where
  "french = \<lparr>
     l_Title = ''Vous '' @ e_circumflex @ ''tes dans la salle d'attente'',
     l_Message = ''En raison d'un grand nombre de connexions simultan'' @ e_acute @ ''es, nous vous invitons '' @ a_grave @ '' patienter dans la file. Vous serez admis automatiquement.'',
     l_EtaLabel = ''Votre temps d'attente estim'' @ e_acute,
     l_Notice = ''Gardez cette page ouverte. Vous serez redirig'' @ e_acute @ '' automatiquement vers le service d'' @ e_grave @ ''s que possible. Actualiser ne vous fera pas perdre votre place dans la file.'',
     l_LessMinute = ''< 1 minute'',
     l_Minute = ''minute'',
     l_Minutes = ''minutes'',
     l_Position = ''Position {pos} sur {len} dans la file d'attente'',
     l_Updated = ''Derni'' @ e_grave @ ''re mise '' @ a_grave @ '' jour '' @ a_grave @ '' {time}''\<rparr>"

definition locale_table :: "(string \<times> Strings) list" where
  "locale_table = [(''en'', english), (''fr'', french)]"

definition locales :: "string \<rightharpoonup> Strings" where
  "locales = map_of locale_table"

text \<open>\<open>Langs\<close> sorts the keys of the map, so the order in which the map yields them does not matter.\<close>

definition Langs :: "string list" where
  "Langs = sort (map fst locale_table)"

lemma langs_any_order: "mset order = mset (map fst locale_table) \<Longrightarrow> sort order = Langs"
  unfolding Langs_def by (rule properties_for_sort) simp_all

definition SupportedLang :: "string \<Rightarrow> bool" where
  "SupportedLang lang = (locales lang \<noteq> None)"

record Data =
  d_PollMs :: int
  d_Lang :: string
  d_Title :: string
  d_Brand :: string
  d_Message :: string
  d_L :: Strings

section \<open>Rendering\<close>

record 'tmpl page_env =
  pe_pageTmpl :: string
  pe_ReadFile :: "string \<Rightarrow> string result"
  pe_Parse :: "string \<Rightarrow> 'tmpl result"
  pe_Execute :: "'tmpl \<Rightarrow> Data \<Rightarrow> string result"
  pe_quote :: "string \<Rightarrow> string"

definition page_data :: "Options \<Rightarrow> string \<Rightarrow> Strings \<Rightarrow> Data" where
  "page_data opts lang loc =
     (let d = \<lparr>d_PollMs = o_PollInterval opts sdiv millisecond, d_Lang = lang, d_Title = o_Title opts,
               d_Brand = o_Brand opts, d_Message = o_Message opts, d_L = loc\<rparr>;
          d = (if d_Title d = [] then d\<lparr>d_Title := l_Title loc\<rparr> else d)
      in if d_Message d = [] then d\<lparr>d_Message := l_Message loc\<rparr> else d)"

definition Render :: "'tmpl page_env \<Rightarrow> Options \<Rightarrow> string result" where
  "Render env opts =
     (let lang = (if o_Lang opts = [] then ''en'' else o_Lang opts)
      in case locales lang of
           None \<Rightarrow> Err (''unsupported wait page language '' @ pe_quote env lang @ '' (supported: '' @
                        join '', '' Langs @ '')'')
         | Some loc \<Rightarrow>
             and_also (if o_TemplatePath opts \<noteq> []
                       then wrap_err ''reading wait page template: '' (pe_ReadFile env (o_TemplatePath opts))
                       else Ok (pe_pageTmpl env)) (\<lambda>src.
             and_also (wrap_err ''parsing wait page template: '' (pe_Parse env src)) (\<lambda>t.
             wrap_err ''rendering wait page: '' (pe_Execute env t (page_data opts lang loc)))))"

lemma SupportedLang_iff: "SupportedLang lang \<longleftrightarrow> lang = ''en'' \<or> lang = ''fr''"
  by (simp add: SupportedLang_def locales_def locale_table_def)

lemma Langs_sorted: "Langs = [''en'', ''fr'']"
  by (simp add: Langs_def locale_table_def less_list_code less_eq_list_code less_char_def less_eq_char_def)

lemma Langs_supported: "lang \<in> set Langs \<longleftrightarrow> SupportedLang lang"
  by (simp add: Langs_sorted SupportedLang_iff)

end
