(* ===== verification/Config.thy ===== *)
theory Config
  imports Waitpage
begin

text \<open>
  \<^verbatim>\<open>internal/config/config.go\<close>: the settings, their loading from flags with environment variables
  as fallbacks, and their validation. The environment is the function that \<open>os.Getenv\<close> is; the
  \<open>flag\<close> package is modelled as gowait uses it (\<open>ContinueOnError\<close>; its usage output is left out).
  Parsing a URL (\<open>url.Parse\<close>) and the verb \<open>%q\<close> are arguments.
\<close>

section \<open>The settings\<close>

record settings =
  c_Listen :: string
  c_BackendURL :: "url option" \<comment> \<open>a pointer, nil until the backend is parsed\<close>
  c_Capacity :: int
  c_InactivityTTL :: dur
  c_QueueTTL :: dur
  c_PollInterval :: dur
  c_CookieSecret :: string
  c_AdminKey :: string
  c_CookieSecure :: bool
  c_PreserveHost :: bool
  c_Store :: string
  c_ValkeyURL :: string
  c_ValkeyPrefix :: string
  c_Metrics :: bool
  c_WaitTitle :: string
  c_WaitBrand :: string
  c_WaitMessage :: string
  c_WaitLang :: string
  c_WaitTemplate :: string
  c_ProbeURL :: string
  c_ProbeInterval :: dur
  c_ProbeMin :: int
  c_ProbeMax :: int

section \<open>Environment variables\<close>

type_synonym environment = "string \<Rightarrow> string"

definition envOr :: "environment \<Rightarrow> string \<Rightarrow> string \<Rightarrow> string" where
  "envOr env key def = (if env key \<noteq> [] then env key else def)"

definition envOrInt :: "environment \<Rightarrow> string \<Rightarrow> int \<Rightarrow> int" where
  "envOrInt env key def =
     (if env key \<noteq> [] then case Sscanf_d (env key) of Some n \<Rightarrow> n | None \<Rightarrow> def else def)"

definition envOrDuration :: "environment \<Rightarrow> string \<Rightarrow> dur \<Rightarrow> dur" where
  "envOrDuration env key def =
     (if env key \<noteq> [] then case ParseDuration (env key) of Some d \<Rightarrow> d | None \<Rightarrow> def else def)"

definition envOrBool :: "environment \<Rightarrow> string \<Rightarrow> bool \<Rightarrow> bool" where
  "envOrBool env key def =
     (if env key \<noteq> [] then env key = ''true'' \<or> env key = ''1'' \<or> env key = ''yes'' else def)"

section \<open>Flags\<close>

datatype flag_value = FString string | FInt int | FDuration dur | FBool bool

text \<open>\<open>flag.Value.Set\<close>: the text of the error, or the new value.\<close>

fun set_flag :: "flag_value \<Rightarrow> string \<Rightarrow> string + flag_value" where
  "set_flag (FString _) s = Inr (FString s)"
| "set_flag (FInt _) s =
     (case ParseInt 0 s of
        Inr n \<Rightarrow> Inr (FInt n)
      | Inl ErrSyntax \<Rightarrow> Inl ''parse error''
      | Inl ErrRange \<Rightarrow> Inl ''value out of range'')"
| "set_flag (FDuration _) s =
     (case ParseDuration s of Some d \<Rightarrow> Inr (FDuration d) | None \<Rightarrow> Inl ''parse error'')"
| "set_flag (FBool _) s =
     (case ParseBool s of Some b \<Rightarrow> Inr (FBool b) | None \<Rightarrow> Inl ''parse error'')"

type_synonym flags = "string \<rightharpoonup> flag_value"

text \<open>
  \<open>FlagSet.Parse\<close>: flags are taken until the first argument that is not one; a boolean flag takes a
  value only after an equals sign, any other flag also from the next argument.
\<close>

definition flag_name :: "string \<Rightarrow> string" where
  "flag_name s = (if prefix ''--'' s then drop 2 s else drop 1 s)"

fun parse_flags :: "(string \<Rightarrow> string) \<Rightarrow> flags \<Rightarrow> string list \<Rightarrow> flags result" where
  "parse_flags quote fs [] = Ok fs"
| "parse_flags quote fs (s # args) =
     (if length s < 2 \<or> hd s \<noteq> CHR ''-'' then Ok fs
      else if s = ''--'' then Ok fs
      else if flag_name s = [] \<or> hd (flag_name s) = CHR ''-'' \<or> hd (flag_name s) = CHR ''=''
      then Err (''bad flag syntax: '' @ s)
      else let (name, val) = cut (CHR ''='') (flag_name s);
               hasValue = (name \<noteq> flag_name s)
           in case fs name of
                None \<Rightarrow>
                  if name = ''help'' \<or> name = ''h'' then Err ''flag: help requested''
                  else Err (''flag provided but not defined: -'' @ name)
              | Some (FBool b) \<Rightarrow>
                  (case set_flag (FBool b) (if hasValue then val else ''true'') of
                     Inr v \<Rightarrow> parse_flags quote (fs(name \<mapsto> v)) args
                   | Inl e \<Rightarrow> Err (''invalid boolean value '' @ quote val @ '' for -'' @ name @ '': '' @ e))
              | Some old \<Rightarrow>
                  if hasValue
                  then case set_flag old val of
                         Inr v \<Rightarrow> parse_flags quote (fs(name \<mapsto> v)) args
                       | Inl e \<Rightarrow> Err (''invalid value '' @ quote val @ '' for flag -'' @ name @ '': '' @ e)
                  else case args of
                         [] \<Rightarrow> Err (''flag needs an argument: -'' @ name)
                       | next # rest \<Rightarrow>
                           (case set_flag old next of
                              Inr v \<Rightarrow> parse_flags quote (fs(name \<mapsto> v)) rest
                            | Inl e \<Rightarrow> Err (''invalid value '' @ quote next @ '' for flag -'' @ name @ '': '' @ e)))"

text \<open>The flags \<open>Load\<close> declares: the name, and the value they have when no argument sets them.\<close>

definition flag_defaults :: "environment \<Rightarrow> (string \<times> flag_value) list" where
  "flag_defaults env =
    [(''listen'', FString (envOr env ''GOWAIT_LISTEN'' '':8080'')),
     (''backend'', FString (envOr env ''GOWAIT_BACKEND_URL'' '''')),
     (''capacity'', FInt (envOrInt env ''GOWAIT_CAPACITY'' 100)),
     (''inactivity-ttl'', FDuration (envOrDuration env ''GOWAIT_INACTIVITY_TTL'' (60 * second))),
     (''queue-ttl'', FDuration (envOrDuration env ''GOWAIT_QUEUE_TTL'' (30 * second))),
     (''poll-interval'', FDuration (envOrDuration env ''GOWAIT_POLL_INTERVAL'' (3 * second))),
     (''cookie-secret'', FString (envOr env ''GOWAIT_COOKIE_SECRET'' '''')),
     (''admin-key'', FString (envOr env ''GOWAIT_ADMIN_KEY'' '''')),
     (''cookie-secure'', FBool (envOrBool env ''GOWAIT_COOKIE_SECURE'' False)),
     (''preserve-host'', FBool (envOrBool env ''GOWAIT_PRESERVE_HOST'' False)),
     (''store'', FString (envOr env ''GOWAIT_STORE'' ''memory'')),
     (''valkey-url'', FString (envOr env ''GOWAIT_VALKEY_URL'' '''')),
     (''valkey-prefix'', FString (envOr env ''GOWAIT_VALKEY_PREFIX'' ''gowait:'')),
     (''metrics'', FBool (envOrBool env ''GOWAIT_METRICS'' True)),
     (''wait-title'', FString (envOr env ''GOWAIT_WAIT_TITLE'' '''')),
     (''wait-brand'', FString (envOr env ''GOWAIT_WAIT_BRAND'' '''')),
     (''wait-message'', FString (envOr env ''GOWAIT_WAIT_MESSAGE'' '''')),
     (''wait-lang'', FString (envOr env ''GOWAIT_WAIT_LANG'' ''en'')),
     (''wait-template'', FString (envOr env ''GOWAIT_WAIT_TEMPLATE'' '''')),
     (''probe-url'', FString (envOr env ''GOWAIT_PROBE_URL'' '''')),
     (''probe-interval'', FDuration (envOrDuration env ''GOWAIT_PROBE_INTERVAL'' (10 * second))),
     (''probe-min'', FInt (envOrInt env ''GOWAIT_PROBE_MIN'' 1)),
     (''probe-max'', FInt (envOrInt env ''GOWAIT_PROBE_MAX'' 0))]"

text \<open>Reading a flag through the typed pointer that its declaration returned.\<close>

definition str_flag :: "flags \<Rightarrow> string \<Rightarrow> string" where
  "str_flag fs n = (case fs n of Some (FString s) \<Rightarrow> s | _ \<Rightarrow> [])"

definition int_flag :: "flags \<Rightarrow> string \<Rightarrow> int" where
  "int_flag fs n = (case fs n of Some (FInt k) \<Rightarrow> k | _ \<Rightarrow> 0)"

definition dur_flag :: "flags \<Rightarrow> string \<Rightarrow> dur" where
  "dur_flag fs n = (case fs n of Some (FDuration d) \<Rightarrow> d | _ \<Rightarrow> 0)"

definition bool_flag :: "flags \<Rightarrow> string \<Rightarrow> bool" where
  "bool_flag fs n = (case fs n of Some (FBool b) \<Rightarrow> b | _ \<Rightarrow> False)"

section \<open>Validation\<close>

definition absolute :: "url result \<Rightarrow> bool" where
  "absolute r = (case r of Ok u \<Rightarrow> u_Scheme u \<noteq> [] \<and> u_Host u \<noteq> [] | _ \<Rightarrow> False)"

definition Validate :: "(string \<Rightarrow> url result) \<Rightarrow> (string \<Rightarrow> string) \<Rightarrow> settings \<Rightarrow> unit result" where
  "Validate url_parse quote c =
     (if c_Capacity c < 1 then Err (''capacity must be >= 1, got '' @ itoa (c_Capacity c))
      else if c_PollInterval c \<le> 0
      then Err (''poll-interval must be > 0, got '' @ dur_string (c_PollInterval c))
      else if c_InactivityTTL c \<le> c_PollInterval c
      then Err (''inactivity-ttl ('' @ dur_string (c_InactivityTTL c) @
                '') must be greater than poll-interval ('' @ dur_string (c_PollInterval c) @ '')'')
      else if c_QueueTTL c < s64 (2 * c_PollInterval c)
      then Err (''queue-ttl ('' @ dur_string (c_QueueTTL c) @
                '') must be at least 2x poll-interval ('' @ dur_string (c_PollInterval c) @ '')'')
      else if c_Store c = ''valkey'' \<and> c_ValkeyURL c = []
      then Err ''valkey store requires -valkey-url or GOWAIT_VALKEY_URL''
      else if c_Store c \<noteq> ''memory'' \<and> c_Store c \<noteq> ''valkey''
      then Err (''unknown store '' @ quote (c_Store c) @ '': must be memory or valkey'')
      else if \<not> SupportedLang (c_WaitLang c)
      then Err (''unknown wait-lang '' @ quote (c_WaitLang c) @ '': must be '' @ join '' or '' Langs)
      else if c_ProbeURL c \<noteq> []
      then if \<not> absolute (url_parse (c_ProbeURL c))
           then Err (''invalid probe-url '' @ quote (c_ProbeURL c) @
                     '': must be absolute, e.g. http://backend:8080/healthz'')
           else if c_ProbeInterval c \<le> 0
           then Err (''probe-interval must be > 0, got '' @ dur_string (c_ProbeInterval c))
           else if c_ProbeMin c < 1
           then Err (''probe-min must be >= 1, got '' @ itoa (c_ProbeMin c))
           else if c_ProbeMax c < c_ProbeMin c
           then Err (''probe-max ('' @ itoa (c_ProbeMax c) @ '') must be >= probe-min ('' @
                     itoa (c_ProbeMin c) @ '')'')
           else Ok ()
      else Ok ())"

section \<open>Loading\<close>

text \<open>The struct literal in \<open>Load\<close>, with the default of the ceiling of the prober.\<close>

definition read_flags :: "flags \<Rightarrow> settings" where
  "read_flags fs =
     (let cfg = \<lparr>
        c_Listen = str_flag fs ''listen'',
        c_BackendURL = None,
        c_Capacity = int_flag fs ''capacity'',
        c_InactivityTTL = dur_flag fs ''inactivity-ttl'',
        c_QueueTTL = dur_flag fs ''queue-ttl'',
        c_PollInterval = dur_flag fs ''poll-interval'',
        c_CookieSecret = str_flag fs ''cookie-secret'',
        c_AdminKey = str_flag fs ''admin-key'',
        c_CookieSecure = bool_flag fs ''cookie-secure'',
        c_PreserveHost = bool_flag fs ''preserve-host'',
        c_Store = str_flag fs ''store'',
        c_ValkeyURL = str_flag fs ''valkey-url'',
        c_ValkeyPrefix = str_flag fs ''valkey-prefix'',
        c_Metrics = bool_flag fs ''metrics'',
        c_WaitTitle = str_flag fs ''wait-title'',
        c_WaitBrand = str_flag fs ''wait-brand'',
        c_WaitMessage = str_flag fs ''wait-message'',
        c_WaitLang = str_flag fs ''wait-lang'',
        c_WaitTemplate = str_flag fs ''wait-template'',
        c_ProbeURL = str_flag fs ''probe-url'',
        c_ProbeInterval = dur_flag fs ''probe-interval'',
        c_ProbeMin = int_flag fs ''probe-min'',
        c_ProbeMax = int_flag fs ''probe-max''\<rparr>
      in if c_ProbeMax cfg = 0 then cfg\<lparr>c_ProbeMax := c_Capacity cfg\<rparr> else cfg)"

definition Load :: "(string \<Rightarrow> url result) \<Rightarrow> (string \<Rightarrow> string) \<Rightarrow> environment \<Rightarrow> string list \<Rightarrow> settings result" where
  "Load url_parse quote env args =
     and_also (parse_flags quote (map_of (flag_defaults env)) args) (\<lambda>fs.
     let cfg = read_flags fs; backend = str_flag fs ''backend''
     in if backend = []
        then Err ''backend URL is required (-backend or GOWAIT_BACKEND_URL)''
        else case url_parse backend of
               Ok u \<Rightarrow>
                 if u_Scheme u = [] \<or> u_Host u = []
                 then Err (''invalid backend URL '' @ quote backend @
                           '': must be absolute, e.g. http://backend:8080'')
                 else let cfg = cfg\<lparr>c_BackendURL := Some u\<rparr>
                      in and_also (Validate url_parse quote cfg) (\<lambda>_. Ok cfg)
             | _ \<Rightarrow> Err (''invalid backend URL '' @ quote backend @
                         '': must be absolute, e.g. http://backend:8080''))"

end
