(* ===== verification/GoHttp.thy ===== *)
theory GoHttp
  imports GoUrl
begin

text \<open>
  What gowait uses of \<open>net/http\<close>: a request as the server hands it over, the writer of a response, the
  routing of \<open>ServeMux\<close>. Reading requests from sockets and writing responses to them are left out, and
  so is the text of a JSON value: a response body is a list of what was written to it.
\<close>

section \<open>Requests\<close>

text \<open>
  The cookies are those net/http parsed from the request, in order; the body is represented by the
  outcome of decoding it as JSON into \<open>struct { Capacity int }\<close>, the only use gowait makes of one.
\<close>

record http_request =
  rq_Method :: string
  rq_URL :: url
  rq_EscapedPath :: string \<comment> \<open>\<open>EscapedPath()\<close> of the URL\<close>
  rq_Header :: "string \<Rightarrow> string" \<comment> \<open>\<open>Header.Get\<close>\<close>
  rq_Cookies :: "(string \<times> string) list"
  rq_Body :: "int result"

text \<open>\<open>Request.Cookie\<close>: the first cookie of that name.\<close>

definition request_cookie :: "http_request \<Rightarrow> string \<Rightarrow> string option" where
  "request_cookie r name = map_of (rq_Cookies r) name"

section \<open>Responses\<close>

record cookie =
  k_Name :: string
  k_Value :: string
  k_Path :: string
  k_HttpOnly :: bool
  k_SameSiteLax :: bool
  k_Secure :: bool

datatype json = JInt int | JFloat float64 | JString string | JObject "(string \<times> json) list"

datatype payload = Bytes string | Json json

text \<open>
  \<open>w_Forwarded\<close> is the request that was handed to the backend's handler, which then writes the
  response; \<open>w_Redirect\<close> the URL of a redirect.
\<close>

record writer =
  w_Header :: "string \<rightharpoonup> string"
  w_Cookies :: "cookie list"
  w_Code :: "int option"
  w_Redirect :: "url option"
  w_Body :: "payload list"
  w_Forwarded :: "http_request option"

definition new_writer :: writer where
  "new_writer = \<lparr>w_Header = Map.empty, w_Cookies = [], w_Code = None, w_Redirect = None, w_Body = [],
     w_Forwarded = None\<rparr>"

definition SetHeader :: "string \<Rightarrow> string \<Rightarrow> writer \<Rightarrow> writer" where
  "SetHeader k v w = w\<lparr>w_Header := (w_Header w)(k \<mapsto> v)\<rparr>"

definition SetCookie :: "cookie \<Rightarrow> writer \<Rightarrow> writer" where
  "SetCookie k w = w\<lparr>w_Cookies := w_Cookies w @ [k]\<rparr>"

text \<open>Only the first status code counts, and a write without one sends 200.\<close>

definition WriteHeader :: "int \<Rightarrow> writer \<Rightarrow> writer" where
  "WriteHeader code w = (case w_Code w of None \<Rightarrow> w\<lparr>w_Code := Some code\<rparr> | Some _ \<Rightarrow> w)"

definition Write :: "payload \<Rightarrow> writer \<Rightarrow> writer" where
  "Write p w = (let w = WriteHeader 200 w in w\<lparr>w_Body := w_Body w @ [p]\<rparr>)"

definition http_Error :: "string \<Rightarrow> int \<Rightarrow> writer \<Rightarrow> writer" where
  "http_Error msg code w =
     Write (Bytes (msg @ [CHR 0x0A]))
       (WriteHeader code
         (SetHeader ''X-Content-Type-Options'' ''nosniff''
           (SetHeader ''Content-Type'' ''text/plain; charset=utf-8'' w)))"

definition NotFound :: "writer \<Rightarrow> writer" where
  "NotFound w = http_Error ''404 page not found'' 404 w"

definition Redirect :: "url \<Rightarrow> int \<Rightarrow> writer \<Rightarrow> writer" where
  "Redirect u code w = WriteHeader code (w\<lparr>w_Redirect := Some u\<rparr>)"

definition Forward :: "http_request \<Rightarrow> writer \<Rightarrow> writer" where
  "Forward r w = w\<lparr>w_Forwarded := Some r\<rparr>"

lemma writer_code [simp]:
  "w_Code w = None \<Longrightarrow> w_Code (WriteHeader c w) = Some c"
  "w_Code (SetHeader k v w) = w_Code w" "w_Code (SetCookie ck w) = w_Code w"
  "w_Code w = None \<Longrightarrow> w_Code (http_Error msg c w) = Some c"
  "w_Code w = None \<Longrightarrow> w_Code (Redirect u c w) = Some c"
  "w_Code w = Some c \<Longrightarrow> w_Code (Write p w) = Some c"
  by (simp_all add: WriteHeader_def SetHeader_def SetCookie_def http_Error_def Write_def Redirect_def Let_def)

lemma writer_forwarded [simp]:
  "w_Forwarded (WriteHeader c w) = w_Forwarded w" "w_Forwarded (SetHeader k v w) = w_Forwarded w"
  "w_Forwarded (SetCookie ck w) = w_Forwarded w" "w_Forwarded (Write p w) = w_Forwarded w"
  "w_Forwarded (http_Error msg c w) = w_Forwarded w" "w_Forwarded (NotFound w) = w_Forwarded w"
  "w_Forwarded (Redirect u c w) = w_Forwarded w" "w_Forwarded (Forward r w) = Some r"
  by (simp_all add: WriteHeader_def SetHeader_def SetCookie_def http_Error_def Write_def Redirect_def
      NotFound_def Forward_def Let_def split: option.splits)

lemma writer_cookies [simp]:
  "w_Cookies (WriteHeader c w) = w_Cookies w" "w_Cookies (SetHeader k v w) = w_Cookies w"
  "w_Cookies (SetCookie ck w) = w_Cookies w @ [ck]" "w_Cookies (Write p w) = w_Cookies w"
  "w_Cookies (http_Error msg c w) = w_Cookies w" "w_Cookies (NotFound w) = w_Cookies w"
  "w_Cookies (Redirect u c w) = w_Cookies w" "w_Cookies (Forward r w) = w_Cookies w"
  by (simp_all add: WriteHeader_def SetHeader_def SetCookie_def http_Error_def Write_def Redirect_def
      NotFound_def Forward_def Let_def split: option.splits)

lemma writer_redirect [simp]:
  "w_Redirect (WriteHeader c w) = w_Redirect w" "w_Redirect (SetHeader k v w) = w_Redirect w"
  "w_Redirect (SetCookie ck w) = w_Redirect w" "w_Redirect (Write p w) = w_Redirect w"
  "w_Redirect (http_Error msg c w) = w_Redirect w" "w_Redirect (NotFound w) = w_Redirect w"
  "w_Redirect (Redirect u c w) = Some u" "w_Redirect (Forward r w) = w_Redirect w"
  by (simp_all add: WriteHeader_def SetHeader_def SetCookie_def http_Error_def Write_def Redirect_def
      NotFound_def Forward_def Let_def split: option.splits)

lemma writer_body [simp]:
  "w_Body (WriteHeader c w) = w_Body w" "w_Body (SetHeader k v w) = w_Body w"
  "w_Body (SetCookie ck w) = w_Body w" "w_Body (Write p w) = w_Body w @ [p]"
  "w_Body (Redirect u c w) = w_Body w" "w_Body (Forward r w) = w_Body w"
  by (simp_all add: WriteHeader_def SetHeader_def SetCookie_def Write_def Redirect_def
      Forward_def Let_def split: option.splits)

lemma new_writer_sel [simp]:
  "w_Forwarded new_writer = None" "w_Cookies new_writer = []" "w_Code new_writer = None"
  "w_Redirect new_writer = None" "w_Body new_writer = []"
  by (simp_all add: new_writer_def)

section \<open>Routing\<close>

text \<open>
  A pattern: an optional method, the literal segments, whether it ends in a slash and so matches
  everything below, and its handler. A path is split into unescaped segments; a final slash is the
  segment \<open>/\<close>.
\<close>

record 'h pattern =
  pt_Method :: "string option"
  pt_Segments :: "string list"
  pt_Multi :: bool
  pt_Handler :: 'h

definition path_segments :: "string \<Rightarrow> string list" where
  "path_segments p =
     (case p of
        [] \<Rightarrow> []
      | _ # t \<Rightarrow>
          let ss = split_on (CHR ''/'') t
          in map path_unescape (butlast ss) @ [if last ss = [] then ''/'' else path_unescape (last ss)])"

text \<open>
  The walk through the tree of patterns: the literal child first, and when nothing below it
  matches, the pattern that ends in a slash here.
\<close>

fun match_path :: "(string list \<times> 'h pattern) list \<Rightarrow> string list \<Rightarrow> 'h pattern option" where
  "match_path ps [] = map_option snd (find (\<lambda>(ss, p). ss = [] \<and> \<not> pt_Multi p) ps)"
| "match_path ps (seg # rest) =
     (case match_path (map (\<lambda>(ss, p). (tl ss, p)) (filter (\<lambda>(ss, p). ss \<noteq> [] \<and> hd ss = seg) ps)) rest of
        Some p \<Rightarrow> Some p
      | None \<Rightarrow> map_option snd (find (\<lambda>(ss, p). ss = [] \<and> pt_Multi p) ps))"

definition match_method :: "'h pattern list \<Rightarrow> string option \<Rightarrow> string list \<Rightarrow> 'h pattern option" where
  "match_method ps m segs =
     match_path (map (\<lambda>p. (pt_Segments p, p)) (filter (\<lambda>p. pt_Method p = m) ps)) segs"

text \<open>A pattern for the method goes first, then for HEAD one for GET, then one for any method.\<close>

definition match_pattern :: "'h pattern list \<Rightarrow> string \<Rightarrow> string \<Rightarrow> 'h pattern option" where
  "match_pattern ps m path =
     (let segs = path_segments path
      in case match_method ps (Some m) segs of
           Some p \<Rightarrow> Some p
         | None \<Rightarrow>
             case (if m = ''HEAD'' then match_method ps (Some ''GET'') segs else None) of
               Some p \<Rightarrow> Some p
             | None \<Rightarrow> match_method ps None segs)"

text \<open>\<open>exactMatch\<close>: the slash at the end of the pattern matches nothing more than itself.\<close>

definition exact_match :: "'h pattern option \<Rightarrow> string \<Rightarrow> bool" where
  "exact_match q path =
     (case q of
        None \<Rightarrow> False
      | Some p \<Rightarrow> \<not> pt_Multi p \<or>
          suffix ''/'' path \<and> length (pt_Segments p) + 1 = length (filter (\<lambda>c. c = CHR ''/'') path))"

text \<open>\<open>path.Clean\<close> of a rooted path, and \<open>cleanPath\<close>, which keeps a final slash.\<close>

fun clean_segments :: "string list \<Rightarrow> string list \<Rightarrow> string list" where
  "clean_segments acc [] = rev acc"
| "clean_segments acc (s # ss) =
     (if s = [] \<or> s = ''.'' then clean_segments acc ss
      else if s = ''..'' then clean_segments (tl acc) ss
      else clean_segments (s # acc) ss)"

definition path_clean :: "string \<Rightarrow> string" where
  "path_clean p = CHR ''/'' # join ''/'' (clean_segments [] (split_on (CHR ''/'') p))"

definition clean_path :: "string \<Rightarrow> string" where
  "clean_path p =
     (if p = [] then ''/''
      else let p = (if hd p \<noteq> CHR ''/'' then CHR ''/'' # p else p); np = path_clean p
           in if last p = CHR ''/'' \<and> np \<noteq> ''/'' then np @ ''/'' else np)"

datatype 'h route = Handle 'h | RedirectTo url | NoRoute

definition local_url :: "string \<Rightarrow> string \<Rightarrow> url" where
  "local_url path query = \<lparr>u_Scheme = [], u_Host = [], u_Path = path, u_RawQuery = query\<rparr>"

text \<open>
  \<open>findHandler\<close>: a path that is not clean, or lacks only the final slash of a pattern, is
  redirected; the method CONNECT is exempt from the cleaning. The query is kept.
\<close>

definition find_handler :: "'h pattern list \<Rightarrow> http_request \<Rightarrow> 'h route" where
  "find_handler ps r =
     (let m = rq_Method r; u = rq_URL r; escaped = rq_EscapedPath r;
          path = (if m = ''CONNECT'' then escaped else clean_path escaped);
          q = match_pattern ps m path
      in if \<not> exact_match q path \<and> \<not> suffix ''/'' path \<and> exact_match (match_pattern ps m (path @ ''/'')) (path @ ''/'')
         then RedirectTo (local_url (clean_path (u_Path u) @ ''/'') (u_RawQuery u))
         else if path \<noteq> escaped
         then RedirectTo (local_url path (u_RawQuery u))
         else case q of Some p \<Rightarrow> Handle (pt_Handler p) | None \<Rightarrow> NoRoute)"

end
