(* ===== verification/Server.thy ===== *)
theory Server
  imports Controller Ticket Config GoHttp
begin

text \<open>
  \<^verbatim>\<open>internal/server\<close>: the handlers of gowait and their routing (\<^verbatim>\<open>server.go\<close>, \<^verbatim>\<open>gatekeeper.go\<close>,
  \<^verbatim>\<open>status.go\<close>, \<^verbatim>\<open>admin.go\<close>). A handler takes the request and the writer of its response and changes the
  server's state; a panic of the controller is passed on. The registry the server counts in is the
  one \<^verbatim>\<open>main.go\<close> also gives to the controller, so it is the controller's field, and so is the clock.
  The store's operations and its lock, the random bytes and the formatting of times and floats are arguments,
  collected in \<open>request_env\<close>. The backend's handler only receives the request (\<open>Forward\<close>).
\<close>

section \<open>State\<close>

definition ticketCookie :: string where "ticketCookie = ''gowait_ticket''"
definition adminCookie :: string where "adminCookie = ''gowait_admin''"
definition adminHeader :: string where "adminHeader = ''X-Gowait-Admin''"
definition adminParam :: string where "adminParam = ''gowait_admin''"
definition ownPrefix :: string where "ownPrefix = ''/gowait/''"
definition adminSessionDuration :: dur where "adminSessionDuration = 43200 * second"

record 's server =
  sv_cfg :: settings
  sv_ctrl :: "'s controller"
  sv_signer :: signer
  sv_waitHTML :: string

record 's request_env =
  ev_ops :: "'s store_ops"
  ev_locker :: "'s locker_ops" \<comment> \<open>of a store that implements \<open>store.Locker\<close>\<close>
  ev_rand :: "string result" \<comment> \<open>the random bytes of a new identifier\<close>
  ev_RFC3339 :: "time \<Rightarrow> string"
  ev_fmt_g :: "float64 \<Rightarrow> string"
  ev_fmt_q :: "string \<Rightarrow> string"

text \<open>\<open>New\<close>: the page is rendered once.\<close>

definition new_server :: "'tmpl page_env \<Rightarrow> settings \<Rightarrow> 's controller \<Rightarrow> signer \<Rightarrow> 's server result" where
  "new_server pe cfg ctrl signer =
     and_also
       (Render pe \<lparr>o_PollInterval = c_PollInterval cfg, o_Lang = c_WaitLang cfg, o_Title = c_WaitTitle cfg,
          o_Brand = c_WaitBrand cfg, o_Message = c_WaitMessage cfg, o_TemplatePath = c_WaitTemplate cfg\<rparr>)
       (\<lambda>html. Ok \<lparr>sv_cfg = cfg, sv_ctrl = ctrl, sv_signer = signer, sv_waitHTML = html\<rparr>)"

text \<open>A call of the controller, a reading of the clock, a counted decision.\<close>

definition on_ctrl :: "('s controller \<Rightarrow> 'a \<times> 's controller) \<Rightarrow> 's server \<Rightarrow> 'a \<times> 's server" where
  "on_ctrl f s = (let (v, c) = f (sv_ctrl s) in (v, s\<lparr>sv_ctrl := c\<rparr>))"

definition IncDecision :: "string \<Rightarrow> 's server \<Rightarrow> 's server" where
  "IncDecision d s = s\<lparr>sv_ctrl := (sv_ctrl s)\<lparr>ct_metrics := IncRequest d (ct_metrics (sv_ctrl s))\<rparr>\<rparr>"

definition unix_sec :: "time \<Rightarrow> int" where
  "unix_sec t = s64 (t div second)"

section \<open>Cookies\<close>

definition setCookie :: "string \<Rightarrow> string \<Rightarrow> 's server \<Rightarrow> writer \<Rightarrow> writer" where
  "setCookie name payload s w =
     SetCookie \<lparr>k_Name = name, k_Value = Sign (sv_signer s) payload, k_Path = ''/'', k_HttpOnly = True,
                k_SameSiteLax = True, k_Secure = c_CookieSecure (sv_cfg s)\<rparr> w"

definition known_ticket :: "http_request \<Rightarrow> 's server \<Rightarrow> string option" where
  "known_ticket r s =
     (case request_cookie r ticketCookie of
        None \<Rightarrow> None
      | Some value \<Rightarrow>
          (case Verify (sv_signer s) value of
             None \<Rightarrow> None
           | Some i \<Rightarrow> if i \<noteq> [] then Some i else None))"

definition ticketID :: "'s request_env \<Rightarrow> http_request \<Rightarrow> writer \<Rightarrow> 's server \<Rightarrow> string result \<times> writer" where
  "ticketID env r w s =
     (case known_ticket r s of
        Some i \<Rightarrow> (Ok i, w)
      | None \<Rightarrow>
          (case NewID (ev_rand env) of
             Ok i \<Rightarrow> (Ok i, setCookie ticketCookie i s w)
           | Err e \<Rightarrow> (Err (''minting ticket: '' @ e), w)
           | Panic \<Rightarrow> (Panic, w)))"

definition isAdmin :: "http_request \<Rightarrow> 's server \<Rightarrow> bool \<times> 's server" where
  "isAdmin r s =
     (case request_cookie r adminCookie of
        None \<Rightarrow> (False, s)
      | Some value \<Rightarrow>
          (case Verify (sv_signer s) value of
             None \<Rightarrow> (False, s)
           | Some payload \<Rightarrow>
               if \<not> prefix ''admin:'' payload then (False, s)
               else case ParseInt 10 (trim_prefix payload ''admin:'') of
                      Inl e \<Rightarrow> (False, s)
                    | Inr expiry \<Rightarrow>
                        let (now, s) = on_ctrl read_clock s in (unix_sec now < expiry, s)))"

definition acceptsHTML :: "http_request \<Rightarrow> bool" where
  "acceptsHTML r = contains (rq_Header r ''Accept'') ''text/html''"

section \<open>The status endpoint\<close>

type_synonym 's handler = "http_request \<Rightarrow> writer \<Rightarrow> 's server \<Rightarrow> writer result \<times> 's server"

text \<open>The advertised wait in seconds, rounded up, and at least one poll interval while queued.\<close>

definition poll_seconds :: "'s server \<Rightarrow> int" where
  "poll_seconds s = f_trunc (seconds (c_PollInterval (sv_cfg s)))"

definition advertised_eta :: "qresult \<Rightarrow> 's server \<Rightarrow> int" where
  "advertised_eta res s =
     (let secs = ceiling (seconds (q_ETA res))
      in if q_Decision res \<noteq> DecisionProxy \<and> secs < poll_seconds s then poll_seconds s else secs)"

definition statusResponse :: "qresult \<Rightarrow> int \<Rightarrow> int \<Rightarrow> string \<Rightarrow> json" where
  "statusResponse res secs poll server_time =
     JObject [(''status'', JString (if q_Decision res = DecisionProxy then ''active'' else ''queued'')),
       (''position'', JInt (q_Position res)),
       (''queue_length'', JInt (q_QueueLength res)),
       (''active_users'', JInt (q_ActiveCount res)),
       (''eta_seconds'', JInt secs),
       (''poll_seconds'', JInt poll),
       (''server_time'', JString server_time)]"

definition writeStatusJSON :: "'s request_env \<Rightarrow> int \<Rightarrow> qresult \<Rightarrow> writer \<Rightarrow> 's server \<Rightarrow> writer \<times> 's server" where
  "writeStatusJSON env code res w s =
     (let secs = advertised_eta res s;
          w = WriteHeader code (SetHeader ''Content-Type'' ''application/json'' w);
          (now, s) = on_ctrl read_clock s
      in (Write (Json (statusResponse res secs (poll_seconds s) (ev_RFC3339 env now))) w, s))"

definition internal_error :: "writer \<Rightarrow> 's server \<Rightarrow> writer result \<times> 's server" where
  "internal_error w s = (Ok (http_Error ''internal error'' 500 w), s)"

definition handleStatus :: "'s request_env \<Rightarrow> 's handler" where
  "handleStatus env r w s =
     (case ticketID env r w s of
        (Ok i, w) \<Rightarrow>
          (case on_ctrl (StatusOf (ev_ops env) i) s of
             (Ok res, s) \<Rightarrow>
               let (w, s) = writeStatusJSON env 200 res (SetHeader ''Cache-Control'' ''no-store'' w) s
               in (Ok w, s)
           | (Err e, s) \<Rightarrow> internal_error w s
           | (Panic, s) \<Rightarrow> (Panic, s))
      | (Err e, w) \<Rightarrow> internal_error w s
      | (Panic, w) \<Rightarrow> (Panic, s))"

section \<open>The gatekeeper\<close>

definition adminKeyFrom :: "http_request \<Rightarrow> string \<times> bool" where
  "adminKeyFrom r =
     (let k = rq_Header r adminHeader
      in if k \<noteq> [] then (k, False)
         else (query_get (parse_query (u_RawQuery (rq_URL r))) adminParam, True))"

text \<open>The URL of the request without the key.\<close>

definition strip_key :: "url \<Rightarrow> url" where
  "strip_key u = u\<lparr>u_RawQuery := encode_query (query_del (parse_query (u_RawQuery u)) adminParam)\<rparr>"

definition admin_payload :: "time \<Rightarrow> string" where
  "admin_payload now = ''admin:'' @ itoa (unix_sec (now + adminSessionDuration))"

text \<open>A presented key: refused, or turned into an admin cookie.\<close>

definition admin_key_flow :: "string \<Rightarrow> bool \<Rightarrow> 's handler" where
  "admin_key_flow key fromQuery r w s =
     (if key \<noteq> c_AdminKey (sv_cfg s) then (Ok (http_Error ''invalid admin key'' 403 w), s)
      else let (now, s) = on_ctrl read_clock s;
               w = setCookie adminCookie (admin_payload now) s w
           in if fromQuery then (Ok (Redirect (strip_key (rq_URL r)) 302 w), s)
              else (Ok (Forward r w), IncDecision DecisionAdmin s))"

definition queue_flow :: "'s request_env \<Rightarrow> 's handler" where
  "queue_flow env r w s =
     (case ticketID env r w s of
        (Ok i, w) \<Rightarrow>
          (case on_ctrl (Check (ev_ops env) i) s of
             (Ok res, s) \<Rightarrow>
               if q_Decision res = DecisionProxy
               then (Ok (Forward r w), IncDecision DecisionProxied s)
               else
                 let s = IncDecision DecisionQueued s;
                     w = SetHeader ''Cache-Control'' ''no-store'' w
                 in if acceptsHTML r
                    then (Ok (Write (Bytes (sv_waitHTML s))
                                (WriteHeader 200 (SetHeader ''Content-Type'' ''text/html; charset=utf-8'' w))), s)
                    else let w = SetHeader ''Retry-After'' (itoa (poll_seconds s)) w;
                             (w, s) = writeStatusJSON env 503 res w s
                         in (Ok w, s)
           | (Err e, s) \<Rightarrow> internal_error w s
           | (Panic, s) \<Rightarrow> (Panic, s))
      | (Err e, w) \<Rightarrow> internal_error w s
      | (Panic, w) \<Rightarrow> (Panic, s))"

definition gatekeeper :: "'s request_env \<Rightarrow> 's handler" where
  "gatekeeper env r w s =
     (if c_AdminKey (sv_cfg s) \<noteq> []
      then let (key, fromQuery) = adminKeyFrom r
           in if key \<noteq> [] then admin_key_flow key fromQuery r w s
              else let (admin, s) = isAdmin r s
                   in if admin then (Ok (Forward r w), IncDecision DecisionAdmin s)
                      else queue_flow env r w s
      else queue_flow env r w s)"

section \<open>Health and metrics\<close>

definition handleHealthz :: "'s handler" where
  "handleHealthz r w s = (Ok (Write (Bytes ''ok'') (WriteHeader 200 w)), s)"

definition handleMetrics :: "'s request_env \<Rightarrow> 's handler" where
  "handleMetrics env r w s =
     (case on_ctrl (ctl_Stats (ev_ops env)) s of
        (Ok stats, s) \<Rightarrow>
          (Ok (Write (Bytes (concat (map (\<lambda>l. l @ [CHR 0x0A])
                 (WriteTo (ev_fmt_g env) (ev_fmt_q env) stats (Capacity (sv_ctrl s)) (ct_metrics (sv_ctrl s))))))
               (SetHeader ''Content-Type'' ''text/plain; version=0.0.4; charset=utf-8'' w)), s)
      | (Err e, s) \<Rightarrow> (Ok (http_Error ''stats unavailable'' 500 w), s)
      | (Panic, s) \<Rightarrow> (Panic, s))"

section \<open>The admin interface\<close>

definition writeJSON :: "int \<Rightarrow> json \<Rightarrow> writer \<Rightarrow> writer" where
  "writeJSON code v w = Write (Json v) (WriteHeader code (SetHeader ''Content-Type'' ''application/json'' w))"

definition adminAuthorized :: "http_request \<Rightarrow> 's server \<Rightarrow> bool \<times> 's server" where
  "adminAuthorized r s =
     (let k = rq_Header r adminHeader
      in if k \<noteq> [] then (k = c_AdminKey (sv_cfg s), s) else isAdmin r s)"

definition adminGuard :: "'s handler \<Rightarrow> 's handler" where
  "adminGuard h r w s =
     (if c_AdminKey (sv_cfg s) = [] then (Ok (NotFound w), s)
      else let (ok, s) = adminAuthorized r s
           in if \<not> ok then (Ok (http_Error ''forbidden'' 403 w), s) else h r w s)"

text \<open>A Go map is encoded in the order of its keys.\<close>

definition handleAdminStats :: "'s request_env \<Rightarrow> 's handler" where
  "handleAdminStats env r w s =
     (case on_ctrl (ctl_Stats (ev_ops env)) s of
        (Ok stats, s) \<Rightarrow>
          (Ok (writeJSON 200 (JObject [(''active_users'', JInt (st_ActiveCount stats)),
                 (''avg_session_seconds'', JFloat (st_AvgSessionSecs stats)),
                 (''capacity'', JInt (Capacity (sv_ctrl s))),
                 (''queue_length'', JInt (st_QueueLength stats))]) w), s)
      | (Err e, s) \<Rightarrow> (Ok (http_Error ''stats unavailable'' 500 w), s)
      | (Panic, s) \<Rightarrow> (Panic, s))"

definition handleAdminCapacityGet :: "'s handler" where
  "handleAdminCapacityGet r w s =
     (Ok (writeJSON 200 (JObject [(''capacity'', JInt (Capacity (sv_ctrl s)))]) w), s)"

definition handleAdminCapacityPut :: "'s request_env \<Rightarrow> 's handler" where
  "handleAdminCapacityPut env r w s =
     (case rq_Body r of
        Ok n \<Rightarrow>
          (case on_ctrl (ctl_SetCapacity (ev_ops env) n) s of
             (Ok _, s) \<Rightarrow> (Ok (writeJSON 200 (JObject [(''capacity'', JInt (Capacity (sv_ctrl s)))]) w), s)
           | (Err e, s) \<Rightarrow> (Ok (http_Error e 400 w), s)
           | (Panic, s) \<Rightarrow> (Panic, s))
      | _ \<Rightarrow> (Ok (http_Error ''invalid JSON body, want {\"capacity\": N}'' 400 w), s))"

definition handleAdminFlush :: "'s request_env \<Rightarrow> 's handler" where
  "handleAdminFlush env r w s =
     (case on_ctrl (ctl_Flush (ev_ops env)) s of
        (Ok n, s) \<Rightarrow> (Ok (writeJSON 200 (JObject [(''flushed'', JInt n)]) w), s)
      | (Err e, s) \<Rightarrow> (Ok (http_Error ''flush failed'' 500 w), s)
      | (Panic, s) \<Rightarrow> (Panic, s))"

definition handleAdminFallback :: "'s handler" where
  "handleAdminFallback r w s =
     (if u_Path (rq_URL r) \<in> {ownPrefix @ ''admin/stats'', ownPrefix @ ''admin/capacity'', ownPrefix @ ''admin/flush''}
      then (Ok (http_Error ''method not allowed'' 405 w), s)
      else (Ok (NotFound w), s))"

section \<open>Routing\<close>

datatype endpoint = Healthz | StatusEndpoint | MetricsEndpoint | AdminStats | AdminCapacityGet
  | AdminCapacityPut | AdminFlush | AdminFallback | Gatekeeper

text \<open>The patterns \<open>registerAdmin\<close> adds, and all of them.\<close>

definition registerAdmin :: "endpoint pattern list" where
  "registerAdmin =
    [\<lparr>pt_Method = Some ''GET'', pt_Segments = [''gowait'', ''admin'', ''stats''], pt_Multi = False, pt_Handler = AdminStats\<rparr>,
     \<lparr>pt_Method = Some ''GET'', pt_Segments = [''gowait'', ''admin'', ''capacity''], pt_Multi = False, pt_Handler = AdminCapacityGet\<rparr>,
     \<lparr>pt_Method = Some ''PUT'', pt_Segments = [''gowait'', ''admin'', ''capacity''], pt_Multi = False, pt_Handler = AdminCapacityPut\<rparr>,
     \<lparr>pt_Method = Some ''POST'', pt_Segments = [''gowait'', ''admin'', ''flush''], pt_Multi = False, pt_Handler = AdminFlush\<rparr>,
     \<lparr>pt_Method = None, pt_Segments = [''gowait'', ''admin''], pt_Multi = True, pt_Handler = AdminFallback\<rparr>]"

definition routes :: "bool \<Rightarrow> endpoint pattern list" where
  "routes metrics =
    [\<lparr>pt_Method = None, pt_Segments = [''gowait'', ''healthz''], pt_Multi = False, pt_Handler = Healthz\<rparr>,
     \<lparr>pt_Method = None, pt_Segments = [''gowait'', ''status''], pt_Multi = False, pt_Handler = StatusEndpoint\<rparr>] @
    (if metrics
     then [\<lparr>pt_Method = None, pt_Segments = [''gowait'', ''metrics''], pt_Multi = False, pt_Handler = MetricsEndpoint\<rparr>]
     else []) @
    registerAdmin @
    [\<lparr>pt_Method = None, pt_Segments = [], pt_Multi = True, pt_Handler = Gatekeeper\<rparr>]"

definition endpoint_handler :: "'s request_env \<Rightarrow> endpoint \<Rightarrow> 's handler" where
  "endpoint_handler env e =
     (case e of
        Healthz \<Rightarrow> handleHealthz
      | StatusEndpoint \<Rightarrow> handleStatus env
      | MetricsEndpoint \<Rightarrow> handleMetrics env
      | AdminStats \<Rightarrow> adminGuard (handleAdminStats env)
      | AdminCapacityGet \<Rightarrow> adminGuard handleAdminCapacityGet
      | AdminCapacityPut \<Rightarrow> adminGuard (handleAdminCapacityPut env)
      | AdminFlush \<Rightarrow> adminGuard (handleAdminFlush env)
      | AdminFallback \<Rightarrow> adminGuard handleAdminFallback
      | Gatekeeper \<Rightarrow> gatekeeper env)"

definition has_metrics :: "'s server \<Rightarrow> bool" where
  "has_metrics s \<longleftrightarrow> c_Metrics (sv_cfg s) \<and> ct_metrics (sv_ctrl s) \<noteq> None"

text \<open>
  The handler built by \<open>Handler\<close>, serving a request with a fresh writer. The status code of a
  redirect by the multiplexer depends on the release of Go and is left out.
\<close>

definition Handler :: "'s request_env \<Rightarrow> http_request \<Rightarrow> 's server \<Rightarrow> writer result \<times> 's server" where
  "Handler env r s =
     (case find_handler (routes (has_metrics s)) r of
        Handle e \<Rightarrow> endpoint_handler env e r new_writer s
      | RedirectTo u \<Rightarrow> (Ok (new_writer\<lparr>w_Redirect := Some u\<rparr>), s)
      | NoRoute \<Rightarrow> (Ok (NotFound new_writer), s))"

end
