(* ===== verification/ServerRun.thy ===== *)
theory ServerRun
  imports Server ControllerRun
begin

text \<open>
  Requests against the server, on any reliable store: every request is answered, by the backend, a
  redirect or a status code, without a panic, and the bounds of a run of the controller
  (\<open>ControllerRun\<close>) carry over to runs of HTTP requests and janitor ticks.
\<close>

section \<open>What a handler may change\<close>

definition answered :: "writer \<Rightarrow> bool" where
  "answered w \<longleftrightarrow> w_Forwarded w \<noteq> None \<or> w_Redirect w \<noteq> None \<or> w_Code w \<noteq> None"

lemma answered_intros:
  "answered (Forward r w)" "answered (http_Error msg c w)" "answered (Redirect u c w)" "answered (Write p w)"
  "answered (NotFound w)" "answered (writeJSON c v w)" "answered (w\<lparr>w_Redirect := Some u\<rparr>)"
  by (simp_all add: answered_def http_Error_def NotFound_def writeJSON_def Write_def WriteHeader_def Let_def
      split: option.splits)

lemma on_ctrl_eq: "on_ctrl f s = (fst (f (sv_ctrl s)), s\<lparr>sv_ctrl := snd (f (sv_ctrl s))\<rparr>)"
  by (simp add: on_ctrl_def split_beta Let_def)

lemma read_clock_eq: "read_clock c = (ct_clock c (ct_reads c), c\<lparr>ct_reads := ct_reads c + 1\<rparr>)"
  by (simp add: read_clock_def)

lemma isAdmin_state:
  "snd (isAdmin r s) = s \<or> snd (isAdmin r s) = s\<lparr>sv_ctrl := snd (read_clock (sv_ctrl s))\<rparr>"
  by (simp add: isAdmin_def on_ctrl_eq Let_def split: option.splits sum.splits)

lemma IncRequest_frame: "balanced n (IncRequest d m) = balanced n m"
  by (cases m) (simp_all add: IncRequest_def balanced_def)

text \<open>
  What the server, the janitor and the prober rely on: a controller whose calls never panic and keep
  an invariant, as long as no capacity above \<open>C\<close> is set and a new ticket can be numbered.
\<close>

locale controller_service =
  fixes ops :: "'e \<Rightarrow> 's store_ops"
    and legal :: "'e \<Rightarrow> bool"
    and bounded :: "int \<Rightarrow> 's controller \<Rightarrow> bool"
    and budget :: "'s \<Rightarrow> nat"
  assumes bounded_clock [intro]: "bounded C c \<Longrightarrow> bounded C (snd (read_clock c))"
    and bounded_count: "bounded C c \<Longrightarrow> bounded C (c\<lparr>ct_metrics := IncRequest d (ct_metrics c)\<rparr>)"
    and serve_keeps: "legal e \<Longrightarrow> bounded C c \<Longrightarrow> 0 < budget (ct_store c) \<Longrightarrow>
          (\<And>n. q = RSetCapacity n \<Longrightarrow> n \<le> C) \<Longrightarrow>
          fst (serve (ops e) q c) \<and> bounded C (snd (serve (ops e) q c)) \<and>
          budget (ct_store c) \<le> budget (ct_store (snd (serve (ops e) q c))) + 1"
begin

definition serves_well :: "int \<Rightarrow> 's controller \<Rightarrow> bool \<times> 's controller \<Rightarrow> bool" where
  "serves_well C c out \<longleftrightarrow> fst out \<and> bounded C (snd out) \<and>
     budget (ct_store c) \<le> budget (ct_store (snd out)) + 1"

lemma serve_Check: "legal e \<Longrightarrow> bounded C c \<Longrightarrow> 0 < budget (ct_store c) \<Longrightarrow> serves_well C c (serve (ops e) (RCheck i) c)"
  and serve_Status: "legal e \<Longrightarrow> bounded C c \<Longrightarrow> 0 < budget (ct_store c) \<Longrightarrow> serves_well C c (serve (ops e) (RStatus i) c)"
  and serve_Tick: "legal e \<Longrightarrow> bounded C c \<Longrightarrow> 0 < budget (ct_store c) \<Longrightarrow> serves_well C c (serve (ops e) RTick c)"
  and serve_SetCapacity: "legal e \<Longrightarrow> bounded C c \<Longrightarrow> 0 < budget (ct_store c) \<Longrightarrow> n \<le> C \<Longrightarrow>
    serves_well C c (serve (ops e) (RSetCapacity n) c)"
  and serve_Stats: "legal e \<Longrightarrow> bounded C c \<Longrightarrow> 0 < budget (ct_store c) \<Longrightarrow> serves_well C c (serve (ops e) RStats c)"
  and serve_Flush: "legal e \<Longrightarrow> bounded C c \<Longrightarrow> 0 < budget (ct_store c) \<Longrightarrow> serves_well C c (serve (ops e) RFlush c)"
  unfolding serves_well_def by (rule serve_keeps; simp)+

definition served :: "int \<Rightarrow> 's server \<Rightarrow> writer result \<times> 's server \<Rightarrow> bool" where
  "served C s out \<longleftrightarrow> (\<exists>w. fst out = Ok w \<and> answered w) \<and> bounded C (sv_ctrl (snd out)) \<and>
     budget (ct_store (sv_ctrl s)) \<le> budget (ct_store (sv_ctrl (snd out))) + 1"

lemma servedI:
  assumes "answered w" "bounded C (sv_ctrl s')" "budget (ct_store (sv_ctrl s)) \<le> budget (ct_store (sv_ctrl s')) + 1"
  shows "served C s (Ok w, s')"
  using assms by (simp add: served_def)

text \<open>What a call of the controller leaves, seen from the server.\<close>

lemma ctrl_call:
  assumes "serves_well C (sv_ctrl s) (no_panic (f (sv_ctrl s)))" and "on_ctrl f s = (out, s')"
  shows "out \<noteq> Panic" "bounded C (sv_ctrl s')"
    "budget (ct_store (sv_ctrl s)) \<le> budget (ct_store (sv_ctrl s')) + 1"
    "sv_cfg s' = sv_cfg s"
  using assms by (auto simp: serves_well_def no_panic_def on_ctrl_eq)

text \<open>A handler that makes one call and answers its value or its error.\<close>

lemma served_call:
  assumes "serves_well C (sv_ctrl s) (no_panic (f (sv_ctrl s)))"
    and "\<And>v s'. answered (g v s')" and "\<And>e. answered (h e)"
  shows "served C s (case on_ctrl f s of
      (Ok v, s') \<Rightarrow> (Ok (g v s'), s') | (Err e, s') \<Rightarrow> (Ok (h e), s') | (Panic, s') \<Rightarrow> (Panic, s'))"
proof -
  obtain out s1 where out: "on_ctrl f s = (out, s1)" by fastforce
  note c = ctrl_call [where f = f, OF assms(1) out]
  show ?thesis using c assms(2,3) by (cases out) (simp_all add: out servedI)
qed

lemma served_write_status:
  assumes "bounded C (sv_ctrl s')" "budget (ct_store (sv_ctrl s)) \<le> budget (ct_store (sv_ctrl s')) + 1"
  shows "served C s (let (w, s) = writeStatusJSON env code res w s' in (Ok w, s))"
  using assms bounded_clock [OF assms(1)]
  by (auto simp: writeStatusJSON_def on_ctrl_eq Let_def read_clock_eq split_beta intro!: servedI answered_intros)

lemma served_internal_error:
  assumes "bounded C (sv_ctrl s')" "budget (ct_store (sv_ctrl s)) \<le> budget (ct_store (sv_ctrl s')) + 1"
  shows "served C s (internal_error w s')"
  using assms by (simp add: internal_error_def servedI answered_intros)

lemma ticketID_no_panic: "ev_rand env \<noteq> Panic \<Longrightarrow> fst (ticketID env r w s) \<noteq> Panic"
  by (auto simp: ticketID_def NewID_def split: option.splits result.splits)

lemma served_status:
  assumes "legal e" "bounded C (sv_ctrl s)" "0 < budget (ct_store (sv_ctrl s))" "ev_ops env = ops e"
    "ev_rand env \<noteq> Panic"
  shows "served C s (handleStatus env r w s)"
proof -
  obtain t w1 where t: "ticketID env r w s = (t, w1)" by fastforce
  with ticketID_no_panic [OF assms(5), of r w s] have "t \<noteq> Panic" by simp
  have call: "serves_well C (sv_ctrl s) (no_panic (StatusOf (ev_ops env) i (sv_ctrl s)))" for i
    using serve_Status [OF assms(1-3), of i] assms(4) by simp
  show ?thesis
  proof (cases t)
    case (Ok i)
    obtain out s1 where out: "on_ctrl (StatusOf (ev_ops env) i) s = (out, s1)" by fastforce
    note c = ctrl_call [OF call out]
    show ?thesis
      using served_write_status [OF c(2,3)] served_internal_error [OF c(2,3)] c(1) Ok
      by (cases out) (simp_all add: handleStatus_def t out)
  qed (use assms(2) \<open>t \<noteq> Panic\<close> in \<open>simp_all add: handleStatus_def t served_internal_error\<close>)
qed

lemma served_queue_flow:
  assumes "legal e" "bounded C (sv_ctrl s)" "0 < budget (ct_store (sv_ctrl s))" "ev_ops env = ops e"
    "ev_rand env \<noteq> Panic"
  shows "served C s (queue_flow env r w s)"
proof -
  obtain t w1 where t: "ticketID env r w s = (t, w1)" by fastforce
  with ticketID_no_panic [OF assms(5), of r w s] have "t \<noteq> Panic" by simp
  have call: "serves_well C (sv_ctrl s) (no_panic (Check (ev_ops env) i (sv_ctrl s)))" for i
    using serve_Check [OF assms(1-3), of i] assms(4) by simp
  show ?thesis
  proof (cases t)
    case (Ok i)
    obtain out s1 where out: "on_ctrl (Check (ev_ops env) i) s = (out, s1)" by fastforce
    note c = ctrl_call [OF call out]
    have inc: "bounded C (sv_ctrl (IncDecision d s1))"
      "budget (ct_store (sv_ctrl s)) \<le> budget (ct_store (sv_ctrl (IncDecision d s1))) + 1" for d
      using bounded_count [OF c(2)] c(3) by (simp_all add: IncDecision_def)
    show ?thesis
    proof (cases out)
      case (Ok res)
      have "served C s (Ok v, IncDecision d s1)" if "answered v" for v d
        by (rule servedI [OF that inc])
      then show ?thesis
        using served_write_status [OF inc] \<open>t = Ok i\<close> Ok
        by (simp add: queue_flow_def t out Let_def answered_intros)
    qed (use c \<open>t = Ok i\<close> in \<open>simp_all add: queue_flow_def t out served_internal_error\<close>)
  qed (use assms(2) \<open>t \<noteq> Panic\<close> in \<open>simp_all add: queue_flow_def t served_internal_error\<close>)
qed

text \<open>A state that differs only in the readings of the clock serves the same.\<close>

lemma after_clock:
  assumes "s' = s \<or> s' = s\<lparr>sv_ctrl := snd (read_clock (sv_ctrl s))\<rparr>" "bounded C (sv_ctrl s)"
  shows "bounded C (sv_ctrl s')" "ct_store (sv_ctrl s') = ct_store (sv_ctrl s)"
  using assms bounded_clock [OF assms(2)] by (auto simp: read_clock_eq)

lemma served_clock:
  assumes "s' = s \<or> s' = s\<lparr>sv_ctrl := snd (read_clock (sv_ctrl s))\<rparr>" "served C s' out"
  shows "served C s out"
  using assms by (auto simp: served_def read_clock_eq)

lemma served_gatekeeper:
  assumes "legal e" "bounded C (sv_ctrl s)" "0 < budget (ct_store (sv_ctrl s))" "ev_ops env = ops e"
    "ev_rand env \<noteq> Panic"
  shows "served C s (gatekeeper env r w s)"
proof -
  have key: "served C s (admin_key_flow key fromQuery r w s)" for key fromQuery
    using assms(2) bounded_clock [OF assms(2)]
      bounded_count [OF bounded_clock [OF assms(2)], of DecisionAdmin]
    by (simp add: admin_key_flow_def on_ctrl_eq read_clock_eq IncDecision_def Let_def servedI answered_intros)
  obtain admin s1 where s1: "isAdmin r s = (admin, s1)" by fastforce
  with isAdmin_state [of r s] have st: "s1 = s \<or> s1 = s\<lparr>sv_ctrl := snd (read_clock (sv_ctrl s))\<rparr>" by simp
  note st1 = after_clock [OF st assms(2)]
  have "served C s1 (queue_flow env r w s1)"
    using served_queue_flow [OF assms(1) st1(1) _ assms(4,5)] assms(3) st1(2) by simp
  moreover have "served C s1 (Ok (Forward r w), IncDecision DecisionAdmin s1)"
    using bounded_count [OF st1(1)] by (simp add: IncDecision_def servedI answered_intros)
  ultimately show ?thesis
    using key served_queue_flow [OF assms] served_clock [OF st]
    by (simp add: gatekeeper_def s1 split_beta Let_def)
qed

lemma served_guard:
  assumes "bounded C (sv_ctrl s)" "0 < budget (ct_store (sv_ctrl s))"
    and "\<And>s'. bounded C (sv_ctrl s') \<Longrightarrow> 0 < budget (ct_store (sv_ctrl s')) \<Longrightarrow> served C s' (h r w s')"
  shows "served C s (adminGuard h r w s)"
proof -
  obtain ok s1 where s1: "adminAuthorized r s = (ok, s1)" by fastforce
  then have st: "s1 = s \<or> s1 = s\<lparr>sv_ctrl := snd (read_clock (sv_ctrl s))\<rparr>"
    using isAdmin_state [of r s] by (auto simp: adminAuthorized_def Let_def split: if_splits)
  note st1 = after_clock [OF st assms(1)]
  show ?thesis
    using assms served_clock [OF st assms(3) [OF st1(1)]] st1
    by (auto simp: adminGuard_def s1 intro!: servedI answered_intros)
qed

lemma served_endpoint:
  assumes "legal e" "bounded C (sv_ctrl s)" "0 < budget (ct_store (sv_ctrl s))" "ev_ops env = ops e"
    "ev_rand env \<noteq> Panic" "\<And>n. rq_Body r = Ok n \<Longrightarrow> n \<le> C"
  shows "served C s (endpoint_handler env ep r w s)"
proof -
  have stats: "serves_well C (sv_ctrl s) (no_panic (ctl_Stats (ev_ops env) (sv_ctrl s)))"
    if "bounded C (sv_ctrl s)" "0 < budget (ct_store (sv_ctrl s))" for s :: "'s server"
    using serve_Stats [OF assms(1) that] assms(4) by simp
  have flush: "serves_well C (sv_ctrl s) (no_panic (ctl_Flush (ev_ops env) (sv_ctrl s)))"
    if "bounded C (sv_ctrl s)" "0 < budget (ct_store (sv_ctrl s))" for s :: "'s server"
    using serve_Flush [OF assms(1) that] assms(4) by simp
  have put: "serves_well C (sv_ctrl s) (no_panic (ctl_SetCapacity (ev_ops env) n (sv_ctrl s)))"
    if "bounded C (sv_ctrl s)" "0 < budget (ct_store (sv_ctrl s))" "n \<le> C" for s :: "'s server" and n
    using serve_SetCapacity [OF assms(1) that] assms(4) by simp
  have "served C s (handleMetrics env r w s)"
    unfolding handleMetrics_def by (intro served_call stats assms(2,3) answered_intros)
  moreover have "served C s (handleAdminStats env r w s)" if "bounded C (sv_ctrl s)" "0 < budget (ct_store (sv_ctrl s))" for s
    unfolding handleAdminStats_def by (intro served_call stats that answered_intros)
  moreover have "served C s (handleAdminFlush env r w s)" if "bounded C (sv_ctrl s)" "0 < budget (ct_store (sv_ctrl s))" for s
    unfolding handleAdminFlush_def by (intro served_call flush that answered_intros)
  moreover have "served C s (handleAdminCapacityPut env r w s)" if "bounded C (sv_ctrl s)" "0 < budget (ct_store (sv_ctrl s))" for s
  proof (cases "rq_Body r")
    case (Ok n)
    have "served C s (case on_ctrl (ctl_SetCapacity (ev_ops env) n) s of
        (Ok _, s) \<Rightarrow> (Ok (writeJSON 200 (JObject [(''capacity'', JInt (Capacity (sv_ctrl s)))]) w), s)
      | (Err e, s) \<Rightarrow> (Ok (http_Error e 400 w), s) | (Panic, s) \<Rightarrow> (Panic, s))"
      by (intro served_call put that assms(6) Ok answered_intros)
    then show ?thesis by (simp add: handleAdminCapacityPut_def Ok)
  qed (use that in \<open>simp_all add: handleAdminCapacityPut_def servedI answered_intros\<close>)
  moreover have "served C s (handleAdminCapacityGet r w s)" "served C s (handleAdminFallback r w s)"
    "served C s (handleHealthz r w s)" if "bounded C (sv_ctrl s)" for s
    using that by (auto simp: handleAdminCapacityGet_def handleAdminFallback_def handleHealthz_def
        intro!: servedI answered_intros)
  ultimately show ?thesis
    using assms(2) served_gatekeeper [OF assms(1-5)] served_status [OF assms(1-5)] served_guard [OF assms(2,3)]
    by (cases ep) (simp_all add: endpoint_handler_def)
qed

lemma served_Handler:
  assumes "legal e" "bounded C (sv_ctrl s)" "0 < budget (ct_store (sv_ctrl s))" "ev_ops env = ops e"
    "ev_rand env \<noteq> Panic" "\<And>n. rq_Body r = Ok n \<Longrightarrow> n \<le> C"
  shows "served C s (Handler env r s)"
  using served_endpoint [OF assms] assms(2)
  by (auto simp: Handler_def split: route.splits intro!: servedI answered_intros)

end

text \<open>The controller on a reliable store is such a service, and its invariant also accounts for the
  sessions in the metrics.\<close>

context controlled_store
begin

lemma bounded_service: "controller_service ops legal bounded budget"
proof
  fix C c d e q
  show "bounded C c \<Longrightarrow> bounded C (snd (read_clock c))"
    by (simp add: read_clock_eq bounded_def Capacity_def accounts_def)
  show "bounded C c \<Longrightarrow> bounded C (c\<lparr>ct_metrics := IncRequest d (ct_metrics c)\<rparr>)"
    by (simp add: bounded_def Capacity_def accounts_def IncRequest_frame)
  show "fst (serve (ops e) q c) \<and> bounded C (snd (serve (ops e) q c)) \<and>
      budget (ct_store c) \<le> budget (ct_store (snd (serve (ops e) q c))) + 1"
    if "legal e" "bounded C c" "0 < budget (ct_store c)" "\<And>n. q = RSetCapacity n \<Longrightarrow> n \<le> C"
    using serve_bounded [OF that(1,2) _ that(4)] that(3) by (simp add: serves_well_def)
qed

end

sublocale controlled_store \<subseteq> served: controller_service ops legal bounded budget
  by (rule bounded_service)

end
