(* ===== verification/Gowait.thy ===== *)
theory Gowait
  imports ServerRun Prober
begin

text \<open>
  \<^verbatim>\<open>cmd/gowait/main.go\<close>: \<open>run\<close> loads the configuration, opens the store, and wires the controller,
  the registry, the server and the prober; then the process serves requests while the janitor and
  the prober tick. Signals, sockets and log lines are left out. What the process finds at its start
  (arguments, environment, random bytes, clock, files) is the record \<open>boot\<close>.
\<close>

section \<open>Wiring\<close>

record ('s, 'tmpl) boot =
  bt_url_parse :: "string \<Rightarrow> url result"
  bt_quote :: "string \<Rightarrow> string"
  bt_environ :: environment
  bt_args :: "string list"
  bt_rand :: "string result"
  bt_hmac :: "string \<Rightarrow> string \<Rightarrow> string"
  bt_page :: "'tmpl page_env"
  bt_clock :: "nat \<Rightarrow> time"
  bt_version :: string
  bt_memory_New :: 's
  bt_valkey_New :: "string \<Rightarrow> string \<Rightarrow> 's result"

definition cookie_secret :: "string result \<Rightarrow> settings \<Rightarrow> string result" where
  "cookie_secret rnd cfg = (if c_CookieSecret cfg = [] then NewSecret rnd else Ok (c_CookieSecret cfg))"

definition open_store :: "('s, 'tmpl) boot \<Rightarrow> settings \<Rightarrow> 's result" where
  "open_store b cfg =
     (if c_Store cfg = ''valkey'' then bt_valkey_New b (c_ValkeyURL cfg) (c_ValkeyPrefix cfg)
      else Ok (bt_memory_New b))"

definition queue_config :: "settings \<Rightarrow> config" where
  "queue_config cfg =
     (let qcfg = \<lparr>cfg_Capacity = c_Capacity cfg, cfg_ActiveTTL = c_InactivityTTL cfg,
                  cfg_QueueTTL = c_QueueTTL cfg, cfg_MinReconcileGap = 0, cfg_StatsCacheTTL = 0\<rparr>
      in if c_Store cfg = ''valkey''
         then qcfg\<lparr>cfg_MinReconcileGap := 250 * millisecond, cfg_StatsCacheTTL := c_PollInterval cfg\<rparr>
         else qcfg)"

definition start_controller :: "('s, 'tmpl) boot \<Rightarrow> settings \<Rightarrow> 's \<Rightarrow> 's controller" where
  "start_controller b cfg st =
     (let ctrl = new_controller st (queue_config cfg) (bt_clock b)
      in if c_Metrics cfg then SetMetrics (Some (new_registry (bt_version b))) ctrl else ctrl)"

definition start_prober :: "settings \<Rightarrow> prober option" where
  "start_prober cfg =
     (if c_ProbeURL cfg \<noteq> []
      then Some (new_prober \<lparr>pr_Interval = c_ProbeInterval cfg, pr_Min = c_ProbeMin cfg, pr_Max = c_ProbeMax cfg\<rparr>)
      else None)"

text \<open>\<open>st.(store.Locker)\<close>: the Valkey store implements it, the memory store does not.\<close>

record 's site =
  si_server :: "'s server"
  si_prober :: "prober option"
  si_locker :: bool

definition start :: "('s, 'tmpl) boot \<Rightarrow> 's site result" where
  "start b =
     and_also (Load (bt_url_parse b) (bt_quote b) (bt_environ b) (bt_args b)) (\<lambda>cfg.
     and_also (cookie_secret (bt_rand b) cfg) (\<lambda>secret.
     and_also (open_store b cfg) (\<lambda>st.
     and_also (new_server (bt_page b) cfg (start_controller b cfg st) (NewSigner (bt_hmac b) secret)) (\<lambda>srv.
     Ok \<lparr>si_server = srv, si_prober = start_prober cfg, si_locker = (c_Store cfg = ''valkey'')\<rparr>))))"

section \<open>The running process\<close>

text \<open>
  An event is a request to the HTTP server, a tick of the janitor, or a tick of the prober with
  the outcome of its probe; the events take effect one after the other. A step says whether the
  event was dealt with: a request answered, nothing panicking.
\<close>

datatype event = Request http_request | JanitorTick | ProbeTick probe_outcome

definition probe_tick :: "'s request_env \<Rightarrow> probe_outcome \<Rightarrow> 's site \<Rightarrow> bool \<times> 's site" where
  "probe_tick env x si =
     (case si_prober si of
        None \<Rightarrow> (True, si)
      | Some p \<Rightarrow>
          (case tick (queue_controller (ev_ops env))
                  (if si_locker si then Some (store_locker (ev_locker env)) else None)
                  x (p, sv_ctrl (si_server si)) of
             (out, p', c') \<Rightarrow>
               (out \<noteq> Panic, si\<lparr>si_prober := Some p', si_server := (si_server si)\<lparr>sv_ctrl := c'\<rparr>\<rparr>)))"

fun site_step :: "'s request_env \<Rightarrow> event \<Rightarrow> 's site \<Rightarrow> bool \<times> 's site" where
  "site_step env (Request r) si =
     (let (out, srv) = Handler env r (si_server si)
      in ((case out of Ok w \<Rightarrow> answered w | _ \<Rightarrow> False), si\<lparr>si_server := srv\<rparr>))"
| "site_step env JanitorTick si =
     (let (out, srv) = on_ctrl (janitor_tick (ev_ops env)) (si_server si)
      in (out \<noteq> Panic, si\<lparr>si_server := srv\<rparr>))"
| "site_step env (ProbeTick x) si = probe_tick env x si"

fun site_run :: "('s request_env \<times> event) list \<Rightarrow> 's site \<Rightarrow> bool \<times> 's site" where
  "site_run [] si = (True, si)"
| "site_run ((env, ev) # evs) si =
     (let (ok, si) = site_step env ev si; (oks, si) = site_run evs si in (ok \<and> oks, si))"

section \<open>Runs stay bounded\<close>

lemma site_step_locker [simp]: "si_locker (snd (site_step env ev si)) = si_locker si"
  by (cases ev) (simp_all add: probe_tick_def split_beta Let_def split: option.splits)

context controller_service
begin

definition site_bounded :: "int \<Rightarrow> 's site \<Rightarrow> bool" where
  "site_bounded C si \<longleftrightarrow> bounded C (sv_ctrl (si_server si)) \<and>
     (\<forall>p. si_prober si = Some p \<longrightarrow> pr_Max (p_cfg p) \<le> C)"

text \<open>
  A lock that does not disturb the store. What an event may ask for: a legal environment, with such a
  lock where the store has one, and at most capacity \<open>C\<close>.
\<close>

definition quiet_lock :: "'s locker_ops \<Rightarrow> bool" where
  "quiet_lock lk \<longleftrightarrow> (\<forall>C name ttl c. bounded C c \<longrightarrow>
     fst (lk_TryLock lk name ttl (ct_store c)) \<noteq> Panic \<and>
     bounded C (c\<lparr>ct_store := snd (lk_TryLock lk name ttl (ct_store c))\<rparr>) \<and>
     budget (ct_store c) \<le> budget (snd (lk_TryLock lk name ttl (ct_store c))))"

definition allowed :: "int \<Rightarrow> bool \<Rightarrow> 's request_env \<times> event \<Rightarrow> bool" where
  "allowed C locked x \<longleftrightarrow> (\<exists>e. legal e \<and> ev_ops (fst x) = ops e) \<and>
     (locked \<longrightarrow> quiet_lock (ev_locker (fst x))) \<and> ev_rand (fst x) \<noteq> Panic \<and>
     (\<forall>r n. snd x = Request r \<longrightarrow> rq_Body r = Ok n \<longrightarrow> n \<le> C)"

text \<open>A round of the prober leaves the controller alone or sets a capacity up to its maximum.\<close>

definition capped_step ::
  "'s store_ops \<Rightarrow> int \<Rightarrow> 's controller \<Rightarrow> prober \<Rightarrow> unit result \<times> prober \<times> 's controller \<Rightarrow> bool" where
  "capped_step st_ops M c p' out \<longleftrightarrow> out = (Ok (), p', c) \<or>
     (\<exists>n res c'. n \<le> M \<and> ctl_SetCapacity st_ops n c = (res, c') \<and>
        out = (if res = Panic then Panic else Ok (), p', c'))"

lemma set_next_capped:
  "capped_step st_ops (pr_Max (p_cfg p)) c p (set_next (queue_controller st_ops) cur k (p, c))"
proof -
  let ?n = "clamp_next (p_cfg p) k"
  obtain res c' where res: "ctl_SetCapacity st_ops ?n c = (res, c')" by fastforce
  have "?n \<le> pr_Max (p_cfg p)" by (simp add: clamp_next_def Let_def)
  moreover have "set_next (queue_controller st_ops) cur k (p, c) =
      (if ?n = cur then (Ok (), p, c) else (if res = Panic then Panic else Ok (), p, c'))"
    by (cases res) (simp_all add: set_next_def queue_controller_def res)
  ultimately show ?thesis unfolding capped_step_def using res by metis
qed

lemma adjust_capped:
  "\<exists>p'. p_cfg p' = p_cfg p \<and>
     capped_step st_ops (pr_Max (p_cfg p)) c p' (adjust (queue_controller st_ops) healthy (p, c))"
proof -
  let ?p = "p\<lparr>p_successes := s64 (p_successes p + 1)\<rparr>"
  consider "healthy" "s64 (p_successes p + 1) < successesPerIncrease"
    | "healthy" "\<not> s64 (p_successes p + 1) < successesPerIncrease" | "\<not> healthy" by blast
  then show ?thesis
  proof cases
    case 1
    then have "adjust (queue_controller st_ops) healthy (p, c) = (Ok (), ?p, c)"
      by (simp add: adjust_def Let_def)
    then show ?thesis by (intro exI [of _ ?p]) (simp add: capped_step_def)
  next
    case 2
    then show ?thesis using set_next_capped [of st_ops "p\<lparr>p_successes := 0\<rparr>" c]
      by (intro exI [of _ "p\<lparr>p_successes := 0\<rparr>"]) (simp add: adjust_def Let_def)
  next
    case 3
    then show ?thesis using set_next_capped [of st_ops "p\<lparr>p_successes := 0\<rparr>" c]
      by (intro exI [of _ "p\<lparr>p_successes := 0\<rparr>"]) (simp add: adjust_def Let_def)
  qed
qed

lemma adjust_bounded:
  assumes "legal e" "bounded C c" "0 < budget (ct_store c)" "pr_Max (p_cfg p) \<le> C"
  shows "\<exists>p' c'. adjust (queue_controller (ops e)) healthy (p, c) = (Ok (), p', c') \<and> p_cfg p' = p_cfg p \<and>
    bounded C c' \<and> budget (ct_store c) \<le> budget (ct_store c') + 1"
proof -
  obtain p' where p': "p_cfg p' = p_cfg p"
    and step: "capped_step (ops e) (pr_Max (p_cfg p)) c p' (adjust (queue_controller (ops e)) healthy (p, c))"
    using adjust_capped [of p "ops e" c healthy] by blast
  from step consider "adjust (queue_controller (ops e)) healthy (p, c) = (Ok (), p', c)"
    | n res c' where "n \<le> pr_Max (p_cfg p)" "ctl_SetCapacity (ops e) n c = (res, c')"
      "adjust (queue_controller (ops e)) healthy (p, c) = (if res = Panic then Panic else Ok (), p', c')"
    unfolding capped_step_def by blast
  then show ?thesis
  proof cases
    case 1
    with assms(2) p' show ?thesis by simp
  next
    case 2
    have "serves_well C c (no_panic (ctl_SetCapacity (ops e) n c))"
      using serve_SetCapacity [OF assms(1-3), of n] 2(1) assms(4) by simp
    with 2 p' show ?thesis by (simp add: serves_well_def no_panic_def)
  qed
qed

lemma probe_tick_bounded:
  assumes "allowed C (si_locker si) (env, ev)" "site_bounded C si" "0 < budget (ct_store (sv_ctrl (si_server si)))"
  shows "fst (probe_tick env x si) \<and> site_bounded C (snd (probe_tick env x si)) \<and>
    budget (ct_store (sv_ctrl (si_server si))) \<le>
      budget (ct_store (sv_ctrl (si_server (snd (probe_tick env x si))))) + 1"
proof (cases "si_prober si")
  case None
  with assms show ?thesis by (simp add: probe_tick_def)
next
  case (Some p)
  let ?c = "sv_ctrl (si_server si)" and ?lk = "ev_locker env"
  obtain e where e: "legal e" "ev_ops env = ops e" "si_locker si \<Longrightarrow> quiet_lock ?lk" using assms(1) by (auto simp: allowed_def)
  have b: "bounded C ?c" "pr_Max (p_cfg p) \<le> C" using assms(2) Some by (auto simp: site_bounded_def)
  obtain r s where lk: "lk_TryLock ?lk lockName (pr_Interval (p_cfg p)) (ct_store ?c) = (r, s)" by fastforce
  let ?c1 = "if si_locker si then ?c\<lparr>ct_store := s\<rparr> else ?c"
  have "r \<noteq> Panic \<and> bounded C (?c\<lparr>ct_store := s\<rparr>) \<and> budget (ct_store ?c) \<le> budget s" if "si_locker si"
    using e(3) [OF that] b(1) lk unfolding quiet_lock_def by (metis fst_conv snd_conv)
  then have c1: "si_locker si \<Longrightarrow> r \<noteq> Panic" "bounded C ?c1" "budget (ct_store ?c) \<le> budget (ct_store ?c1)" using b(1) by simp_all
  obtain p' c' where a: "adjust (queue_controller (ops e)) (probe x) (p, ?c1) = (Ok (), p', c')"
    "p_cfg p' = p_cfg p" "bounded C c'" "budget (ct_store ?c1) \<le> budget (ct_store c') + 1"
    using adjust_bounded [OF e(1) c1(2) less_le_trans [OF assms(3) c1(3)] b(2)] by blast
  have "tick (queue_controller (ops e)) (if si_locker si then Some (store_locker ?lk) else None) x (p, ?c) \<in>
      {(Ok (), p', c'), (Ok (), p, ?c1)}"
    using a(1) c1(1) lk by (cases "si_locker si"; cases r) (auto simp: tick_def store_locker_def on_store_def)
  with a c1 b assms(2) show ?thesis
    by (auto simp: probe_tick_def Some e(2) site_bounded_def split: prod.splits)
qed

lemma site_step_bounded:
  assumes "allowed C (si_locker si) (env, ev)" "site_bounded C si" "0 < budget (ct_store (sv_ctrl (si_server si)))"
  shows "fst (site_step env ev si) \<and> site_bounded C (snd (site_step env ev si)) \<and>
    budget (ct_store (sv_ctrl (si_server si))) \<le>
      budget (ct_store (sv_ctrl (si_server (snd (site_step env ev si))))) + 1"
proof -
  obtain e where e: "legal e" "ev_ops env = ops e" using assms(1) by (auto simp: allowed_def)
  have b: "bounded C (sv_ctrl (si_server si))" using assms(2) by (simp add: site_bounded_def)
  show ?thesis
  proof (cases ev)
    case (Request r)
    have "served C (si_server si) (Handler env r (si_server si))"
      using assms(1) by (intro served_Handler [OF e(1) b assms(3) e(2)]) (simp_all add: allowed_def Request)
    with assms(2) Request show ?thesis
      by (auto simp: served_def site_bounded_def split_beta Let_def)
  next
    case JanitorTick
    have "serves_well C (sv_ctrl (si_server si)) (no_panic (janitor_tick (ops e) (sv_ctrl (si_server si))))"
      using serve_Tick [OF e(1) b assms(3)] by simp
    with assms(2) JanitorTick e(2) show ?thesis
      by (simp add: serves_well_def no_panic_def on_ctrl_eq site_bounded_def)
  next
    case (ProbeTick x)
    with probe_tick_bounded [OF assms] show ?thesis by simp
  qed
qed

lemma site_run_bounded:
  assumes "\<forall>x \<in> set evs. allowed C (si_locker si) x" "site_bounded C si"
    "length evs \<le> budget (ct_store (sv_ctrl (si_server si)))"
  shows "fst (site_run evs si) \<and> site_bounded C (snd (site_run evs si))"
  using assms
proof (induction evs arbitrary: si)
  case (Cons x evs)
  obtain env ev where x: "x = (env, ev)" by fastforce
  have step: "fst (site_step env ev si)" "site_bounded C (snd (site_step env ev si))"
    "length evs \<le> budget (ct_store (sv_ctrl (si_server (snd (site_step env ev si)))))"
    using site_step_bounded [of C si env ev] Cons.prems by (auto simp: x)
  with Cons.IH [of "snd (site_step env ev si)"] Cons.prems(1) show ?case
    by (simp add: x split_beta Let_def)
qed simp

end

end
