(* ===== verification/ServerRoutes.thy ===== *)
theory ServerRoutes
  imports Server
begin

text \<open>
  Where a request goes: the patterns that \<open>Handler\<close> and \<open>registerAdmin\<close> mount, walked by the
  multiplexer, as a decision on the segments of the path and the method.
\<close>

section \<open>Paths and their segments\<close>

lemma length_split_on: "length (split_on c s) = length (filter (\<lambda>x. x = c) s) + 1"
proof (induction s)
  case (Cons x s)
  then show ?case by (cases "split_on c s") auto
qed simp

lemma split_on_nonempty [simp]: "split_on c s \<noteq> []"
  using length_split_on [of c s] by auto

lemma split_on_snoc: "split_on c (s @ [c]) = split_on c s @ [[]]"
proof (induction s)
  case (Cons x s)
  then show ?case by (cases "split_on c s") auto
qed simp

lemma split_on_snoc_other:
  "x \<noteq> c \<Longrightarrow> split_on c (s @ [x]) = butlast (split_on c s) @ [last (split_on c s) @ [x]]"
proof (induction s)
  case (Cons y s)
  then show ?case by (cases "split_on c s") (auto split: list.splits)
qed simp

lemma split_on_last_empty: "last (split_on c s) = [] \<longleftrightarrow> s = [] \<or> last s = c"
proof (induction s rule: rev_induct)
  case (snoc x s)
  show ?case by (cases "x = c") (simp_all add: split_on_snoc split_on_snoc_other)
qed simp

lemma length_path_segments:
  "length (path_segments (CHR ''/'' # t)) = length (filter (\<lambda>c. c = CHR ''/'') (CHR ''/'' # t))"
  using length_split_on [of "CHR ''/''" t] by (simp add: path_segments_def Let_def)

lemma path_segments_slash:
  assumes "t \<noteq> []" "last t \<noteq> CHR ''/''"
  shows "path_segments (CHR ''/'' # t @ ''/'') = path_segments (CHR ''/'' # t) @ [''/'']"
proof -
  let ?ss = "split_on (CHR ''/'') t"
  have "last ?ss \<noteq> []" using assms by (simp add: split_on_last_empty)
  then have "path_segments (CHR ''/'' # t) = map path_unescape (butlast ?ss @ [last ?ss])"
    by (simp add: path_segments_def Let_def del: append_butlast_last_id)
  also have "\<dots> = map path_unescape ?ss" by simp
  finally show ?thesis by (simp add: path_segments_def split_on_snoc Let_def)
qed

lemma clean_path_rooted: "clean_path p = p \<Longrightarrow> \<exists>t. p = CHR ''/'' # t"
  by (cases p) (auto simp: clean_path_def path_clean_def Let_def split: if_splits)

section \<open>The table of patterns\<close>

definition admin_endpoint :: "string \<Rightarrow> string list \<Rightarrow> endpoint" where
  "admin_endpoint m rest =
     (if rest = [''stats''] \<and> m \<in> {''GET'', ''HEAD''} then AdminStats
      else if rest = [''capacity''] \<and> m \<in> {''GET'', ''HEAD''} then AdminCapacityGet
      else if rest = [''capacity''] \<and> m = ''PUT'' then AdminCapacityPut
      else if rest = [''flush''] \<and> m = ''POST'' then AdminFlush
      else AdminFallback)"

definition endpoint_for :: "bool \<Rightarrow> string \<Rightarrow> string list \<Rightarrow> endpoint" where
  "endpoint_for metrics m segs =
     (if segs = [''gowait'', ''healthz''] then Healthz
      else if segs = [''gowait'', ''status''] then StatusEndpoint
      else if metrics \<and> segs = [''gowait'', ''metrics''] then MetricsEndpoint
      else if take 2 segs = [''gowait'', ''admin''] \<and> 3 \<le> length segs then admin_endpoint m (drop 2 segs)
      else Gatekeeper)"

lemma match_path_Nil [simp]: "match_path [] segs = None"
  by (induction segs) simp_all

lemma match_method_some:
  "map_option pt_Handler (match_method (routes metrics) (Some m) segs) =
     (if segs = [''gowait'', ''admin'', ''stats''] \<and> m = ''GET'' then Some AdminStats
      else if segs = [''gowait'', ''admin'', ''capacity''] \<and> m = ''GET'' then Some AdminCapacityGet
      else if segs = [''gowait'', ''admin'', ''capacity''] \<and> m = ''PUT'' then Some AdminCapacityPut
      else if segs = [''gowait'', ''admin'', ''flush''] \<and> m = ''POST'' then Some AdminFlush
      else None)"
  (is "?l = ?r")
proof -
  note defs = match_method_def routes_def registerAdmin_def
  consider "m = ''GET''" | "m = ''PUT''" | "m = ''POST''" | "m \<noteq> ''GET''" "m \<noteq> ''PUT''" "m \<noteq> ''POST''" by blast
  note methods = this
  show ?thesis
  proof (cases "\<exists>c r. segs = ''gowait'' # ''admin'' # c # r")
    case False
    then have "segs = [] \<or> (\<exists>a r. segs = a # r \<and> a \<noteq> ''gowait'') \<or> segs = [''gowait''] \<or>
        (\<exists>b r. segs = ''gowait'' # b # r \<and> b \<noteq> ''admin'') \<or> segs = [''gowait'', ''admin'']"
      by (metis neq_Nil_conv)
    with methods show ?thesis by (elim disjE exE conjE) (cases; simp add: defs)+
  next
    case True
    then obtain c r where segs: "segs = ''gowait'' # ''admin'' # c # r" by blast
    consider "c = ''stats''" | "c = ''capacity''" | "c = ''flush''"
      | "c \<noteq> ''stats''" "c \<noteq> ''capacity''" "c \<noteq> ''flush''" by blast
    then show ?thesis
      using methods by cases (cases r; cases rule: methods; simp add: segs defs)+
  qed
qed

lemma match_method_none:
  "map_option pt_Handler (match_method (routes metrics) None segs) =
     (if segs = [] then None
      else if segs = [''gowait'', ''healthz''] then Some Healthz
      else if segs = [''gowait'', ''status''] then Some StatusEndpoint
      else if metrics \<and> segs = [''gowait'', ''metrics''] then Some MetricsEndpoint
      else if take 2 segs = [''gowait'', ''admin''] \<and> 3 \<le> length segs then Some AdminFallback
      else Some Gatekeeper)"
proof (cases segs)
  case Nil
  then show ?thesis by (simp add: match_method_def routes_def registerAdmin_def)
next
  case (Cons a r)
  show ?thesis
  proof (cases "a = ''gowait''")
    case False
    with Cons show ?thesis by (simp add: match_method_def routes_def registerAdmin_def)
  next
    case True
    show ?thesis
    proof (cases r)
      case Nil
      with Cons True show ?thesis by (simp add: match_method_def routes_def registerAdmin_def)
    next
      case (Cons b r')
      note segs = \<open>segs = a # r\<close> this True
      consider "b = ''healthz''" | "b = ''status''" | "b = ''metrics''" | "b = ''admin''"
        | "b \<noteq> ''healthz''" "b \<noteq> ''status''" "b \<noteq> ''metrics''" "b \<noteq> ''admin''" by blast
      then show ?thesis
        by cases (cases r'; simp add: segs match_method_def routes_def registerAdmin_def)+
    qed
  qed
qed

lemma match_pattern_routes:
  "map_option pt_Handler (match_pattern (routes metrics) m path) =
     (if path_segments path = [] then None else Some (endpoint_for metrics m (path_segments path)))"
proof -
  let ?segs = "path_segments path" and ?ps = "routes metrics"
  have "map_option pt_Handler (match_pattern ?ps m path) =
      (case map_option pt_Handler (match_method ?ps (Some m) ?segs) of
         Some h \<Rightarrow> Some h
       | None \<Rightarrow>
           (case (if m = ''HEAD'' then map_option pt_Handler (match_method ?ps (Some ''GET'') ?segs) else None) of
              Some h \<Rightarrow> Some h
            | None \<Rightarrow> map_option pt_Handler (match_method ?ps None ?segs)))"
    by (auto simp: match_pattern_def Let_def split: option.splits)
  note eq = this [unfolded match_method_some match_method_none]
  show ?thesis
  proof (cases "\<exists>c. ?segs = [''gowait'', ''admin'', c]")
    case False
    have "drop 2 ?segs \<noteq> [c]" if "take 2 ?segs = [''gowait'', ''admin'']" for c
      using False append_take_drop_id [of 2 ?segs] that by (metis append_Cons append_Nil)
    with False show ?thesis unfolding eq by (simp add: endpoint_for_def admin_endpoint_def)
  next
    case True
    then obtain c where segs: "?segs = [''gowait'', ''admin'', c]" by blast
    consider "c = ''stats''" | "c = ''capacity''" | "c = ''flush''"
      | "c \<noteq> ''stats''" "c \<noteq> ''capacity''" "c \<noteq> ''flush''" by blast
    moreover consider "m = ''GET''" | "m = ''HEAD''" | "m = ''PUT''" | "m = ''POST''"
      | "m \<noteq> ''GET''" "m \<noteq> ''HEAD''" "m \<noteq> ''PUT''" "m \<noteq> ''POST''" by blast
    note methods = this
    ultimately show ?thesis unfolding eq segs
      by cases (cases rule: methods; simp add: endpoint_for_def admin_endpoint_def)+
  qed
qed

text \<open>Only the pattern of the admin subtree is matched exactly by adding a slash.\<close>

lemma match_path_prefix:
  "match_path (map (\<lambda>p. (drop n (pt_Segments p), p)) ps) segs = Some p \<Longrightarrow>
     p \<in> set ps \<and> prefix (drop n (pt_Segments p)) segs \<and> (pt_Multi p \<or> drop n (pt_Segments p) = segs)"
proof (induction segs arbitrary: n ps)
  case Nil
  then show ?case by (auto simp: find_Some_iff)
next
  case (Cons seg rest)
  let ?qs = "filter (\<lambda>p. drop n (pt_Segments p) \<noteq> [] \<and> hd (drop n (pt_Segments p)) = seg) ps"
  have eq: "map (\<lambda>(ss, p). (tl ss, p)) (filter (\<lambda>(ss, p). ss \<noteq> [] \<and> hd ss = seg)
      (map (\<lambda>p. (drop n (pt_Segments p), p)) ps)) = map (\<lambda>p. (drop (Suc n) (pt_Segments p), p)) ?qs"
    by (simp add: filter_map comp_def drop_Suc tl_drop)
  show ?case
  proof (cases "match_path (map (\<lambda>p. (drop (Suc n) (pt_Segments p), p)) ?qs) rest")
    case None
    with Cons.prems eq show ?thesis by (auto simp: find_Some_iff)
  next
    case (Some q)
    with Cons.prems eq have [simp]: "q = p" by simp
    have ih: "p \<in> set ?qs" "prefix (drop (Suc n) (pt_Segments p)) rest"
      "pt_Multi p \<or> drop (Suc n) (pt_Segments p) = rest"
      using Cons.IH [of "Suc n" ?qs] Some by simp_all
    then have "drop n (pt_Segments p) \<noteq> []" "hd (drop n (pt_Segments p)) = seg" by simp_all
    then have "drop n (pt_Segments p) = seg # tl (drop n (pt_Segments p))" by (metis list.collapse)
    then have "drop n (pt_Segments p) = seg # drop (Suc n) (pt_Segments p)"
      by (simp add: tl_drop drop_Suc)
    with ih show ?thesis by (metis (mono_tags, lifting) Cons_prefix_Cons filter_is_subset subsetD)
  qed
qed

lemma match_pattern_prefix:
  assumes "match_pattern ps m path = Some p"
  shows "p \<in> set ps \<and> prefix (pt_Segments p) (path_segments path) \<and>
    (pt_Multi p \<or> pt_Segments p = path_segments path)"
proof -
  have "match_method ps k segs = Some p \<Longrightarrow> p \<in> set ps \<and> prefix (pt_Segments p) segs \<and>
      (pt_Multi p \<or> pt_Segments p = segs)" for k segs
    using match_path_prefix [of 0 "filter (\<lambda>p. pt_Method p = k) ps" segs p] by (simp add: match_method_def)
  with assms show ?thesis
    by (auto simp: match_pattern_def Let_def split: option.splits if_splits)
qed

lemma exact_slash:
  assumes "exact_match (match_pattern (routes metrics) m (CHR ''/'' # t @ ''/'')) (CHR ''/'' # t @ ''/'')"
    and "t \<noteq> []" "last t \<noteq> CHR ''/''"
  shows "path_segments (CHR ''/'' # t) = [''gowait'', ''admin'']"
proof -
  let ?path = "CHR ''/'' # t @ ''/''"
  obtain p where p: "match_pattern (routes metrics) m ?path = Some p"
    "\<not> pt_Multi p \<or> length (pt_Segments p) + 1 = length (path_segments ?path)"
    using assms(1) length_path_segments [of "t @ ''/''"] by (auto simp: exact_match_def split: option.splits)
  have segs: "path_segments ?path = path_segments (CHR ''/'' # t) @ [''/'']"
    by (rule path_segments_slash [OF assms(2,3)])
  have "length (path_segments (CHR ''/'' # t)) \<ge> 1" by (simp add: length_path_segments)
  then have long: "2 \<le> length (path_segments ?path)" by (simp add: segs)
  have "p \<in> set (routes metrics)" and pre: "prefix (pt_Segments p) (path_segments ?path)"
    and full: "pt_Multi p \<or> pt_Segments p = path_segments ?path"
    using match_pattern_prefix [OF p(1)] by simp_all
  have "\<forall>p \<in> set (routes metrics). pt_Multi p \<or> last (pt_Segments p) \<noteq> ''/''"
    by (simp add: routes_def registerAdmin_def)
  with full \<open>p \<in> set (routes metrics)\<close> have "pt_Multi p" unfolding segs by (metis last_snoc)
  with \<open>p \<in> set (routes metrics)\<close> have "pt_Segments p \<in> {[], [''gowait'', ''admin'']}"
    by (auto simp: routes_def registerAdmin_def split: if_splits)
  with p(2) \<open>pt_Multi p\<close> pre long show ?thesis
    by (auto simp: segs prefix_def append_eq_append_conv2 append_eq_Cons_conv)
qed

lemma admin_slash:
  assumes "path_segments (CHR ''/'' # t) = [''gowait'', ''admin'']" and "t \<noteq> []" "last t \<noteq> CHR ''/''"
  shows "exact_match (match_pattern (routes metrics) m (CHR ''/'' # t @ ''/'')) (CHR ''/'' # t @ ''/'')"
    and "\<not> exact_match (match_pattern (routes metrics) m (CHR ''/'' # t)) (CHR ''/'' # t)"
proof -
  let ?path = "CHR ''/'' # t @ ''/''"
  have segs: "path_segments ?path = [''gowait'', ''admin'', ''/'']"
    using path_segments_slash [OF assms(2,3)] assms(1) by simp
  then obtain p where p: "match_pattern (routes metrics) m ?path = Some p" "pt_Handler p = AdminFallback"
    using match_pattern_routes [of metrics m ?path] by (auto simp: endpoint_for_def admin_endpoint_def)
  have "\<forall>p \<in> set (routes metrics). pt_Handler p = AdminFallback \<longrightarrow> length (pt_Segments p) = 2"
    by (simp add: routes_def registerAdmin_def)
  with p match_pattern_prefix [OF p(1)] have "length (pt_Segments p) = 2" by blast
  moreover have "length (filter (\<lambda>c. c = CHR ''/'') ?path) = 3"
    using length_path_segments [of "t @ ''/''"] segs by simp
  ultimately show "exact_match (match_pattern (routes metrics) m ?path) ?path"
    using p(1) by (auto simp: exact_match_def suffix_def)
  obtain q where q: "match_pattern (routes metrics) m (CHR ''/'' # t) = Some q" "pt_Handler q = Gatekeeper"
    using match_pattern_routes [of metrics m "CHR ''/'' # t"] assms(1) by (auto simp: endpoint_for_def)
  have "\<forall>p \<in> set (routes metrics). pt_Handler p = Gatekeeper \<longrightarrow> pt_Multi p"
    by (simp add: routes_def registerAdmin_def)
  with q match_pattern_prefix [OF q(1)] have "pt_Multi q" by blast
  moreover have "\<not> suffix ''/'' (CHR ''/'' # t)"
    using assms(2,3) by (auto simp: suffix_def append_eq_Cons_conv Cons_eq_append_conv)
  ultimately show "\<not> exact_match (match_pattern (routes metrics) m (CHR ''/'' # t)) (CHR ''/'' # t)"
    using q(1) by (simp add: exact_match_def)
qed

lemma requests_routed:
  assumes "clean_path (rq_EscapedPath r) = rq_EscapedPath r"
  shows "find_handler (routes metrics) r =
    (if path_segments (rq_EscapedPath r) = [''gowait'', ''admin'']
     then RedirectTo (local_url (clean_path (u_Path (rq_URL r)) @ ''/'') (u_RawQuery (rq_URL r)))
     else Handle (endpoint_for metrics (rq_Method r) (path_segments (rq_EscapedPath r))))"
proof -
  let ?p = "rq_EscapedPath r" and ?m = "rq_Method r"
  obtain t where t: "?p = CHR ''/'' # t" using clean_path_rooted [OF assms] by blast
  have "path_segments ?p \<noteq> []" using length_path_segments [of t] by (auto simp: t)
  then obtain q where q: "match_pattern (routes metrics) ?m ?p = Some q"
    "pt_Handler q = endpoint_for metrics ?m (path_segments ?p)"
    using match_pattern_routes [of metrics ?m ?p] by auto
  have path: "(if ?m = ''CONNECT'' then ?p else clean_path ?p) = ?p" using assms by simp
  have fh: "find_handler (routes metrics) r =
      (if \<not> exact_match (Some q) ?p \<and> \<not> suffix ''/'' ?p \<and>
          exact_match (match_pattern (routes metrics) ?m (?p @ ''/'')) (?p @ ''/'')
       then RedirectTo (local_url (clean_path (u_Path (rq_URL r)) @ ''/'') (u_RawQuery (rq_URL r)))
       else Handle (pt_Handler q))"
    unfolding find_handler_def Let_def path q(1) by simp
  show ?thesis
  proof (cases "t = [] \<or> last t = CHR ''/''")
    case True
    then have "suffix ''/'' ?p" unfolding t suffix_def
      by (metis append_Cons append_Nil append_butlast_last_id)
    moreover have "path_segments ?p \<noteq> [''gowait'', ''admin'']"
      using True split_on_last_empty [of "CHR ''/''" t] by (auto simp: t path_segments_def Let_def)
    ultimately show ?thesis using fh q(2) by simp
  next
    case False
    then have "\<not> suffix ''/'' ?p"
      by (auto simp: t suffix_def append_eq_Cons_conv Cons_eq_append_conv)
    with False fh q admin_slash [of t metrics ?m] exact_slash [of metrics ?m t] show ?thesis
      by (auto simp: t)
  qed
qed

section \<open>Property\<close>

text \<open>
  C32: A request with a clean path is routed by its decoded segments and its method as
  \<open>endpoint_for\<close> says: gowait's own endpoints, the admin interface with everything below it, and the
  gatekeeper for all the rest. \<^verbatim>\<open>/gowait/admin\<close> itself is redirected to the interface. The rest includes
  the other paths below \<^verbatim>\<open>/gowait/\<close>.
\<close>

theorem requests_are_routed:
  assumes "clean_path (rq_EscapedPath r) = rq_EscapedPath r"
  shows "find_handler (routes metrics) r =
    (if path_segments (rq_EscapedPath r) = [''gowait'', ''admin'']
     then RedirectTo (local_url (clean_path (u_Path (rq_URL r)) @ ''/'') (u_RawQuery (rq_URL r)))
     else Handle (endpoint_for metrics (rq_Method r) (path_segments (rq_EscapedPath r))))"
  using assms by (rule requests_routed)

theorem requests_are_routed_witness:
  "find_handler (routes False) \<lparr>rq_Method = ''GET'', rq_URL = local_url ''/gowait/metrics'' [],
      rq_EscapedPath = ''/gowait/metrics'', rq_Header = (\<lambda>_. []), rq_Cookies = [], rq_Body = Err []\<rparr> =
   Handle Gatekeeper"
proof -
  let ?r = "\<lparr>rq_Method = ''GET'', rq_URL = local_url ''/gowait/metrics'' [],
      rq_EscapedPath = ''/gowait/metrics'', rq_Header = (\<lambda>_. []), rq_Cookies = [], rq_Body = Err []\<rparr>"
  have "clean_path (rq_EscapedPath ?r) = rq_EscapedPath ?r"
    by (simp add: clean_path_def path_clean_def)
  from requests_are_routed [OF this, of False] show ?thesis
    by (simp add: path_segments_def path_unescape_def endpoint_for_def Let_def)
qed

end
