(* ===== verification/ConfigProps.thy ===== *)
theory ConfigProps
  imports Config
begin

text \<open>
  What loading a configuration guarantees: the constraints a validated configuration satisfies, and
  that a configuration printed as flags is loaded back unchanged, whatever the environment says.
\<close>

section \<open>Validation\<close>

lemma and_also_Ok [simp]: "and_also r k = Ok v \<longleftrightarrow> (\<exists>u. r = Ok u \<and> k u = Ok v)"
  by (cases r) (simp_all add: and_also_def)

lemma absolute_iff: "absolute r \<longleftrightarrow> (\<exists>u. r = Ok u \<and> u_Scheme u \<noteq> [] \<and> u_Host u \<noteq> [])"
  by (cases r) (simp_all add: absolute_def)

lemma Validate_Ok:
  "Validate url_parse quote c = Ok () \<longleftrightarrow>
     1 \<le> c_Capacity c \<and> 0 < c_PollInterval c \<and> c_PollInterval c < c_InactivityTTL c \<and>
     s64 (2 * c_PollInterval c) \<le> c_QueueTTL c \<and>
     (c_Store c = ''memory'' \<or> c_Store c = ''valkey'' \<and> c_ValkeyURL c \<noteq> []) \<and>
     SupportedLang (c_WaitLang c) \<and>
     (c_ProbeURL c = [] \<or>
      absolute (url_parse (c_ProbeURL c)) \<and> 0 < c_ProbeInterval c \<and>
      1 \<le> c_ProbeMin c \<and> c_ProbeMin c \<le> c_ProbeMax c)"
  by (auto simp: Validate_def)

lemma Validate_no_panic: "Validate url_parse quote c \<noteq> Panic"
  by (simp add: Validate_def)

lemma Load_Ok:
  "Load url_parse quote env args = Ok c \<longleftrightarrow>
     (\<exists>fs u. parse_flags quote (map_of (flag_defaults env)) args = Ok fs \<and>
        str_flag fs ''backend'' \<noteq> [] \<and> url_parse (str_flag fs ''backend'') = Ok u \<and>
        u_Scheme u \<noteq> [] \<and> u_Host u \<noteq> [] \<and> c = read_flags fs\<lparr>c_BackendURL := Some u\<rparr> \<and>
        Validate url_parse quote c = Ok ())"
proof -
  have "(case url_parse b of
          Ok u \<Rightarrow> if u_Scheme u = [] \<or> u_Host u = [] then Err e
                  else and_also (Validate url_parse quote (cfg\<lparr>c_BackendURL := Some u\<rparr>))
                         (\<lambda>_. Ok (cfg\<lparr>c_BackendURL := Some u\<rparr>))
        | _ \<Rightarrow> Err e) = Ok c \<longleftrightarrow>
      (\<exists>u. url_parse b = Ok u \<and> u_Scheme u \<noteq> [] \<and> u_Host u \<noteq> [] \<and> c = cfg\<lparr>c_BackendURL := Some u\<rparr> \<and>
         Validate url_parse quote c = Ok ())" for b e cfg
    by (cases "url_parse b") auto
  then show ?thesis unfolding Load_def Let_def by auto
qed

lemma read_flags_max: "c_ProbeMax (read_flags fs) = 0 \<longleftrightarrow> int_flag fs ''probe-max'' = 0 \<and> int_flag fs ''capacity'' = 0"
  by (simp add: read_flags_def Let_def)

section \<open>Printing a configuration as flags\<close>

fun show_flag :: "flag_value \<Rightarrow> string" where
  "show_flag (FString s) = s"
| "show_flag (FInt n) = itoa n"
| "show_flag (FDuration d) = itoa d @ ''ns''"
| "show_flag (FBool b) = (if b then ''true'' else ''false'')"

definition flag_arg :: "string \<times> flag_value \<Rightarrow> string" where
  "flag_arg p = ''-'' @ fst p @ ''='' @ show_flag (snd p)"

fun same_kind :: "flag_value \<Rightarrow> flag_value \<Rightarrow> bool" where
  "same_kind (FString _) (FString _) = True"
| "same_kind (FInt _) (FInt n) = in_s64 n"
| "same_kind (FDuration _) (FDuration d) = in_s64 d"
| "same_kind (FBool _) (FBool _) = True"
| "same_kind _ _ = False"

definition plain_name :: "string \<Rightarrow> bool" where
  "plain_name n \<longleftrightarrow> n \<noteq> [] \<and> hd n \<noteq> CHR ''-'' \<and> CHR ''='' \<notin> set n"

lemma set_flag_show: "same_kind old v \<Longrightarrow> set_flag old (show_flag v) = Inr v"
  by (cases "(old, v)" rule: same_kind.cases) (simp_all add: ParseInt_itoa ParseDuration_ns ParseBool_def)

lemma cut_named: "plain_name n \<Longrightarrow> cut (CHR ''='') (n @ CHR ''='' # t) = (n, t)"
proof -
  assume "plain_name n"
  then have "takeWhile (\<lambda>x. x \<noteq> CHR ''='') (n @ CHR ''='' # t) = n"
    by (auto simp: plain_name_def takeWhile_append)
  then show ?thesis by (simp add: cut_def)
qed

lemma parse_flag_arg:
  assumes "plain_name n" "fs n = Some old" "same_kind old v"
  shows "parse_flags quote fs (flag_arg (n, v) # args) = parse_flags quote (fs(n \<mapsto> v)) args"
proof -
  obtain c cs where n: "n = c # cs" "c \<noteq> CHR ''-''" "c \<noteq> CHR ''=''"
    using assms(1) by (cases n) (auto simp: plain_name_def)
  have "flag_name (flag_arg (n, v)) = n @ CHR ''='' # show_flag v"
    using n by (simp add: flag_name_def flag_arg_def)
  with n cut_named [OF assms(1), of "show_flag v"] assms(2) set_flag_show [OF assms(3)]
  show ?thesis by (cases old) (simp_all add: flag_arg_def Let_def)
qed

text \<open>A list of settings of declared flags, each of its kind, is taken in whole.\<close>

lemma parse_flag_args:
  assumes "\<forall>(n, v) \<in> set fvs. plain_name n \<and> (\<exists>old. fs n = Some old \<and> same_kind old v)"
    and "distinct (map fst fvs)"
  shows "parse_flags quote fs (map flag_arg fvs) = Ok (fs ++ map_of fvs)"
  using assms
proof (induction fvs arbitrary: fs)
  case (Cons p fvs)
  obtain n v where p: "p = (n, v)" by fastforce
  from Cons.prems obtain old where "plain_name n" "fs n = Some old" "same_kind old v" by (auto simp: p)
  note step = parse_flag_arg [where n = n and fs = fs and old = old and v = v, OF this]
  have "n \<notin> fst ` set fvs" using Cons.prems(2) by (simp add: p)
  then have "map_of fvs n = None" by (simp add: map_of_eq_None_iff)
  then have eq: "fs(n \<mapsto> v) ++ map_of fvs = fs ++ map_of ((n, v) # fvs)"
    by (auto simp: map_add_def split: option.splits)
  have "\<forall>(m, w) \<in> set fvs. plain_name m \<and> (\<exists>old. (fs(n \<mapsto> v)) m = Some old \<and> same_kind old w)"
    using Cons.prems by (force simp: p)
  moreover have "distinct (map fst fvs)" using Cons.prems(2) by simp
  ultimately show ?case unfolding p list.map step eq [symmetric] by (rule Cons.IH)
qed simp

text \<open>All the flags of a configuration; the backend is the text its URL was parsed from.\<close>

definition settings_flags :: "string \<Rightarrow> settings \<Rightarrow> (string \<times> flag_value) list" where
  "settings_flags backend c =
    [(''listen'', FString (c_Listen c)), (''backend'', FString backend),
     (''capacity'', FInt (c_Capacity c)), (''inactivity-ttl'', FDuration (c_InactivityTTL c)),
     (''queue-ttl'', FDuration (c_QueueTTL c)), (''poll-interval'', FDuration (c_PollInterval c)),
     (''cookie-secret'', FString (c_CookieSecret c)), (''admin-key'', FString (c_AdminKey c)),
     (''cookie-secure'', FBool (c_CookieSecure c)), (''preserve-host'', FBool (c_PreserveHost c)),
     (''store'', FString (c_Store c)), (''valkey-url'', FString (c_ValkeyURL c)),
     (''valkey-prefix'', FString (c_ValkeyPrefix c)), (''metrics'', FBool (c_Metrics c)),
     (''wait-title'', FString (c_WaitTitle c)), (''wait-brand'', FString (c_WaitBrand c)),
     (''wait-message'', FString (c_WaitMessage c)), (''wait-lang'', FString (c_WaitLang c)),
     (''wait-template'', FString (c_WaitTemplate c)), (''probe-url'', FString (c_ProbeURL c)),
     (''probe-interval'', FDuration (c_ProbeInterval c)), (''probe-min'', FInt (c_ProbeMin c)),
     (''probe-max'', FInt (c_ProbeMax c))]"

definition fits :: "settings \<Rightarrow> bool" where
  "fits c \<longleftrightarrow> in_s64 (c_Capacity c) \<and> in_s64 (c_InactivityTTL c) \<and> in_s64 (c_QueueTTL c) \<and>
     in_s64 (c_PollInterval c) \<and> in_s64 (c_ProbeInterval c) \<and> in_s64 (c_ProbeMin c) \<and> in_s64 (c_ProbeMax c)"

lemma settings_flags_names: "map fst (settings_flags b c) = map fst (flag_defaults env)"
  by (simp add: settings_flags_def flag_defaults_def)

lemma flag_names_distinct: "distinct (map fst (flag_defaults env))"
  by (simp add: flag_defaults_def)

lemma settings_flags_kinds:
  assumes "fits c"
  shows "list_all2 (\<lambda>(n, v) (m, old). n = m \<and> plain_name n \<and> same_kind old v) (settings_flags b c) (flag_defaults env)"
  using assms by (simp add: settings_flags_def flag_defaults_def plain_name_def fits_def)

lemma list_all2_map_of:
  assumes "list_all2 (\<lambda>(n, v) (m, w). n = m \<and> P n v w) xs ys" "distinct (map fst ys)" "(n, v) \<in> set xs"
  shows "\<exists>w. map_of ys n = Some w \<and> P n v w"
  using assms
proof (induction xs ys rule: list_all2_induct)
  case (Cons x xs y ys)
  show ?case
  proof (cases "(n, v) = x")
    case True
    with Cons show ?thesis by (auto split: prod.splits)
  next
    case False
    with Cons.prems have "(n, v) \<in> set xs" "distinct (map fst ys)" by auto
    with Cons.IH obtain w where w: "map_of ys n = Some w" "P n v w" by blast
    have "n \<in> fst ` set ys" using map_of_SomeD [OF w(1)] by force
    then have "fst y \<noteq> n" using Cons.prems(1) by auto
    with w show ?thesis by (cases y) auto
  qed
qed simp

lemma parse_settings_flags:
  assumes "fits c"
  shows "parse_flags quote (map_of (flag_defaults env)) (map flag_arg (settings_flags b c)) =
    Ok (map_of (flag_defaults env) ++ map_of (settings_flags b c))"
proof (rule parse_flag_args)
  show "distinct (map fst (settings_flags b c))"
    unfolding settings_flags_names [of b c env] by (rule flag_names_distinct)
  show "\<forall>(n, v) \<in> set (settings_flags b c). plain_name n \<and>
      (\<exists>old. map_of (flag_defaults env) n = Some old \<and> same_kind old v)"
    using list_all2_map_of [OF settings_flags_kinds [OF assms, of b env] flag_names_distinct] by blast
qed

lemma map_add_same_names:
  assumes "map fst xs = map fst ys"
  shows "map_of ys ++ map_of xs = map_of xs"
proof
  fix n
  show "(map_of ys ++ map_of xs) n = map_of xs n"
  proof (cases "map_of xs n")
    case None
    then have "n \<notin> set (map fst ys)" unfolding assms [symmetric] by (simp add: map_of_eq_None_iff)
    then have "map_of ys n = None" by (simp add: map_of_eq_None_iff)
    with None show ?thesis by (simp add: map_add_def)
  qed (simp add: map_add_def)
qed

lemma str_flag_settings: "str_flag (map_of (settings_flags b c)) ''backend'' = b"
  by (simp add: str_flag_def settings_flags_def)

lemma read_settings_flags:
  assumes "c_ProbeMax c \<noteq> 0"
  shows "read_flags (map_of (settings_flags b c)) = c\<lparr>c_BackendURL := None\<rparr>"
  using assms
  by (simp add: read_flags_def Let_def str_flag_def int_flag_def dur_flag_def bool_flag_def settings_flags_def)

section \<open>A concrete configuration\<close>

text \<open>One variable in the environment, two flags, and a parser of URLs that knows one address.\<close>

definition demo_env :: environment where
  "demo_env key = (if key = ''GOWAIT_CAPACITY'' then ''50 users'' else if key = ''GOWAIT_STORE'' then ''memory'' else [])"

definition demo_url :: url where
  "demo_url = \<lparr>u_Scheme = ''http'', u_Host = ''backend:80'', u_Path = [], u_RawQuery = []\<rparr>"

definition demo_parse :: "string \<Rightarrow> url result" where
  "demo_parse s = (if s = ''http://backend:80'' then Ok demo_url else Err ''unknown'')"

definition demo_args :: "string list" where
  "demo_args = [''-backend=http://backend:80'', ''--poll-interval'', ''2s'', ''serve'']"

definition demo_settings :: settings where
  "demo_settings = \<lparr>c_Listen = '':8080'', c_BackendURL = Some demo_url, c_Capacity = 50,
     c_InactivityTTL = 60 * second, c_QueueTTL = 30 * second, c_PollInterval = 2 * second,
     c_CookieSecret = [], c_AdminKey = [], c_CookieSecure = False, c_PreserveHost = False,
     c_Store = ''memory'', c_ValkeyURL = [], c_ValkeyPrefix = ''gowait:'', c_Metrics = True,
     c_WaitTitle = [], c_WaitBrand = [], c_WaitMessage = [], c_WaitLang = ''en'', c_WaitTemplate = [],
     c_ProbeURL = [], c_ProbeInterval = 10 * second, c_ProbeMin = 1, c_ProbeMax = 50\<rparr>"

lemma demo_capacity: "envOrInt demo_env ''GOWAIT_CAPACITY'' 100 = 50"
  by (simp add: envOrInt_def demo_env_def Sscanf_d_def skip_space.simps [of "CHR ''5'' # _"]
      wide_spaces_def bytes_def strip_sign_def sign_char_def is_digit_def ParseInt_def parse_uint_def
      digit_value_def char_of_def upt_rec)

lemma demo_flags:
  "parse_flags quote (map_of (flag_defaults demo_env)) demo_args =
     Ok ((map_of (flag_defaults demo_env))(''backend'' \<mapsto> FString ''http://backend:80'', ''poll-interval'' \<mapsto> FDuration (2 * second)))"
proof -
  have "ParseDuration ''2s'' = Some (2 * second)"
    by (simp add: ParseDuration_def strip_sign_def sign_char_def duration_sum.simps [of 0 "''2s''"]
        duration_sum.simps [of _ "[]"] duration_part_def number_char_def is_digit_def unit_of_def
        bytes_def Let_def)
  then show ?thesis
    by (simp add: demo_args_def flag_name_def cut_def flag_defaults_def)
qed

lemma demo_load: "Load demo_parse quote demo_env demo_args = Ok demo_settings"
proof -
  let ?fs = "(map_of (flag_defaults demo_env))(''backend'' \<mapsto> FString ''http://backend:80'', ''poll-interval'' \<mapsto> FDuration (2 * second))"
  have "read_flags ?fs = demo_settings\<lparr>c_BackendURL := None\<rparr>"
    using demo_capacity
    by (simp add: read_flags_def Let_def str_flag_def int_flag_def dur_flag_def bool_flag_def flag_defaults_def
        demo_settings_def envOr_def envOrBool_def envOrInt_def envOrDuration_def demo_env_def)
  moreover have "str_flag ?fs ''backend'' = ''http://backend:80''" by (simp add: str_flag_def)
  moreover have "Validate demo_parse quote demo_settings = Ok ()"
    by (simp add: Validate_Ok demo_settings_def SupportedLang_iff s64_def)
  ultimately show ?thesis
    unfolding Load_Ok demo_flags by (auto simp: demo_parse_def demo_url_def demo_settings_def)
qed

lemma demo_fits: "fits demo_settings"
  by (simp add: fits_def demo_settings_def in_s64_def)

section \<open>What a loaded configuration satisfies\<close>

lemma load_sound:
  assumes "Load url_parse quote env args = Ok c"
  shows "1 \<le> c_Capacity c \<and> 0 < c_PollInterval c \<and> c_PollInterval c < c_InactivityTTL c \<and>
    (c_PollInterval c < 2 ^ 62 \<longrightarrow> 2 * c_PollInterval c \<le> c_QueueTTL c) \<and>
    (\<exists>u. c_BackendURL c = Some u \<and> u_Scheme u \<noteq> [] \<and> u_Host u \<noteq> []) \<and>
    (c_Store c = ''memory'' \<or> c_Store c = ''valkey'' \<and> c_ValkeyURL c \<noteq> []) \<and>
    c_WaitLang c \<in> set Langs \<and>
    (c_ProbeURL c \<noteq> [] \<longrightarrow>
       (\<exists>u. url_parse (c_ProbeURL c) = Ok u \<and> u_Scheme u \<noteq> [] \<and> u_Host u \<noteq> []) \<and>
       0 < c_ProbeInterval c \<and> 1 \<le> c_ProbeMin c \<and> c_ProbeMin c \<le> c_ProbeMax c)"
proof -
  from assms have v: "Validate url_parse quote c = Ok ()" and
    u: "\<exists>u. c_BackendURL c = Some u \<and> u_Scheme u \<noteq> [] \<and> u_Host u \<noteq> []"
    unfolding Load_Ok by fastforce+
  have "s64 (2 * c_PollInterval c) = 2 * c_PollInterval c" if "0 < c_PollInterval c" "c_PollInterval c < 2 ^ 62"
    using that by (intro s64_id in_s64_nonneg) simp_all
  with v [unfolded Validate_Ok] u show ?thesis unfolding Langs_supported absolute_iff by metis
qed

section \<open>Properties\<close>

text \<open>
  C34: A configuration that \<open>Load\<close> accepts is usable: the capacity is at least one, polls come more
  often than sessions expire and at least twice per eviction window (for poll intervals below the
  \<open>2 ^ 62\<close> nanoseconds at which doubling overflows), the backend is an absolute URL, the store and
  the language exist, and a probe URL, if there is one, is an absolute URL too, with a positive probe
  interval and the bounds of the prober in order.
\<close>

theorem load_is_sound:
  assumes "Load url_parse quote env args = Ok c"
  shows "1 \<le> c_Capacity c \<and> 0 < c_PollInterval c \<and> c_PollInterval c < c_InactivityTTL c \<and>
    (c_PollInterval c < 2 ^ 62 \<longrightarrow> 2 * c_PollInterval c \<le> c_QueueTTL c) \<and>
    (\<exists>u. c_BackendURL c = Some u \<and> u_Scheme u \<noteq> [] \<and> u_Host u \<noteq> []) \<and>
    (c_Store c = ''memory'' \<or> c_Store c = ''valkey'' \<and> c_ValkeyURL c \<noteq> []) \<and>
    c_WaitLang c \<in> set Langs \<and>
    (c_ProbeURL c \<noteq> [] \<longrightarrow>
       (\<exists>u. url_parse (c_ProbeURL c) = Ok u \<and> u_Scheme u \<noteq> [] \<and> u_Host u \<noteq> []) \<and>
       0 < c_ProbeInterval c \<and> 1 \<le> c_ProbeMin c \<and> c_ProbeMin c \<le> c_ProbeMax c)"
  using assms by (rule load_sound)

theorem load_is_sound_witness:
  "Load demo_parse id demo_env demo_args = Ok demo_settings \<and>
   2 * c_PollInterval demo_settings \<le> c_QueueTTL demo_settings \<and> c_WaitLang demo_settings \<in> set Langs"
  using load_is_sound [OF demo_load [of id]] demo_load [of id] by (simp add: demo_settings_def)

lemma settings_flags_load:
  assumes "fits c" and "Validate url_parse quote c = Ok ()" and "c_ProbeMax c \<noteq> 0"
    and "url_parse backend = Ok u" and "backend \<noteq> []" and "u_Scheme u \<noteq> []" and "u_Host u \<noteq> []"
    and "c_BackendURL c = Some u"
  shows "Load url_parse quote env (map flag_arg (settings_flags backend c)) = Ok c"
proof -
  have fs: "map_of (flag_defaults env) ++ map_of (settings_flags backend c) = map_of (settings_flags backend c)"
    by (rule map_add_same_names [OF settings_flags_names])
  have "c\<lparr>c_BackendURL := None, c_BackendURL := Some u\<rparr> = c" using assms(8) by simp
  with assms parse_settings_flags [OF assms(1), of quote env backend] show ?thesis
    unfolding Load_Ok fs by (simp add: str_flag_settings read_settings_flags)
qed

text \<open>
  C35: Flags win over the environment, and every valid configuration can be written as flags: the
  flags that print a valid configuration load exactly that configuration in every environment.
\<close>

theorem flags_override_environment:
  assumes "fits c" and "Validate url_parse quote c = Ok ()" and "c_ProbeMax c \<noteq> 0"
    and "url_parse backend = Ok u" and "backend \<noteq> []" and "u_Scheme u \<noteq> []" and "u_Host u \<noteq> []"
    and "c_BackendURL c = Some u"
  shows "Load url_parse quote env (map flag_arg (settings_flags backend c)) = Ok c"
  by (rule settings_flags_load [OF assms])

theorem flags_override_environment_witness:
  "Load demo_parse id demo_env (map flag_arg (settings_flags ''http://backend:80'' demo_settings)) = Ok demo_settings"
proof (rule flags_override_environment [OF demo_fits])
  show "Validate demo_parse id demo_settings = Ok ()"
    using demo_load [of id] unfolding Load_Ok by blast
  show "demo_parse ''http://backend:80'' = Ok demo_url" by (simp add: demo_parse_def)
qed (simp_all add: demo_settings_def demo_url_def)

end
