(* ===== verification/ServerProps.thy ===== *)
theory ServerProps
  imports ServerRoutes ServerRun ControllerProps ConfigProps
begin

text \<open>
  What the HTTP layer guarantees: who reaches the backend, what a cookie proves, what the admin
  interface and the status endpoint answer. Where the store matters it is the in-process store.
\<close>

section \<open>Cookies\<close>

abbreviation server_now :: "'s server \<Rightarrow> time" where
  "server_now s \<equiv> ct_clock (sv_ctrl s) (ct_reads (sv_ctrl s))"

definition admin_cookie_valid :: "http_request \<Rightarrow> signer \<Rightarrow> time \<Rightarrow> bool" where
  "admin_cookie_valid r sg now \<longleftrightarrow>
     (\<exists>e expiry. request_cookie r adminCookie = Some (Sign sg (''admin:'' @ e)) \<and>
        ParseInt 10 e = Inr expiry \<and> unix_sec now < expiry)"

lemma isAdmin_iff: "fst (isAdmin r s) \<longleftrightarrow> admin_cookie_valid r (sv_signer s) (server_now s)"
proof (cases "\<exists>e. request_cookie r adminCookie = Some (Sign (sv_signer s) (''admin:'' @ e))")
  case False
  have "payload \<noteq> ''admin:'' @ e" if "Verify (sv_signer s) v = Some payload" "request_cookie r adminCookie = Some v"
    for v payload e
    using that False by (auto simp: Verify_iff)
  with False show ?thesis
    by (auto simp: isAdmin_def admin_cookie_valid_def prefix_def split: option.splits)
next
  case True
  then obtain e where e: "request_cookie r adminCookie = Some (Sign (sv_signer s) (''admin:'' @ e))" by blast
  then show ?thesis
    unfolding isAdmin_def admin_cookie_valid_def e option.case Verify_Sign trim_prefix_append
    by (cases "ParseInt 10 e") (simp_all add: on_ctrl_eq read_clock_eq Let_def)
qed

lemma isAdmin_frame:
  "ct_store (sv_ctrl (snd (isAdmin r s))) = ct_store (sv_ctrl s)"
  "Capacity (sv_ctrl (snd (isAdmin r s))) = Capacity (sv_ctrl s)"
  "sv_cfg (snd (isAdmin r s)) = sv_cfg s" "sv_signer (snd (isAdmin r s)) = sv_signer s"
  using isAdmin_state [of r s] by (auto simp: read_clock_eq Capacity_def)

lemma adminAuthorized_frame:
  "ct_store (sv_ctrl (snd (adminAuthorized r s))) = ct_store (sv_ctrl s)"
  "Capacity (sv_ctrl (snd (adminAuthorized r s))) = Capacity (sv_ctrl s)"
  by (simp_all add: adminAuthorized_def Let_def isAdmin_frame)

lemma known_ticket_Some:
  "known_ticket r s = Some i \<longleftrightarrow> request_cookie r ticketCookie = Some (Sign (sv_signer s) i) \<and> i \<noteq> []"
proof (cases "request_cookie r ticketCookie")
  case (Some v)
  show ?thesis
    by (cases "Verify (sv_signer s) v") (auto simp: known_ticket_def Some Verify_iff)
qed (simp add: known_ticket_def)

lemma known_ticket_frame:
  assumes "sv_signer s' = sv_signer s"
  shows "known_ticket r s' = known_ticket r s"
  unfolding known_ticket_def assms ..

text \<open>The ticket a request stands for, and the writer after it was found or minted.\<close>

definition ticket_of :: "'s request_env \<Rightarrow> http_request \<Rightarrow> 's server \<Rightarrow> string option" where
  "ticket_of env r s =
     (case known_ticket r s of
        Some i \<Rightarrow> Some i
      | None \<Rightarrow> (case NewID (ev_rand env) of Ok i \<Rightarrow> Some i | _ \<Rightarrow> None))"

lemma ticketID_Ok: "ticketID env r w s = (Ok i, w') \<Longrightarrow> ticket_of env r s = Some i"
  by (auto simp: ticketID_def ticket_of_def split: option.splits result.splits)

lemma ticketID_forwarded: "w_Forwarded (snd (ticketID env r w s)) = w_Forwarded w"
  by (simp add: ticketID_def setCookie_def split: option.splits result.splits)

section \<open>Who reaches the backend\<close>

lemma forwarded_write_status: "w_Forwarded (fst (writeStatusJSON env code res w s)) = w_Forwarded w"
  by (simp add: writeStatusJSON_def split_beta Let_def)

definition let_in_by_check :: "'s request_env \<Rightarrow> string option \<Rightarrow> 's server \<Rightarrow> 's server \<Rightarrow> bool" where
  "let_in_by_check env t s s' \<longleftrightarrow>
     (\<exists>i res c. t = Some i \<and> Check (ev_ops env) i (sv_ctrl s) = (Ok res, c) \<and>
        q_Decision res = DecisionProxy \<and> ct_store (sv_ctrl s') = ct_store c)"

text \<open>The queue flow forwards only a ticket for which \<open>Check\<close> decided to proxy.\<close>

lemma queue_flow_forwards:
  assumes "queue_flow env r w s = (Ok w', s')" "w_Forwarded w = None" "w_Forwarded w' = Some q"
  shows "q = r \<and> let_in_by_check env (ticket_of env r s) s s'"
proof -
  obtain t w1 where t: "ticketID env r w s = (t, w1)" by fastforce
  then have w1: "w_Forwarded w1 = None" using ticketID_forwarded [of env r w s] assms(2) by simp
  show ?thesis
  proof (cases t)
    case (Ok i)
    obtain out s1 where out: "on_ctrl (Check (ev_ops env) i) s = (out, s1)" by fastforce
    show ?thesis
    proof (cases out)
      case (Ok res)
      show ?thesis
      proof (cases "q_Decision res = DecisionProxy")
        case True
        with assms \<open>t = Ok i\<close> Ok out t ticketID_Ok [of env r w s i w1] show ?thesis
          by (auto simp: queue_flow_def IncDecision_def on_ctrl_eq prod_eq_iff let_in_by_check_def)
      next
        case False
        with assms \<open>t = Ok i\<close> Ok out t w1 forwarded_write_status [of env 503 res] show ?thesis
          by (auto simp: queue_flow_def Let_def split_beta split: if_splits)
      qed
    qed (use assms w1 \<open>t = Ok i\<close> in \<open>auto simp: queue_flow_def t out internal_error_def\<close>)
  qed (use assms w1 in \<open>auto simp: queue_flow_def t internal_error_def\<close>)
qed

lemma gatekeeper_forwards:
  assumes "gatekeeper env r w s = (Ok w', s')" "w_Forwarded w = None" "w_Forwarded w' = Some q"
  shows "q = r \<and>
    (c_AdminKey (sv_cfg s) \<noteq> [] \<and> rq_Header r adminHeader = c_AdminKey (sv_cfg s) \<or>
     c_AdminKey (sv_cfg s) \<noteq> [] \<and> admin_cookie_valid r (sv_signer s) (server_now s) \<or>
     (\<exists>s1. ct_store (sv_ctrl s1) = ct_store (sv_ctrl s) \<and> Capacity (sv_ctrl s1) = Capacity (sv_ctrl s) \<and>
        let_in_by_check env (ticket_of env r s) s1 s'))"
proof (cases "c_AdminKey (sv_cfg s) = []")
  case True
  then have "queue_flow env r w s = (Ok w', s')" using assms(1) by (simp add: gatekeeper_def)
  from queue_flow_forwards [OF this assms(2,3)] show ?thesis by blast
next
  case False
  obtain key fromQuery where k: "adminKeyFrom r = (key, fromQuery)" by fastforce
  obtain admin s1 where s1: "isAdmin r s = (admin, s1)" by fastforce
  note frame = isAdmin_frame [of r s, unfolded s1 snd_conv]
  show ?thesis
  proof (cases "key = []")
    case no_key: True
    show ?thesis
    proof (cases admin)
      case True
      with s1 isAdmin_iff [of r s] have "admin_cookie_valid r (sv_signer s) (server_now s)" by simp
      moreover have "q = r" using assms False no_key True by (auto simp: gatekeeper_def k s1)
      ultimately show ?thesis using False by blast
    next
      case not_admin: False
      then have "queue_flow env r w s1 = (Ok w', s')" using assms(1) False no_key by (simp add: gatekeeper_def k s1)
      from queue_flow_forwards [OF this assms(2,3)] frame known_ticket_frame [OF frame(4), of r]
      show ?thesis unfolding ticket_of_def by metis
    qed
  next
    case has_key: False
    then have flow: "admin_key_flow key fromQuery r w s = (Ok w', s')"
      using assms(1) False by (simp add: gatekeeper_def k)
    then have "key = c_AdminKey (sv_cfg s)" "\<not> fromQuery" "q = r"
      using assms(2,3)
      by (auto simp: admin_key_flow_def setCookie_def split_beta Let_def split: if_splits)
    moreover from this k have "rq_Header r adminHeader = key"
      by (auto simp: adminKeyFrom_def Let_def split: if_splits)
    ultimately show ?thesis using False by simp
  qed
qed

lemma guard_forwards:
  assumes "adminGuard h r w s = (Ok w', s')" "w_Forwarded w = None"
    and "\<And>s1 s2. h r w s1 = (Ok w', s2) \<Longrightarrow> w_Forwarded w' = None"
  shows "w_Forwarded w' = None"
  using assms by (auto simp: adminGuard_def split_beta Let_def split: if_splits)

lemma endpoint_forwards:
  assumes h: "endpoint_handler env ep r w s = (Ok w', s')" and w: "w_Forwarded w = None"
    and that: "ep \<noteq> Gatekeeper"
  shows "w_Forwarded w' = None"
proof (cases ep)
  case StatusEndpoint
  then show ?thesis
    using h ticketID_forwarded [of env r w s] w forwarded_write_status [of env 200]
    by (auto simp: endpoint_handler_def handleStatus_def internal_error_def split_beta Let_def
        split: prod.splits result.splits)
next
  case AdminStats
  then show ?thesis using h w by (auto simp: endpoint_handler_def handleAdminStats_def writeJSON_def
        split: prod.splits result.splits elim!: guard_forwards [OF _ w])
next
  case AdminCapacityPut
  then show ?thesis using h w by (auto simp: endpoint_handler_def handleAdminCapacityPut_def writeJSON_def
        split: prod.splits result.splits elim!: guard_forwards [OF _ w])
next
  case AdminFlush
  then show ?thesis using h w by (auto simp: endpoint_handler_def handleAdminFlush_def writeJSON_def
        split: prod.splits result.splits elim!: guard_forwards [OF _ w])
next
  case AdminCapacityGet
  then show ?thesis using h w by (auto simp: endpoint_handler_def handleAdminCapacityGet_def writeJSON_def elim!: guard_forwards [OF _ w])
next
  case AdminFallback
  then show ?thesis using h w by (auto simp: endpoint_handler_def handleAdminFallback_def split: if_splits elim!: guard_forwards [OF _ w])
next
  case MetricsEndpoint
  then show ?thesis using h w by (auto simp: endpoint_handler_def handleMetrics_def split: prod.splits result.splits)
next
  case Healthz
  then show ?thesis using h w by (auto simp: endpoint_handler_def handleHealthz_def)
qed (use that in simp)

lemma backend_only_gatekeeper:
  assumes "Handler env r s = (Ok w, s')" "w_Forwarded w = Some q"
  shows "gatekeeper env r new_writer s = (Ok w, s')"
proof -
  obtain ep where ep: "find_handler (routes (has_metrics s)) r = Handle ep"
    using assms by (auto simp: Handler_def split: route.splits)
  then have h: "endpoint_handler env ep r new_writer s = (Ok w, s')" using assms(1) by (simp add: Handler_def)
  with endpoint_forwards [OF h] assms(2) have "ep = Gatekeeper" by fastforce
  with h show ?thesis by (simp add: endpoint_handler_def)
qed

text \<open>What is advertised depends on the configuration only.\<close>

lemma advertised_frame [simp]:
  "poll_seconds (s\<lparr>sv_ctrl := c\<rparr>) = poll_seconds s"
  "advertised_eta res (s\<lparr>sv_ctrl := c\<rparr>) = advertised_eta res s"
  by (simp_all add: poll_seconds_def advertised_eta_def Let_def)

section \<open>A concrete server\<close>

text \<open>The demo store behind an admin key, a toy keyed hash, and a few requests.\<close>

definition demo_server :: "mem_store server" where
  "demo_server = \<lparr>sv_cfg = demo_settings\<lparr>c_AdminKey := ''key''\<rparr>, sv_ctrl = demo_ctl,
     sv_signer = NewSigner (\<lambda>k d. k @ take 4 d) ''secret'', sv_waitHTML = ''please wait''\<rparr>"

definition demo_renv :: "mem_store request_env" where
  "demo_renv = \<lparr>ev_ops = memory_ops sorted_range, ev_locker = \<lparr>lk_TryLock = (\<lambda>_ _ s. (Ok True, s))\<rparr>,
     ev_rand = Ok (replicate 16 (CHR ''z'')),
     ev_RFC3339 = (\<lambda>_. ''2026-01-01T00:00:00Z''), ev_fmt_g = (\<lambda>_. ''0''), ev_fmt_q = id\<rparr>"

definition demo_request :: "string \<Rightarrow> string \<Rightarrow> string \<Rightarrow> string \<Rightarrow> http_request" where
  "demo_request m path query key = \<lparr>rq_Method = m, rq_URL = local_url path query, rq_EscapedPath = path,
     rq_Header = (\<lambda>h. if h = adminHeader then key else []), rq_Cookies = [], rq_Body = Err ''EOF''\<rparr>"

lemma demo_server_sel [simp]:
  "sv_ctrl demo_server = demo_ctl" "c_AdminKey (sv_cfg demo_server) = ''key''"
  by (simp_all add: demo_server_def)

lemma demo_request_sel [simp]:
  "rq_Method (demo_request m p q k) = m" "rq_EscapedPath (demo_request m p q k) = p"
  "rq_Header (demo_request m p q k) adminHeader = k" "u_RawQuery (rq_URL (demo_request m p q k)) = q"
  "request_cookie (demo_request m p q k) n = None"
  by (simp_all add: demo_request_def request_cookie_def local_url_def)

lemma demo_shop: "find_handler (routes b) (demo_request m ''/shop'' q k) = Handle Gatekeeper"
proof -
  have "clean_path ''/shop'' = ''/shop''" by (simp add: clean_path_def path_clean_def)
  with requests_routed [of "demo_request m ''/shop'' q k" b] show ?thesis
    by (simp add: path_segments_def path_unescape_def endpoint_for_def Let_def)
qed

lemma demo_admitted:
  "\<exists>w s'. Handler demo_renv (demo_request ''GET'' ''/shop'' [] ''key'') demo_server = (Ok w, s') \<and>
     w_Forwarded w = Some (demo_request ''GET'' ''/shop'' [] ''key'')"
  by (simp add: Handler_def demo_shop endpoint_handler_def gatekeeper_def adminKeyFrom_def
      admin_key_flow_def setCookie_def split_beta Let_def)

section \<open>Properties\<close>

text \<open>
  C8: The backend is reached only by those entitled to it: a request is handed to it unchanged, and
  only with the admin key in the header, with a signed admin cookie that has not expired, or for a
  ticket that is active in the store afterwards.
\<close>

theorem backend_only_for_the_entitled:
  assumes "range_ok ord" and "ev_ops env = memory_ops ord" and "mem_inv (ct_store (sv_ctrl s))"
    and "0 < mem_budget (ct_store (sv_ctrl s))" and "1 \<le> Capacity (sv_ctrl s)"
    and "Handler env r s = (Ok w, s')" and "w_Forwarded w = Some q"
  shows "q = r \<and>
    (c_AdminKey (sv_cfg s) \<noteq> [] \<and> rq_Header r adminHeader = c_AdminKey (sv_cfg s) \<or>
     c_AdminKey (sv_cfg s) \<noteq> [] \<and> admin_cookie_valid r (sv_signer s) (server_now s) \<or>
     (\<exists>i. ticket_of env r s = Some i \<and> status_of (ct_store (sv_ctrl s')) i = StatusActive))"
proof -
  have "status_of (ct_store (sv_ctrl s')) i = StatusActive"
    if "Check (ev_ops env) i (sv_ctrl s1) = (Ok res, c)" "q_Decision res = DecisionProxy"
      "ct_store (sv_ctrl s') = ct_store c" "ct_store (sv_ctrl s1) = ct_store (sv_ctrl s)"
      "Capacity (sv_ctrl s1) = Capacity (sv_ctrl s)" for s1 i res c
    using check_report [OF assms(1), of "sv_ctrl s1" i "Ok res" c] assms(2-5) that by auto
  moreover note gatekeeper_forwards [OF backend_only_gatekeeper [OF assms(6,7)] _ assms(7)]
  ultimately show ?thesis unfolding let_in_by_check_def by (metis new_writer_sel(1))
qed

theorem backend_only_for_the_entitled_witness:
  "\<exists>w s'. Handler demo_renv (demo_request ''GET'' ''/shop'' [] ''key'') demo_server = (Ok w, s') \<and>
     w_Forwarded w = Some (demo_request ''GET'' ''/shop'' [] ''key'') \<and>
     (c_AdminKey (sv_cfg demo_server) = ''key'' \<or> status_of (ct_store (sv_ctrl s')) [] = StatusActive)"
proof -
  obtain w s' where "Handler demo_renv (demo_request ''GET'' ''/shop'' [] ''key'') demo_server = (Ok w, s')"
    "w_Forwarded w = Some (demo_request ''GET'' ''/shop'' [] ''key'')" using demo_admitted by blast
  moreover from backend_only_for_the_entitled [OF range_ok_sorted_range _ _ _ _ this] this
  have "c_AdminKey (sv_cfg demo_server) = ''key''"
    using demo_ctl_ok by (auto simp: demo_renv_def)
  ultimately show ?thesis by blast
qed

text \<open>
  C29: The cookie that the right key earns is an admin session of twelve hours: any later request
  that presents it is an admin's, whatever else changed, until twelve hours after the key was
  presented, and not after. The cookie is hidden from scripts and from cross-site requests.
\<close>

theorem admin_session_lasts:
  assumes "c_AdminKey (sv_cfg s) \<noteq> []" and "fst (adminKeyFrom r) = c_AdminKey (sv_cfg s)"
  shows "\<exists>w s' k. gatekeeper env r new_writer s = (Ok w, s') \<and> w_Cookies w = [k] \<and>
    k_Name k = adminCookie \<and> k_HttpOnly k \<and> k_SameSiteLax k \<and>
    (\<forall>r2 s2. request_cookie r2 adminCookie = Some (k_Value k) \<and> sv_signer s2 = sv_signer s \<longrightarrow>
       (fst (isAdmin r2 s2) \<longleftrightarrow> unix_sec (server_now s2) < unix_sec (server_now s + adminSessionDuration)))"
proof -
  obtain fromQuery where k: "adminKeyFrom r = (c_AdminKey (sv_cfg s), fromQuery)"
    using assms(2) by (cases "adminKeyFrom r") simp
  let ?payload = "admin_payload (server_now s)"
  let ?k = "\<lparr>k_Name = adminCookie, k_Value = Sign (sv_signer s) ?payload, k_Path = ''/'', k_HttpOnly = True,
      k_SameSiteLax = True, k_Secure = c_CookieSecure (sv_cfg s)\<rparr>"
  obtain w s' where g: "gatekeeper env r new_writer s = (Ok w, s')" "w_Cookies w = [?k]"
    using assms(1)
    by (cases fromQuery)
      (simp_all add: gatekeeper_def k admin_key_flow_def on_ctrl_eq read_clock_eq setCookie_def Let_def)
  have "ParseInt 10 (itoa (unix_sec t)) = Inr (unix_sec t)" for t
    by (rule ParseInt_itoa) (simp_all add: unix_sec_def s64_range)
  then have "fst (isAdmin r2 s2) \<longleftrightarrow> unix_sec (server_now s2) < unix_sec (server_now s + adminSessionDuration)"
    if "request_cookie r2 adminCookie = Some (k_Value ?k)" "sv_signer s2 = sv_signer s" for r2 and s2 :: "'b server"
    using that by (simp add: isAdmin_iff admin_cookie_valid_def admin_payload_def)
  with g show ?thesis by (intro exI [of _ w] exI [of _ s'] exI [of _ ?k]) simp
qed

theorem admin_session_lasts_witness:
  "\<exists>w s' k. gatekeeper demo_renv (demo_request ''GET'' ''/shop'' [] ''key'') new_writer demo_server = (Ok w, s') \<and>
     w_Cookies w = [k] \<and> k_HttpOnly k"
  using admin_session_lasts [of demo_server "demo_request ''GET'' ''/shop'' [] ''key''" demo_renv]
  by (auto simp: adminKeyFrom_def)

text \<open>
  C30: A ticket cookie is worth its ticket and nothing more: the cookie minted for a newcomer is
  recognised in later requests as the ticket it was minted for, and is never accepted as an admin
  session, even under the name of the admin cookie.
\<close>

theorem minted_ticket_is_a_ticket:
  assumes "known_ticket r s = None" and "ev_rand env = Ok b" and "b \<noteq> []"
  shows "\<exists>i k. ticketID env r w s = (Ok i, w\<lparr>w_Cookies := w_Cookies w @ [k]\<rparr>) \<and> k_Name k = ticketCookie \<and>
    (\<forall>r2 s2. sv_signer s2 = sv_signer s \<longrightarrow>
       (request_cookie r2 ticketCookie = Some (k_Value k) \<longrightarrow> known_ticket r2 s2 = Some i) \<and>
       (request_cookie r2 adminCookie = Some (k_Value k) \<longrightarrow> \<not> fst (isAdmin r2 s2)))"
proof -
  let ?i = "hex_encode b"
  let ?k = "\<lparr>k_Name = ticketCookie, k_Value = Sign (sv_signer s) ?i, k_Path = ''/'', k_HttpOnly = True,
      k_SameSiteLax = True, k_Secure = c_CookieSecure (sv_cfg s)\<rparr>"
  have "?i \<noteq> []" using length_hex_encode [of b] assms(3) by (metis length_0_conv mult_is_0 zero_neq_numeral)
  moreover have "?i \<noteq> ''admin:'' @ e" for e using hex_not_admin [of b] by (metis prefixI)
  moreover have "ticketID env r w s = (Ok ?i, w\<lparr>w_Cookies := w_Cookies w @ [?k]\<rparr>)"
    by (simp add: ticketID_def assms NewID_def setCookie_def SetCookie_def)
  ultimately show ?thesis
    by (intro exI [of _ ?i] exI [of _ ?k]) (simp add: known_ticket_Some isAdmin_iff admin_cookie_valid_def)
qed

theorem minted_ticket_is_a_ticket_witness:
  "\<exists>i k. ticketID demo_renv (demo_request ''GET'' ''/shop'' [] []) new_writer demo_server =
     (Ok i, new_writer\<lparr>w_Cookies := [k]\<rparr>) \<and> k_Name k = ticketCookie"
  using minted_ticket_is_a_ticket [of "demo_request ''GET'' ''/shop'' [] []" demo_server demo_renv
      "replicate 16 (CHR ''z'')" new_writer]
  by (auto simp: known_ticket_def demo_renv_def)

text \<open>
  C31: What becomes of a request with the right admin key in its query. With no key in the header it is
  redirected, not forwarded, to the same URL with the key's parameter gone and every other parameter
  kept. The header goes first: with the right key there too the request is forwarded as it came, the
  key still in its URL, and with a wrong key there it is refused, with no cookie.
\<close>

theorem redirect_strips_the_key:
  assumes "c_AdminKey (sv_cfg s) \<noteq> []"
    and "query_get (parse_query (u_RawQuery (rq_URL r))) adminParam = c_AdminKey (sv_cfg s)"
    and "gatekeeper env r new_writer s = (out, s')"
  shows "\<exists>w. out = Ok w \<and>
    (rq_Header r adminHeader = [] \<longrightarrow> w_Code w = Some 302 \<and> w_Forwarded w = None \<and>
       (\<exists>u. w_Redirect w = Some u \<and> u_Scheme u = u_Scheme (rq_URL r) \<and>
          u_Host u = u_Host (rq_URL r) \<and> u_Path u = u_Path (rq_URL r) \<and>
          (\<forall>k. map snd (filter (\<lambda>p. fst p = k) (parse_query (u_RawQuery u))) =
             (if k = adminParam then []
              else map snd (filter (\<lambda>p. fst p = k) (parse_query (u_RawQuery (rq_URL r)))))))) \<and>
    (rq_Header r adminHeader = c_AdminKey (sv_cfg s) \<longrightarrow> w_Redirect w = None \<and> w_Forwarded w = Some r) \<and>
    (rq_Header r adminHeader \<noteq> [] \<and> rq_Header r adminHeader \<noteq> c_AdminKey (sv_cfg s) \<longrightarrow>
       w_Code w = Some 403 \<and> w_Redirect w = None \<and> w_Forwarded w = None \<and> w_Cookies w = [])"
proof -
  consider (query) "rq_Header r adminHeader = []" | (header) "rq_Header r adminHeader = c_AdminKey (sv_cfg s)"
    | (wrong) "rq_Header r adminHeader \<noteq> []" "rq_Header r adminHeader \<noteq> c_AdminKey (sv_cfg s)"
    by blast
  then show ?thesis
  proof cases
    case query
    then have "adminKeyFrom r = (c_AdminKey (sv_cfg s), True)" by (simp add: adminKeyFrom_def assms(2) Let_def)
    then obtain w where "out = Ok w" "w_Code w = Some 302" "w_Redirect w = Some (strip_key (rq_URL r))"
      "w_Forwarded w = None"
      using assms(1,3) by (auto simp: gatekeeper_def admin_key_flow_def on_ctrl_eq read_clock_eq setCookie_def Let_def)
    with query assms(1) show ?thesis by (simp add: strip_key_def query_del_round_trip)
  next
    case header
    then have "adminKeyFrom r = (c_AdminKey (sv_cfg s), False)" using assms(1) by (simp add: adminKeyFrom_def Let_def)
    with header assms(1,3) show ?thesis
      by (auto simp: gatekeeper_def admin_key_flow_def on_ctrl_eq read_clock_eq setCookie_def SetCookie_def Forward_def Let_def)
  next
    case wrong
    then have "adminKeyFrom r = (rq_Header r adminHeader, False)" by (simp add: adminKeyFrom_def Let_def)
    with wrong assms(1,3) show ?thesis
      by (auto simp: gatekeeper_def admin_key_flow_def http_Error_def WriteHeader_def SetHeader_def Write_def)
  qed
qed

theorem redirect_strips_the_key_witness:
  "\<exists>w s' u. gatekeeper demo_renv (demo_request ''GET'' ''/shop'' ''x=1&gowait_admin=key'' []) new_writer demo_server = (Ok w, s') \<and>
     w_Redirect w = Some u \<and> filter (\<lambda>p. fst p = adminParam) (parse_query (u_RawQuery u)) = [] \<and>
     w_Forwarded w = None"
proof -
  let ?r = "demo_request ''GET'' ''/shop'' ''x=1&gowait_admin=key'' []"
  obtain out s' where g: "gatekeeper demo_renv ?r new_writer demo_server = (out, s')" by fastforce
  have key: "c_AdminKey (sv_cfg demo_server) \<noteq> []" "rq_Header ?r adminHeader = []"
    "query_get (parse_query (u_RawQuery (rq_URL ?r))) adminParam = c_AdminKey (sv_cfg demo_server)"
    by (simp_all add: query_get_def parse_query_def map_filter_def query_pair_def cut_def adminParam_def)
  from redirect_strips_the_key [OF key(1,3) g] key(2) obtain w u where
    "out = Ok w" "w_Redirect w = Some u" "w_Forwarded w = None"
    and "\<forall>k. map snd (filter (\<lambda>p. fst p = k) (parse_query (u_RawQuery u))) = (if k = adminParam then []
        else map snd (filter (\<lambda>p. fst p = k) (parse_query (u_RawQuery (rq_URL ?r)))))" by blast
  then have "map snd (filter (\<lambda>p. fst p = adminParam) (parse_query (u_RawQuery u))) = []" by presburger
  with g \<open>out = Ok w\<close> \<open>w_Redirect w = Some u\<close> \<open>w_Forwarded w = None\<close> show ?thesis by blast
qed

text \<open>
  C28: The admin interface is closed: nothing below \<^verbatim>\<open>/gowait/admin\<close> ever reaches the backend. Without
  a configured key the interface answers as if it did not exist, and to a request that is not
  authorised it answers 403; neither changes the store or the capacity.
\<close>

theorem admin_interface_is_closed:
  assumes "clean_path (rq_EscapedPath r) = rq_EscapedPath r"
    and "take 2 (path_segments (rq_EscapedPath r)) = [''gowait'', ''admin'']"
    and "Handler env r s = (Ok w, s')"
  shows "w_Forwarded w = None \<and>
    (3 \<le> length (path_segments (rq_EscapedPath r)) \<longrightarrow>
      (c_AdminKey (sv_cfg s) = [] \<longrightarrow> w = NotFound new_writer \<and> s' = s) \<and>
      (c_AdminKey (sv_cfg s) \<noteq> [] \<and> \<not> fst (adminAuthorized r s) \<longrightarrow>
         w_Code w = Some 403 \<and> ct_store (sv_ctrl s') = ct_store (sv_ctrl s) \<and>
         Capacity (sv_ctrl s') = Capacity (sv_ctrl s)))"
proof -
  let ?segs = "path_segments (rq_EscapedPath r)"
  note route = requests_routed [OF assms(1), of "has_metrics s"]
  show ?thesis
  proof (cases "?segs = [''gowait'', ''admin'']")
    case True
    with assms(3) route show ?thesis by (auto simp: Handler_def)
  next
    case False
    have "3 \<le> length ?segs" using False assms(2) by (cases "length ?segs \<le> 2") simp_all
    then have ep: "find_handler (routes (has_metrics s)) r = Handle (admin_endpoint (rq_Method r) (drop 2 ?segs))"
      using route False assms(2) by (auto simp: endpoint_for_def)
    have "admin_endpoint (rq_Method r) (drop 2 ?segs) \<in>
        {AdminStats, AdminCapacityGet, AdminCapacityPut, AdminFlush, AdminFallback}"
      by (simp add: admin_endpoint_def)
    then obtain h where h: "endpoint_handler env (admin_endpoint (rq_Method r) (drop 2 ?segs)) = adminGuard h"
      and "admin_endpoint (rq_Method r) (drop 2 ?segs) \<noteq> Gatekeeper"
      unfolding endpoint_handler_def by auto
    moreover from this have "w_Forwarded w = None"
      using assms(3) ep
      by (intro endpoint_forwards [of env "admin_endpoint (rq_Method r) (drop 2 ?segs)" r new_writer s w s'])
        (simp_all add: Handler_def)
    moreover have "adminGuard h r new_writer s = (Ok w, s')"
      using assms(3) ep by (simp add: Handler_def h)
    ultimately show ?thesis
      using adminAuthorized_frame [of r s] by (auto simp: adminGuard_def split_beta Let_def)
  qed
qed

theorem admin_interface_is_closed_witness:
  "\<exists>w s'. Handler demo_renv (demo_request ''POST'' ''/gowait/admin/flush'' [] ''guess'') demo_server = (Ok w, s') \<and>
     w_Code w = Some 403 \<and> ct_store (sv_ctrl s') = demo"
proof -
  let ?r = "demo_request ''POST'' ''/gowait/admin/flush'' [] ''guess''"
  have clean: "clean_path (rq_EscapedPath ?r) = rq_EscapedPath ?r"
    by (simp add: clean_path_def path_clean_def)
  have segs: "path_segments (rq_EscapedPath ?r) = [''gowait'', ''admin'', ''flush'']"
    by (simp add: path_segments_def path_unescape_def Let_def)
  have no: "\<not> fst (adminAuthorized ?r demo_server)" by (simp add: adminAuthorized_def)
  obtain w s' where h: "Handler demo_renv ?r demo_server = (Ok w, s')"
    using no requests_routed [OF clean, of "has_metrics demo_server"] unfolding segs
    by (simp add: Handler_def endpoint_for_def admin_endpoint_def endpoint_handler_def adminGuard_def
        split_beta Let_def)
  from admin_interface_is_closed [OF clean _ h] no segs show ?thesis by (auto simp: h)
qed

text \<open>
  The poll interval goes to the visitor in whole seconds, rounded down: an interval of half a second is
  advertised as none, and does not raise the wait of a ticket whose estimate is zero.
\<close>

lemma poll_seconds_rounds_down:
  "0 \<le> c_PollInterval (sv_cfg s) \<Longrightarrow> c_PollInterval (sv_cfg s) < 2 ^ 22 * second \<Longrightarrow>
    poll_seconds s = c_PollInterval (sv_cfg s) div second"
  by (simp add: poll_seconds_def trunc_seconds)

lemma half_a_second_is_none:
  assumes "c_PollInterval (sv_cfg s) = 500 * millisecond" "q_ETA res = 0"
  shows "poll_seconds s = 0" "advertised_eta res s = 0"
  using poll_seconds_rounds_down [of s] assms by (simp_all add: advertised_eta_def)

text \<open>
  C36: The status endpoint says what \<open>StatusOf\<close> says: it answers 200 with the decision and the place of
  the request's ticket. The wait it advertises, in whole seconds, is never less than the estimate, nor,
  for a ticket that must wait, less than the poll interval rounded down to whole seconds; so it is at
  least the poll interval if that is a whole number of seconds, and otherwise less than a second below
  it, for poll intervals under \<open>2 ^ 22\<close> seconds.
\<close>

theorem status_endpoint_is_honest:
  assumes "range_ok ord" and "ev_ops env = memory_ops ord" and "mem_inv (ct_store (sv_ctrl s))"
    and "1 \<le> Capacity (sv_ctrl s)" and "ticket_of env r s = Some i"
  shows "\<exists>w s' res c secs t. handleStatus env r new_writer s = (Ok w, s') \<and> w_Code w = Some 200 \<and>
    w_Body w = [Json (statusResponse res secs (poll_seconds s) t)] \<and>
    StatusOf (memory_ops ord) i (sv_ctrl s) = (Ok res, c) \<and> ct_store (sv_ctrl s') = ct_store c \<and>
    seconds (q_ETA res) \<le> of_int secs \<and> (q_Decision res = DecisionWait \<longrightarrow> poll_seconds s \<le> secs) \<and>
    (q_Decision res = DecisionWait \<and> 0 \<le> c_PollInterval (sv_cfg s) \<and> c_PollInterval (sv_cfg s) < 2 ^ 22 * second \<longrightarrow>
      c_PollInterval (sv_cfg s) div second \<le> secs \<and> c_PollInterval (sv_cfg s) < (secs + 1) * second \<and>
      (c_PollInterval (sv_cfg s) mod second = 0 \<longrightarrow> c_PollInterval (sv_cfg s) \<le> secs * second))"
proof -
  have cap: "Capacity (sv_ctrl s) \<noteq> 0" using assms(4) by simp
  obtain res c where st: "StatusOf (memory_ops ord) i (sv_ctrl s) = (Ok res, c)"
    using gate.StatusOf_run [OF assms(1,3) cap, of i] by metis
  obtain w1 where t: "ticketID env r new_writer s = (Ok i, w1)" "w_Code w1 = None" "w_Body w1 = []"
    using assms(5) by (auto simp: ticket_of_def ticketID_def setCookie_def split: option.splits result.splits)
  let ?secs = "advertised_eta res s"
  have "seconds (q_ETA res) \<le> of_int ?secs" "q_Decision res = DecisionWait \<longrightarrow> poll_seconds s \<le> ?secs"
    unfolding advertised_eta_def Let_def by (auto intro: order_trans [OF le_of_int_ceiling])
  moreover have "P < (n + 1) * second \<and> (P mod second = 0 \<longrightarrow> P \<le> n * second)" if "P div second \<le> n" for P n
  proof -
    have "P div second * second \<le> n * second" using that by (intro mult_right_mono) simp_all
    then show ?thesis using div_mult_mod_eq [of P second] pos_mod_bound [of second P] by (auto simp: distrib_right)
  qed
  moreover obtain w s' where "handleStatus env r new_writer s = (Ok w, s')" "w_Code w = Some 200"
    "w_Body w = [Json (statusResponse res ?secs (poll_seconds s) (ev_RFC3339 env (ct_clock c (ct_reads c))))]"
    "ct_store (sv_ctrl s') = ct_store c"
    using t st
    by (simp add: handleStatus_def assms(2) on_ctrl_eq writeStatusJSON_def read_clock_eq Let_def)
  ultimately show ?thesis using st poll_seconds_rounds_down [of s] by metis
qed

theorem status_endpoint_is_honest_witness:
  "\<exists>w s'. handleStatus demo_renv (demo_request ''GET'' ''/gowait/status'' [] []) new_writer demo_server = (Ok w, s') \<and>
     w_Code w = Some 200"
  using status_endpoint_is_honest [OF range_ok_sorted_range, of demo_renv demo_server
      "demo_request ''GET'' ''/gowait/status'' [] []" "hex_encode (replicate 16 (CHR ''z''))"] demo_ctl_ok
  by (auto simp: demo_renv_def ticket_of_def known_ticket_def NewID_def)

end
