(* ===== verification/GowaitProps.thy ===== *)
theory GowaitProps
  imports Gowait ServerProps
begin

text \<open>
  The program as a whole, from its arguments to its answers, on the in-process store: what the parts
  guarantee once \<open>run\<close> has wired them together.
\<close>

interpretation web: controller_service memory_ops range_ok gate.bounded mem_budget
  by (rule controlled_store.bounded_service [OF gate.controlled_store_axioms])

section \<open>The start\<close>

lemma start_Ok:
  "start b = Ok si \<longleftrightarrow>
    (\<exists>cfg secret st srv.
       Load (bt_url_parse b) (bt_quote b) (bt_environ b) (bt_args b) = Ok cfg \<and>
       cookie_secret (bt_rand b) cfg = Ok secret \<and> open_store b cfg = Ok st \<and>
       new_server (bt_page b) cfg (start_controller b cfg st) (NewSigner (bt_hmac b) secret) = Ok srv \<and>
       si = \<lparr>si_server = srv, si_prober = start_prober cfg, si_locker = (c_Store cfg = ''valkey'')\<rparr>)"
  by (auto simp: start_def)

lemma new_server_Ok:
  "new_server pe cfg ctrl sg = Ok srv \<Longrightarrow> sv_cfg srv = cfg \<and> sv_ctrl srv = ctrl \<and> sv_signer srv = sg"
  by (auto simp: new_server_def)

lemma start_parts:
  assumes "start b = Ok si"
  shows "\<exists>st. open_store b (sv_cfg (si_server si)) = Ok st \<and>
      sv_ctrl (si_server si) = start_controller b (sv_cfg (si_server si)) st"
    and "Load (bt_url_parse b) (bt_quote b) (bt_environ b) (bt_args b) = Ok (sv_cfg (si_server si))"
    and "si_prober si = start_prober (sv_cfg (si_server si))" and "si_locker si = (c_Store (sv_cfg (si_server si)) = ''valkey'')"
  using assms new_server_Ok unfolding start_Ok by fastforce+

lemma start_controller_bounded:
  assumes "1 \<le> c_Capacity cfg" "c_Capacity cfg \<le> C"
  shows "gate.bounded C (start_controller b cfg New)" "ct_store (start_controller b cfg New) = New"
  using assms mem_inv_New
  by (auto simp: start_controller_def gate.bounded_def SetMetrics_def new_controller_def Capacity_def
      gate.accounts_def balanced_def new_registry_def active_count_def mem_abs_New empty_room_def s64_def
      queue_config_def Let_def simp del: mem_abs_sel)

lemma start_bounded:
  assumes "start b = Ok si" "c_Store (sv_cfg (si_server si)) = ''memory''" "bt_memory_New b = New"
    "c_Capacity (sv_cfg (si_server si)) \<le> C" "c_ProbeMax (sv_cfg (si_server si)) \<le> C"
  shows "web.site_bounded C si" "ct_store (sv_ctrl (si_server si)) = New"
proof -
  let ?cfg = "sv_cfg (si_server si)"
  have "1 \<le> c_Capacity ?cfg" using load_sound [OF start_parts(2) [OF assms(1)]] by simp
  note c = start_controller_bounded [OF this assms(4), of b]
  have "sv_ctrl (si_server si) = start_controller b ?cfg New"
    using start_parts(1) [OF assms(1)] assms(2,3) by (auto simp: open_store_def)
  with c assms(5) start_parts(3,4) [OF assms(1)]
  show "web.site_bounded C si" "ct_store (sv_ctrl (si_server si)) = New"
    by (auto simp: web.site_bounded_def start_prober_def new_prober_def split: if_splits)
qed

section \<open>A concrete start\<close>

definition demo_boot :: "(mem_store, string) boot" where
  "demo_boot = \<lparr>bt_url_parse = demo_parse, bt_quote = id, bt_environ = demo_env, bt_args = demo_args,
     bt_rand = Ok (replicate 32 (CHR ''s'')), bt_hmac = (\<lambda>k d. k @ take 4 d),
     bt_page = \<lparr>pe_pageTmpl = ''wait'', pe_ReadFile = (\<lambda>_. Err ''no file''), pe_Parse = Ok,
        pe_Execute = (\<lambda>t d. Ok (t @ d_Title d)), pe_quote = id\<rparr>,
     bt_clock = (\<lambda>n. int n * second), bt_version = ''dev'', bt_memory_New = New,
     bt_valkey_New = (\<lambda>_ _. Err ''no server'')\<rparr>"

lemma demo_page:
  assumes "c_PollInterval cfg = 2 * second" "c_WaitLang cfg = ''en''" "c_WaitTitle cfg = []" "c_WaitBrand cfg = []"
    "c_WaitMessage cfg = []" "c_WaitTemplate cfg = []"
  shows "\<exists>srv. new_server (bt_page demo_boot) cfg ctrl sg = Ok srv"
proof -
  have "\<exists>html. Render (bt_page demo_boot) \<lparr>o_PollInterval = c_PollInterval cfg, o_Lang = c_WaitLang cfg,
      o_Title = c_WaitTitle cfg, o_Brand = c_WaitBrand cfg, o_Message = c_WaitMessage cfg,
      o_TemplatePath = c_WaitTemplate cfg\<rparr> = Ok html"
    using assms by (simp add: Render_def demo_boot_def locales_def locale_table_def and_also_def
        wrap_err_def Let_def)
  then show ?thesis by (auto simp: new_server_def)
qed

lemma demo_secret: "c_CookieSecret cfg = [] \<Longrightarrow>
    cookie_secret (Ok (replicate 32 (CHR ''s''))) cfg = Ok (hex_encode (replicate 32 (CHR ''s'')))"
  by (simp add: cookie_secret_def NewSecret_def)

lemma demo_start: "\<exists>si. start demo_boot = Ok si \<and> sv_cfg (si_server si) = demo_settings"
proof -
  obtain srv where srv: "new_server (bt_page demo_boot) demo_settings (start_controller demo_boot demo_settings New)
      (NewSigner (bt_hmac demo_boot) (hex_encode (replicate 32 (CHR ''s'')))) = Ok srv"
    using demo_page [of demo_settings] by (auto simp: demo_settings_def)
  moreover have "Load (bt_url_parse demo_boot) (bt_quote demo_boot) (bt_environ demo_boot) (bt_args demo_boot) =
      Ok demo_settings"
    using demo_load [of id] by (simp add: demo_boot_def)
  moreover have "cookie_secret (bt_rand demo_boot) demo_settings = Ok (hex_encode (replicate 32 (CHR ''s'')))"
    using demo_secret [of demo_settings] by (simp add: demo_settings_def demo_boot_def)
  moreover have "open_store demo_boot demo_settings = Ok New"
    by (simp add: open_store_def demo_settings_def demo_boot_def)
  ultimately show ?thesis using new_server_Ok [OF srv] unfolding start_Ok by fastforce
qed

section \<open>Properties\<close>

text \<open>
  C4: The running program never lets in more visitors than it may: after any start with the
  in-process store, over any sequence of HTTP requests, janitor ticks and prober ticks, every
  request is answered, nothing panics, and no more tickets are active than the largest capacity
  that the configuration, its prober, or an admin request asks for.
\<close>

theorem site_never_overfills:
  assumes "start b = Ok si" and "c_Store (sv_cfg (si_server si)) = ''memory''"
    and "bt_memory_New b = New"
    and "c_Capacity (sv_cfg (si_server si)) \<le> C" and "c_ProbeMax (sv_cfg (si_server si)) \<le> C"
    and "\<forall>(env, ev) \<in> set evs. (\<exists>ord. range_ok ord \<and> ev_ops env = memory_ops ord) \<and>
      ev_rand env \<noteq> Panic \<and> (\<forall>r n. ev = Request r \<longrightarrow> rq_Body r = Ok n \<longrightarrow> n \<le> C)"
    and "length evs \<le> 2 ^ 63 - 2"
    and "site_run evs si = (ok, si')"
  shows "ok \<and> active (ct_store (sv_ctrl (si_server si'))) \<le> C \<and> mem_inv (ct_store (sv_ctrl (si_server si')))"
proof -
  have "\<not> si_locker si" using assms(2) start_parts(4) [OF assms(1)] by simp
  then have "\<forall>x \<in> set evs. web.allowed C (si_locker si) x"
    using assms(6) by (auto simp: web.allowed_def)
  moreover have "length evs \<le> mem_budget (ct_store (sv_ctrl (si_server si)))"
    using start_bounded(2) [OF assms(1-5)] assms(7) by (simp add: mem_budget_New)
  ultimately have "fst (ok, si') \<and> web.site_bounded C (snd (ok, si'))"
    unfolding assms(8) [symmetric] by (intro web.site_run_bounded start_bounded(1) [OF assms(1-5)])
  then show ?thesis
    by (simp add: web.site_bounded_def gate.bounded_def mem_invD(2) del: mem_abs_sel)
qed

theorem site_never_overfills_witness:
  "\<exists>si. start demo_boot = Ok si \<and>
     fst (site_run [(demo_renv, Request (demo_request ''GET'' ''/shop'' [] [])), (demo_renv, JanitorTick),
       (demo_renv, ProbeTick NoResponse)] si)"
proof -
  obtain si where si: "start demo_boot = Ok si" "sv_cfg (si_server si) = demo_settings"
    using demo_start by blast
  let ?evs = "[(demo_renv, Request (demo_request ''GET'' ''/shop'' [] [])), (demo_renv, JanitorTick),
       (demo_renv, ProbeTick NoResponse)]"
  have "\<forall>(env, ev) \<in> set ?evs. (\<exists>ord. range_ok ord \<and> ev_ops env = memory_ops ord) \<and>
      ev_rand env \<noteq> Panic \<and> (\<forall>r n. ev = Request r \<longrightarrow> rq_Body r = Ok n \<longrightarrow> n \<le> 50)"
    using range_ok_sorted_range by (auto simp: demo_renv_def demo_request_def)
  from site_never_overfills [OF si(1) _ _ _ _ this _ prod.collapse [symmetric]] si
  show ?thesis by (auto simp: demo_settings_def demo_boot_def simp del: site_run.simps)
qed

text \<open>
  C15: A visitor whose page keeps polling is never evicted: with any configuration that \<open>Load\<close>
  accepts, a janitor tick within two poll intervals of a waiting ticket's last heartbeat keeps the
  ticket in the queue or lets it in.
\<close>

theorem polling_visitor_is_kept:
  assumes "Load url_parse quote env args = Ok cfg" and "c_PollInterval cfg < 2 ^ 62"
    and "range_ok ord" and "mem_inv (ct_store c)" and "ct_cfg c = queue_config cfg"
    and "i \<in> set (queue_ids (ct_store c))"
    and "ct_clock c (ct_reads c) \<le> last_seen (ct_store c) i + 2 * c_PollInterval cfg"
    and "janitor_tick (memory_ops ord) c = (out, c')"
  shows "out = Ok () \<and> status_of (ct_store c') i \<in> {StatusQueued, StatusActive}"
proof -
  let ?now = "ct_clock c (ct_reads c)" and ?r = "mem_abs (ct_store c)"
  obtain n where t: "out = Ok ()" "mem_inv (ct_store c')"
    "mem_abs (ct_store c') = snd (room_Reconcile memory_clocking n (c_InactivityTTL cfg) (c_QueueTTL cfg) ?now ?r)"
  proof (rule gate.janitor_tick_run [OF assms(3,4) memory_clocking_simps(5)])
    fix c1 assume "janitor_tick (memory_ops ord) c = (Ok (), c1)" "mem_inv (ct_store c1)"
      and "mem_abs (ct_store c1) = snd (room_Reconcile memory_clocking
        (case override (mem_abs (ct_store c)) of Some m \<Rightarrow> if m \<ge> 1 then m else cfg_Capacity (ct_cfg c)
         | None \<Rightarrow> cfg_Capacity (ct_cfg c)) (cfg_ActiveTTL (ct_cfg c)) (cfg_QueueTTL (ct_cfg c))
        (ck_stamp memory_clocking (ct_clock c (ct_reads c))) (mem_abs (ct_store c)))"
    with assms(8) show thesis
      by (intro that) (simp_all add: assms(5) queue_config_def Let_def del: mem_abs_sel)
  qed
  have poll: "2 * c_PollInterval cfg \<le> c_QueueTTL cfg"
    using load_sound [OF assms(1)] assms(2) by simp
  obtain a where a: "a \<in> set (queue (ct_store c))" "e_id (heap (ct_store c) a) = i"
    using assms(6) by (auto simp: queue_ids_def)
  define w where "w = waiter_of (heap (ct_store c) a)"
  have w: "w \<in> set (waiting ?r)" "w_id w = i" "w_seen w = last_seen (ct_store c) i"
    using a last_seen_queue [OF assms(4) a(1)] by (auto simp: w_def)
  have "0 \<le> 2 * c_PollInterval cfg" using load_sound [OF assms(1)] by simp
  then have "time_sub ?now (last_seen (ct_store c) i) \<le> 2 * c_PollInterval cfg"
    unfolding time_sub_def using assms(7) by (intro order_trans [OF sat64_mono sat64_le]) simp_all
  with poll have "time_sub ?now (last_seen (ct_store c) i) \<le> c_QueueTTL cfg" by simp
  then have "\<not> ck_idle memory_clocking (c_QueueTTL cfg) ?now (w_seen w)" by (simp add: w(3))
  from reconcile_keeps_fresh_waiter [OF w(1) this, of n "c_InactivityTTL cfg"]
  show ?thesis
    using t(1) queued_status [OF t(2)] unfolding t(3) [symmetric] w(2) is_active_status queued_mem by auto
qed

theorem polling_visitor_is_kept_witness:
  "status_of (ct_store (snd (janitor_tick (memory_ops sorted_range)
     (demo_ctl\<lparr>ct_cfg := queue_config demo_settings\<rparr>)))) ''b'' \<in> {StatusQueued, StatusActive}"
proof -
  have "''b'' \<in> set (queue_ids demo)" by (simp add: demo_ids)
  moreover have "3 * second \<le> last_seen demo ''b'' + 2 * c_PollInterval demo_settings"
    using demo_state(5) by (simp add: last_seen_def demo_state(6) demo_settings_def)
  ultimately show ?thesis
    using polling_visitor_is_kept [OF demo_load [of id] _ range_ok_sorted_range _ _ _ _ prod.collapse [symmetric],
        of "demo_ctl\<lparr>ct_cfg := queue_config demo_settings\<rparr>" "''b''"] mem_inv_demo
    by (simp add: demo_settings_def)
qed

end
