(* ===== verification/ValkeyServer.thy ===== *)
theory ValkeyServer
  imports StoreTypes GoText "HOL-Library.List_Lexorder" "HOL-Library.Char_ord"
begin

text \<open>
  What \<^verbatim>\<open>valkeystore.go\<close> relies on and does not contain: the commands of a Valkey server, the two
  conversions of Lua between numbers and text, and the client library. They are records of
  operations, and their documented behaviour is the locale \<open>valkey_server\<close>: the server's data seen
  as sorted sets, hashes and strings under keys, and what each command returns and changes.

  Numbers travel as decimal text between Go, the server and Lua, where they are floating-point.
  Integers of up to 14 digits survive every conversion on the way, and that covers instants in
  milliseconds for three thousand years, so scores, hash values and script arguments are integers
  here and their conversions are left out. The average session length is a true \<open>float64\<close> and keeps
  its conversions.
\<close>

section \<open>Commands and replies\<close>

datatype reply = RInt int | RStr string | RNil | RArr "reply list"

record 'v redis =
  r_ZSCORE :: "string \<Rightarrow> string \<Rightarrow> 'v \<Rightarrow> int option"
  r_ZADD :: "string \<Rightarrow> int \<Rightarrow> string \<Rightarrow> 'v \<Rightarrow> 'v"
  r_ZCARD :: "string \<Rightarrow> 'v \<Rightarrow> int"
  r_ZRANK :: "string \<Rightarrow> string \<Rightarrow> 'v \<Rightarrow> int option"
  r_ZREM :: "string \<Rightarrow> string \<Rightarrow> 'v \<Rightarrow> 'v"
  r_ZBELOW :: "string \<Rightarrow> int \<Rightarrow> 'v \<Rightarrow> string list" \<comment> \<open>\<open>ZRANGEBYSCORE key -inf (x\<close>\<close>
  r_ZPOPMIN :: "string \<Rightarrow> 'v \<Rightarrow> string option \<times> 'v"
  r_HSET :: "string \<Rightarrow> string \<Rightarrow> int \<Rightarrow> 'v \<Rightarrow> 'v"
  r_HGET :: "string \<Rightarrow> string \<Rightarrow> 'v \<Rightarrow> int option"
  r_HDEL :: "string \<Rightarrow> string \<Rightarrow> 'v \<Rightarrow> 'v"
  r_GET :: "string \<Rightarrow> 'v \<Rightarrow> string option"
  r_SET :: "string \<Rightarrow> string \<Rightarrow> 'v \<Rightarrow> 'v"
  r_SETNX :: "string \<Rightarrow> string \<Rightarrow> int \<Rightarrow> 'v \<Rightarrow> reply result \<times> 'v" \<comment> \<open>\<open>SET key value NX PX ms\<close>\<close>
  r_INCR :: "string \<Rightarrow> 'v \<Rightarrow> int \<times> 'v"
  r_DEL :: "string list \<Rightarrow> 'v \<Rightarrow> 'v"
  r_tonumber :: "string \<Rightarrow> float64 option" \<comment> \<open>Lua's \<open>tonumber\<close> and \<open>tostring\<close>, for the average\<close>
  r_tostring :: "float64 \<Rightarrow> string"

text \<open>The accessors of the client library on a reply, and its error for a nil reply.\<close>

record client =
  cl_AsInt64 :: "reply \<Rightarrow> int result"
  cl_ToArray :: "reply \<Rightarrow> reply list result"
  cl_ToString :: "reply \<Rightarrow> string result"
  cl_Error :: "reply \<Rightarrow> error option"
  cl_nil :: error \<comment> \<open>the error \<open>IsValkeyNil\<close> recognises\<close>
  cl_ParseFloat :: "string \<Rightarrow> float64 option" \<comment> \<open>\<open>strconv.ParseFloat\<close>, on what \<open>tostring\<close> writes\<close>

text \<open>
  What happens to one request to the server: it is executed and the reply arrives, or it is lost, or
  it is executed and the reply is lost. A script runs on the server without interruption; a run-time
  error inside it becomes an error reply, and what it did before stays done.
\<close>

datatype delivery = Delivered | LostRequest error | LostReply error

fun deliver :: "delivery \<Rightarrow> ('v \<Rightarrow> reply result \<times> 'v) \<Rightarrow> 'v \<Rightarrow> reply result \<times> 'v" where
  "deliver Delivered f v = f v"
| "deliver (LostRequest e) f v = (Err e, v)"
| "deliver (LostReply e) f v = (Err e, snd (f v))"

section \<open>Sorted sets\<close>

text \<open>A sorted set is the list of its members with their scores, in the order of score and member.\<close>

type_synonym zset = "(string \<times> int) list"

definition zless :: "string \<times> int \<Rightarrow> string \<times> int \<Rightarrow> bool" where
  "zless p q \<longleftrightarrow> snd p < snd q \<or> snd p = snd q \<and> fst p < fst q"

definition zremove :: "string \<Rightarrow> zset \<Rightarrow> zset" where
  "zremove m z = filter (\<lambda>p. fst p \<noteq> m) z"

fun zplace :: "string \<times> int \<Rightarrow> zset \<Rightarrow> zset" where
  "zplace p [] = [p]"
| "zplace p (q # z) = (if zless p q then p # q # z else q # zplace p z)"

definition zinsert :: "int \<Rightarrow> string \<Rightarrow> zset \<Rightarrow> zset" where
  "zinsert s m z = zplace (m, s) (zremove m z)"

definition zset_ok :: "zset \<Rightarrow> bool" where
  "zset_ok z \<longleftrightarrow> sorted_wrt zless z \<and> distinct (map fst z)"

fun zrank :: "string \<Rightarrow> zset \<Rightarrow> int option" where
  "zrank m [] = None"
| "zrank m (p # z) = (if fst p = m then Some 0 else map_option (\<lambda>n. n + 1) (zrank m z))"

section \<open>Sorted sets as lists\<close>

lemma fst_zplace: "fst ` set (zplace p z) = insert (fst p) (fst ` set z)"
  by (induction z) auto

lemma set_zplace: "set (zplace p z) = insert p (set z)"
  by (induction z) auto

lemma length_zplace [simp]: "length (zplace p z) = Suc (length z)"
  by (induction z) auto

lemma zless_trans: "zless p q \<Longrightarrow> zless q r \<Longrightarrow> zless p r"
  by (auto simp: zless_def)

lemma zless_total: "fst p \<noteq> fst q \<Longrightarrow> \<not> zless p q \<Longrightarrow> zless q p"
  by (auto simp: zless_def)

lemma zremove_ok: "zset_ok z \<Longrightarrow> zset_ok (zremove m z)"
  by (auto simp: zset_ok_def zremove_def sorted_wrt_filter distinct_map_filter)

lemma zset_ok_Cons:
  "zset_ok (p # z) \<longleftrightarrow> (\<forall>q \<in> set z. zless p q) \<and> fst p \<notin> fst ` set z \<and> zset_ok z"
  by (auto simp: zset_ok_def)

lemma zplace_ok:
  "zset_ok z \<Longrightarrow> fst p \<notin> fst ` set z \<Longrightarrow> zset_ok (zplace p z)"
proof (induction z)
  case (Cons q z)
  then have z: "zset_ok z" "fst p \<notin> fst ` set z" "\<forall>r \<in> set z. zless q r" "fst p \<noteq> fst q" "fst q \<notin> fst ` set z"
    by (simp_all add: zset_ok_Cons)
  show ?case
  proof (cases "zless p q")
    case True
    then have "\<forall>r \<in> set z. zless p r" using z(3) zless_trans by blast
    with True z Cons.prems show ?thesis by (simp add: zset_ok_Cons)
  next
    case False
    with zless_total [OF z(4)] have "zless q p" by blast
    with Cons.IH [OF z(1,2)] z False show ?thesis by (simp add: zset_ok_Cons set_zplace fst_zplace)
  qed
qed (simp add: zset_ok_def)

lemma zinsert_ok: "zset_ok z \<Longrightarrow> zset_ok (zinsert s m z)"
  unfolding zinsert_def by (rule zplace_ok [OF zremove_ok]) (auto simp: zremove_def)

lemma zinsert_members: "fst ` set (zinsert s m z) = insert m (fst ` set z)"
  by (auto simp: zinsert_def fst_zplace zremove_def image_iff)

lemma zremove_members: "fst ` set (zremove m z) = fst ` set z - {m}"
  by (auto simp: zremove_def)

lemma zremove_absent: "m \<notin> fst ` set z \<Longrightarrow> zremove m z = z"
  by (auto simp: zremove_def filter_id_conv)

lemma map_of_zplace: "fst p \<notin> fst ` set z \<Longrightarrow> map_of (zplace p z) = (map_of z)(fst p \<mapsto> snd p)"
  by (induction z) (auto simp: fun_eq_iff)

lemma map_of_zremove: "map_of (zremove m z) = (map_of z)(m := None)"
  by (induction z) (auto simp: zremove_def fun_eq_iff)

lemma map_of_zinsert: "map_of (zinsert s m z) = (map_of z)(m \<mapsto> s)"
  unfolding zinsert_def by (subst map_of_zplace) (auto simp: zremove_members map_of_zremove)

lemma dom_map_of_fst: "dom (map_of z) = fst ` set z"
  by (rule dom_map_of_conv_image_fst)

lemma length_card: "zset_ok z \<Longrightarrow> length z = card (fst ` set z)"
  by (metis distinct_card length_map set_map zset_ok_def)

text \<open>A member with a score above all others goes to the end.\<close>

lemma zplace_last: "\<forall>q \<in> set z. snd q < snd p \<Longrightarrow> zplace p z = z @ [p]"
  by (induction z) (auto simp: zless_def)

lemma zinsert_last: "m \<notin> fst ` set z \<Longrightarrow> \<forall>q \<in> set z. snd q < s \<Longrightarrow> zinsert s m z = z @ [(m, s)]"
  by (simp add: zinsert_def zremove_absent zplace_last)


section \<open>The documented behaviour\<close>

text \<open>
  \<open>zs\<close>, \<open>hs\<close> and \<open>st\<close> are what the server holds. Every command changes the data under its key and
  nothing else; a key is only ever used for one kind of data.
\<close>

locale valkey_server =
  fixes rc :: "'v redis"
    and cl :: client
    and zs :: "'v \<Rightarrow> string \<Rightarrow> zset"
    and hs :: "'v \<Rightarrow> string \<Rightarrow> (string \<rightharpoonup> int)"
    and st :: "'v \<Rightarrow> string \<Rightarrow> string option"
  assumes zs_ok: "zset_ok (zs v k)"
    and ZSCORE: "r_ZSCORE rc k m v = map_of (zs v k) m"
    and ZADD: "zs (r_ZADD rc k s m v) = (zs v)(k := zinsert s m (zs v k))"
      "hs (r_ZADD rc k s m v) = hs v" "st (r_ZADD rc k s m v) = st v"
    and ZCARD: "r_ZCARD rc k v = int (length (zs v k))"
    and ZRANK: "r_ZRANK rc k m v = zrank m (zs v k)"
    and ZREM: "zs (r_ZREM rc k m v) = (zs v)(k := zremove m (zs v k))"
      "hs (r_ZREM rc k m v) = hs v" "st (r_ZREM rc k m v) = st v"
    and ZBELOW: "r_ZBELOW rc k x v = map fst (filter (\<lambda>p. snd p < x) (zs v k))"
    and ZPOPMIN: "fst (r_ZPOPMIN rc k v) = (case zs v k of [] \<Rightarrow> None | p # _ \<Rightarrow> Some (fst p))"
      "zs (snd (r_ZPOPMIN rc k v)) = (zs v)(k := tl (zs v k))"
      "hs (snd (r_ZPOPMIN rc k v)) = hs v" "st (snd (r_ZPOPMIN rc k v)) = st v"
    and HSET: "hs (r_HSET rc k f x v) = (hs v)(k := (hs v k)(f \<mapsto> x))"
      "zs (r_HSET rc k f x v) = zs v" "st (r_HSET rc k f x v) = st v"
    and HGET: "r_HGET rc k f v = hs v k f"
    and HDEL: "hs (r_HDEL rc k f v) = (hs v)(k := (hs v k)(f := None))"
      "zs (r_HDEL rc k f v) = zs v" "st (r_HDEL rc k f v) = st v"
    and GET: "r_GET rc k v = st v k"
    and SET: "st (r_SET rc k w v) = (st v)(k \<mapsto> w)"
      "zs (r_SET rc k w v) = zs v" "hs (r_SET rc k w v) = hs v"
    and SETNX: "0 < ms \<Longrightarrow> fst (r_SETNX rc k w ms v) = Ok (if st v k = None then RStr ''OK'' else RNil)"
      "0 < ms \<Longrightarrow> st (snd (r_SETNX rc k w ms v)) = (if st v k = None then (st v)(k \<mapsto> w) else st v)"
      "ms \<le> 0 \<Longrightarrow> \<exists>e. r_SETNX rc k w ms v = (Err e, v) \<and> e \<noteq> cl_nil cl"
      "zs (snd (r_SETNX rc k w ms v)) = zs v" "hs (snd (r_SETNX rc k w ms v)) = hs v"
    and INCR: "st v k = None \<and> n = 0 \<or> st v k = Some (itoa n) \<Longrightarrow> 0 \<le> n \<Longrightarrow> n < 2 ^ 63 - 1 \<Longrightarrow>
        fst (r_INCR rc k v) = n + 1 \<and> st (snd (r_INCR rc k v)) = (st v)(k \<mapsto> itoa (n + 1))"
      "zs (snd (r_INCR rc k v)) = zs v" "hs (snd (r_INCR rc k v)) = hs v"
    and DEL: "zs (r_DEL rc ks v) = (\<lambda>k. if k \<in> set ks then [] else zs v k)"
      "hs (r_DEL rc ks v) = (\<lambda>k. if k \<in> set ks then Map.empty else hs v k)"
      "st (r_DEL rc ks v) = (\<lambda>k. if k \<in> set ks then None else st v k)"
    and AsInt64: "cl_AsInt64 cl (RInt n) = Ok n"
    and ToArray: "cl_ToArray cl (RArr rs) = Ok rs"
    and ToString: "cl_ToString cl (RStr w) = Ok w" "cl_ToString cl RNil = Err (cl_nil cl)"
    and Error: "cl_Error cl (RStr w) = None" "cl_Error cl RNil = Some (cl_nil cl)"


end
