(* ===== verification/ValkeyStore.thy ===== *)
theory ValkeyStore
  imports ValkeyServer
begin

text \<open>
  \<^verbatim>\<open>internal/store/valkeystore/valkeystore.go\<close>: the store that replicas share. Each method is one
  request to the server, a Lua script except for the capacity and the leases, and the decoding of
  its reply. Scripts are functions of the commands (\<open>redis\<close>); \<open>KEYS\<close> and \<open>ARGV\<close> are their arguments,
  in order. A method also takes what happens to its request on the way (\<open>delivery\<close>).
\<close>

section \<open>The Lua scripts\<close>

text \<open>Arithmetic on \<open>nil\<close> ends a script with a run-time error.\<close>

definition nil_arithmetic :: error where
  "nil_arithmetic = ''attempt to perform arithmetic on a nil value''"

definition tryAdmitScript ::
  "'v redis \<Rightarrow> string \<Rightarrow> string \<Rightarrow> string \<Rightarrow> string \<Rightarrow> int \<Rightarrow> int \<Rightarrow> 'v \<Rightarrow> reply result \<times> 'v" where
  "tryAdmitScript rc k1 k2 k3 i cap now v =
     (if r_ZSCORE rc k1 i v \<noteq> None then (Ok (RInt 1), r_ZADD rc k1 now i v)
      else if r_ZCARD rc k1 v < cap \<and> r_ZCARD rc k3 v = 0
        then (let v = r_ZADD rc k1 now i v; v = r_HSET rc k2 i now v in (Ok (RInt 1), v))
      else (Ok (RInt 0), v))"

definition enqueueScript ::
  "'v redis \<Rightarrow> string \<Rightarrow> string \<Rightarrow> string \<Rightarrow> string \<Rightarrow> string \<Rightarrow> string \<Rightarrow> int \<Rightarrow> 'v \<Rightarrow> reply result \<times> 'v" where
  "enqueueScript rc k1 k2 k3 k4 k5 i now v =
     (if r_ZSCORE rc k3 i v \<noteq> None
      then (Ok (RArr [RInt 2, RInt 0, RInt (r_ZCARD rc k1 v), RInt (r_ZCARD rc k3 v)]), v)
      else let (rank, v) =
                 (case r_ZRANK rc k1 i v of
                    Some n \<Rightarrow> (Some n, v)
                  | None \<Rightarrow> let (seq, v) = r_INCR rc k4 v;
                              v = r_ZADD rc k1 seq i v;
                              v = r_HSET rc k5 i now v
                           in (r_ZRANK rc k1 i v, v));
               v = r_ZADD rc k2 now i v
           in case rank of
                None \<Rightarrow> (Err nil_arithmetic, v)
              | Some n \<Rightarrow>
                  (Ok (RArr [RInt 1, RInt (n + 1), RInt (r_ZCARD rc k1 v), RInt (r_ZCARD rc k3 v)]), v))"

definition lookupScript ::
  "'v redis \<Rightarrow> string \<Rightarrow> string \<Rightarrow> string \<Rightarrow> string \<Rightarrow> int \<Rightarrow> 'v \<Rightarrow> reply result \<times> 'v" where
  "lookupScript rc k1 k2 k3 i now v =
     (let qlen = r_ZCARD rc k1 v; act = r_ZCARD rc k3 v
      in if r_ZSCORE rc k3 i v \<noteq> None
         then (Ok (RArr [RInt 2, RInt 0, RInt qlen, RInt act]), r_ZADD rc k3 now i v)
         else case r_ZRANK rc k1 i v of
                Some rank \<Rightarrow> (Ok (RArr [RInt 1, RInt (rank + 1), RInt qlen, RInt act]), r_ZADD rc k2 now i v)
              | None \<Rightarrow> (Ok (RArr [RInt 0, RInt 0, RInt qlen, RInt act]), v))"

definition touchScript :: "'v redis \<Rightarrow> string \<Rightarrow> string \<Rightarrow> int \<Rightarrow> 'v \<Rightarrow> reply result \<times> 'v" where
  "touchScript rc k1 i now v =
     (if r_ZSCORE rc k1 i v \<noteq> None then (Ok (RInt 1), r_ZADD rc k1 now i v) else (Ok (RInt 0), v))"

text \<open>The reconcile script, step by step. Step 1, for each id the range command returned:\<close>

definition script_average :: "'v redis \<Rightarrow> string \<Rightarrow> float64 \<Rightarrow> 'v \<Rightarrow> float64" where
  "script_average rc k5 dur v =
     (case r_GET rc k5 v of
        None \<Rightarrow> dur
      | Some s \<Rightarrow>
          (case r_tonumber rc s of
             None \<Rightarrow> dur
           | Some avg \<Rightarrow> if avg = 0 then dur else f_add (f_mul (f64 (1 / 5)) dur) (f_mul (f64 (4 / 5)) avg)))"

fun script_expire ::
  "'v redis \<Rightarrow> string \<Rightarrow> string \<Rightarrow> string \<Rightarrow> string list \<Rightarrow> 'v \<Rightarrow> unit result \<times> 'v" where
  "script_expire rc k1 k2 k5 [] v = (Ok (), v)"
| "script_expire rc k1 k2 k5 (i # is) v =
     (case r_ZSCORE rc k1 i v of
        None \<Rightarrow> (Err nil_arithmetic, v)
      | Some lastSeen \<Rightarrow>
          let admittedAt = (case r_HGET rc k2 i v of Some t \<Rightarrow> t | None \<Rightarrow> lastSeen);
              dur = f_div (f_of_int (lastSeen - admittedAt)) 1000;
              avg = script_average rc k5 dur v;
              v = r_SET rc k5 (r_tostring rc avg) v;
              v = r_ZREM rc k1 i v;
              v = r_HDEL rc k2 i v
          in script_expire rc k1 k2 k5 is v)"

text \<open>Step 2:\<close>

fun script_evict :: "'v redis \<Rightarrow> string \<Rightarrow> string \<Rightarrow> string \<Rightarrow> string list \<Rightarrow> 'v \<Rightarrow> 'v" where
  "script_evict rc k3 k4 k6 [] v = v"
| "script_evict rc k3 k4 k6 (i # is) v =
     script_evict rc k3 k4 k6 is (r_HDEL rc k6 i (r_ZREM rc k4 i (r_ZREM rc k3 i v)))"

text \<open>
  Step 3 is a loop that ends when the slots are full or the queue is empty: how often it runs is up
  to the server.
\<close>

partial_function (option) script_promote ::
  "'v redis \<Rightarrow> string \<Rightarrow> string \<Rightarrow> string \<Rightarrow> string \<Rightarrow> string \<Rightarrow> int \<Rightarrow> int \<Rightarrow> int \<Rightarrow> int list \<Rightarrow> 'v \<Rightarrow>
     (int \<times> int list \<times> 'v) option" where
  "script_promote rc k1 k2 k3 k4 k6 cap now promoted waited v =
     (if r_ZCARD rc k1 v < cap
      then case r_ZPOPMIN rc k3 v of
             (None, v) \<Rightarrow> Some (promoted, waited, v)
           | (Some i, v) \<Rightarrow>
               let v = r_ZREM rc k4 i v;
                   enq = (case r_HGET rc k6 i v of Some t \<Rightarrow> t | None \<Rightarrow> now);
                   v = r_HDEL rc k6 i v;
                   v = r_ZADD rc k1 now i v;
                   v = r_HSET rc k2 i now v
               in script_promote rc k1 k2 k3 k4 k6 cap now (promoted + 1) (waited @ [now - enq]) v
      else Some (promoted, waited, v))"

text \<open>A script that does not return blocks its caller: \<open>Panic\<close> stands for that.\<close>

definition reconcileScript ::
  "'v redis \<Rightarrow> string \<Rightarrow> string \<Rightarrow> string \<Rightarrow> string \<Rightarrow> string \<Rightarrow> string \<Rightarrow> int \<Rightarrow> int \<Rightarrow> int \<Rightarrow> int \<Rightarrow> 'v \<Rightarrow>
     reply result \<times> 'v" where
  "reconcileScript rc k1 k2 k3 k4 k5 k6 cap activeTTL queueTTL now v =
     (let expired = r_ZBELOW rc k1 (now - activeTTL) v
      in and_then (script_expire rc k1 k2 k5 expired v) (\<lambda>_ v.
           let ghosts = r_ZBELOW rc k4 (now - queueTTL) v;
               v = script_evict rc k3 k4 k6 ghosts v
           in case script_promote rc k1 k2 k3 k4 k6 cap now 0 [] v of
                None \<Rightarrow> (Panic, v)
              | Some (promoted, waited, v) \<Rightarrow>
                  (Ok (RArr [RInt promoted, RInt (int (length expired)), RInt (int (length ghosts)),
                             RArr (map RInt waited)]), v)))"

definition flushScript :: "'v redis \<Rightarrow> string \<Rightarrow> string \<Rightarrow> string \<Rightarrow> 'v \<Rightarrow> reply result \<times> 'v" where
  "flushScript rc k1 k2 k3 v = (let n = r_ZCARD rc k1 v in (Ok (RInt n), r_DEL rc [k1, k2, k3] v))"

definition statsScript :: "'v redis \<Rightarrow> string \<Rightarrow> string \<Rightarrow> string \<Rightarrow> 'v \<Rightarrow> reply result \<times> 'v" where
  "statsScript rc k1 k2 k3 v =
     (Ok (RArr [RInt (r_ZCARD rc k1 v), RInt (r_ZCARD rc k2 v),
        RStr (case r_GET rc k3 v of Some s \<Rightarrow> s | None \<Rightarrow> [])]), v)"

section \<open>The store\<close>

record vk_store =
  k_order :: string
  k_seen :: string
  k_active :: string
  k_admitted :: string
  k_enqueued :: string
  k_avg :: string
  k_seq :: string
  k_capacityKey :: string
  k_lockPrefix :: string

definition NewWithClient :: "string \<Rightarrow> vk_store" where
  "NewWithClient p = \<lparr>k_order = p @ ''order'', k_seen = p @ ''seen'', k_active = p @ ''active'',
     k_admitted = p @ ''admitted'', k_enqueued = p @ ''enqueued'', k_avg = p @ ''avg'',
     k_seq = p @ ''seq'', k_capacityKey = p @ ''capacity'', k_lockPrefix = p @ ''lock:''\<rparr>"

text \<open>
  \<open>New\<close>: the URL parser, the plain-address option and the connection are the client library's. The
  store is the client it got and the names of its keys.
\<close>

definition vk_New ::
  "(string \<Rightarrow> 'o result) \<Rightarrow> (string list \<Rightarrow> 'o) \<Rightarrow> ('o \<Rightarrow> 'c result) \<Rightarrow> string \<Rightarrow> string \<Rightarrow>
     ('c \<times> vk_store) result" where
  "vk_New ParseURL InitAddress NewClient url p =
     (let opt = (case ParseURL url of Ok opt \<Rightarrow> opt | _ \<Rightarrow> InitAddress [url])
      in case NewClient opt of
           Ok c \<Rightarrow> Ok (c, NewWithClient p)
         | Err e \<Rightarrow> Err (''connecting to valkey at '' @ url @ '': '' @ e)
         | Panic \<Rightarrow> Panic)"

text \<open>\<open>ms\<close>: milliseconds since the epoch, and a duration in whole milliseconds.\<close>

definition unix_milli :: "time \<Rightarrow> int" where
  "unix_milli t = s64 (t div 1000000)"

definition milliseconds :: "dur \<Rightarrow> int" where
  "milliseconds d = d sdiv 1000000"

text \<open>An accessor applied to the outcome of a request, and \<open>fmt.Errorf("valkey op: %w", err)\<close>.\<close>

definition reply_as :: "(reply \<Rightarrow> 'a result) \<Rightarrow> reply result \<Rightarrow> 'a result" where
  "reply_as acc out = (case out of Ok r \<Rightarrow> acc r | Err e \<Rightarrow> Err e | Panic \<Rightarrow> Panic)"

abbreviation vk_wrap :: "string \<Rightarrow> 'a result \<Rightarrow> 'a result" where
  "vk_wrap what \<equiv> wrap_err (''valkey '' @ what @ '': '')"

text \<open>\<open>err != nil || len(arr) != n\<close> formats a nil error when only the length is wrong.\<close>

definition array_of :: "client \<Rightarrow> string \<Rightarrow> nat \<Rightarrow> reply result \<Rightarrow> reply list result" where
  "array_of cl what n out =
     (case reply_as (cl_ToArray cl) out of
        Ok arr \<Rightarrow> if length arr \<noteq> n then Err (''valkey '' @ what @ '': %!w(<nil>)'') else Ok arr
      | res \<Rightarrow> vk_wrap what res)"

text \<open>The loops that read integers out of an array; \<open>what\<close> names the field for the error.\<close>

fun ints_of :: "client \<Rightarrow> (nat \<Rightarrow> string) \<Rightarrow> nat \<Rightarrow> reply list \<Rightarrow> int list result" where
  "ints_of cl what k [] = Ok []"
| "ints_of cl what k (m # ms) =
     and_also (vk_wrap (what k) (cl_AsInt64 cl m)) (\<lambda>n.
       and_also (ints_of cl what (k + 1) ms) (\<lambda>ns. Ok (n # ns)))"

definition status_of_int :: "int \<Rightarrow> status" where
  "status_of_int n = (if n = 1 then StatusQueued else if n = 2 then StatusActive else StatusUnknown)"

definition parseSnapshot :: "client \<Rightarrow> reply result \<Rightarrow> string \<Rightarrow> snapshot result" where
  "parseSnapshot cl res what =
     and_also (array_of cl what 4 res) (\<lambda>arr.
       and_also (ints_of cl (\<lambda>i. what @ '' field '' @ itoa (int i)) 0 arr) (\<lambda>vals.
         Ok \<lparr>sn_Status = status_of_int (vals ! 0), sn_Position = vals ! 1,
             sn_QueueLength = vals ! 2, sn_ActiveCount = vals ! 3\<rparr>))"

section \<open>The operations\<close>

definition vk_TryAdmit ::
  "'v redis \<Rightarrow> client \<Rightarrow> vk_store \<Rightarrow> delivery \<Rightarrow> string \<Rightarrow> int \<Rightarrow> time \<Rightarrow> 'v \<Rightarrow> bool result \<times> 'v" where
  "vk_TryAdmit rc cl s d i cap now v =
     (let (res, v) = deliver d (tryAdmitScript rc (k_active s) (k_admitted s) (k_order s) i cap (unix_milli now)) v
      in (map_res (\<lambda>n. n = 1) (vk_wrap ''TryAdmit'' (reply_as (cl_AsInt64 cl) res)), v))"

definition vk_Enqueue ::
  "'v redis \<Rightarrow> client \<Rightarrow> vk_store \<Rightarrow> delivery \<Rightarrow> string \<Rightarrow> time \<Rightarrow> 'v \<Rightarrow> snapshot result \<times> 'v" where
  "vk_Enqueue rc cl s d i now v =
     (let (res, v) = deliver d (enqueueScript rc (k_order s) (k_seen s) (k_active s) (k_seq s) (k_enqueued s)
                       i (unix_milli now)) v
      in (parseSnapshot cl res ''Enqueue'', v))"

definition vk_Lookup ::
  "'v redis \<Rightarrow> client \<Rightarrow> vk_store \<Rightarrow> delivery \<Rightarrow> string \<Rightarrow> time \<Rightarrow> 'v \<Rightarrow> snapshot result \<times> 'v" where
  "vk_Lookup rc cl s d i now v =
     (let (res, v) = deliver d (lookupScript rc (k_order s) (k_seen s) (k_active s) i (unix_milli now)) v
      in (parseSnapshot cl res ''Lookup'', v))"

definition vk_Touch ::
  "'v redis \<Rightarrow> client \<Rightarrow> vk_store \<Rightarrow> delivery \<Rightarrow> string \<Rightarrow> time \<Rightarrow> 'v \<Rightarrow> bool result \<times> 'v" where
  "vk_Touch rc cl s d i now v =
     (let (res, v) = deliver d (touchScript rc (k_active s) i (unix_milli now)) v
      in (map_res (\<lambda>n. n = 1) (vk_wrap ''Touch'' (reply_as (cl_AsInt64 cl) res)), v))"

definition reconcile_fields :: "client \<Rightarrow> reply list \<Rightarrow> reconcile_result result" where
  "reconcile_fields cl arr =
     and_also (ints_of cl (\<lambda>i. ''Reconcile field '' @ itoa (int i)) 0 (take 3 arr)) (\<lambda>counts.
       and_also (vk_wrap ''Reconcile waits'' (cl_ToArray cl (arr ! 3))) (\<lambda>waited.
         and_also (ints_of cl (\<lambda>_. ''Reconcile wait value'') 0 waited) (\<lambda>ms.
           Ok \<lparr>rr_Promoted = counts ! 0, rr_Expired = counts ! 1, rr_Evicted = counts ! 2,
               rr_WaitedSecs = map (\<lambda>n. f_div (f_of_int n) 1000) ms\<rparr>)))"

definition vk_Reconcile ::
  "'v redis \<Rightarrow> client \<Rightarrow> vk_store \<Rightarrow> delivery \<Rightarrow> int \<Rightarrow> dur \<Rightarrow> dur \<Rightarrow> time \<Rightarrow> 'v \<Rightarrow>
     reconcile_result result \<times> 'v" where
  "vk_Reconcile rc cl s d cap activeTTL queueTTL now v =
     (let (res, v) = deliver d (reconcileScript rc (k_active s) (k_admitted s) (k_order s) (k_seen s)
                       (k_avg s) (k_enqueued s) cap (milliseconds activeTTL) (milliseconds queueTTL)
                       (unix_milli now)) v
      in (and_also (array_of cl ''Reconcile'' 4 res) (reconcile_fields cl), v))"

definition vk_Stats :: "'v redis \<Rightarrow> client \<Rightarrow> vk_store \<Rightarrow> delivery \<Rightarrow> 'v \<Rightarrow> stats result \<times> 'v" where
  "vk_Stats rc cl s d v =
     (let (res, v) = deliver d (statsScript rc (k_order s) (k_active s) (k_avg s)) v
      in (and_also (array_of cl ''Stats'' 3 res) (\<lambda>arr.
            and_also (vk_wrap ''Stats queue length'' (cl_AsInt64 cl (arr ! 0))) (\<lambda>qlen.
              and_also (vk_wrap ''Stats active count'' (cl_AsInt64 cl (arr ! 1))) (\<lambda>act.
                Ok \<lparr>st_QueueLength = qlen, st_ActiveCount = act,
                    st_AvgSessionSecs =
                      (case cl_ToString cl (arr ! 2) of
                         Ok avgStr \<Rightarrow> if avgStr \<noteq> []
                           then (case cl_ParseFloat cl avgStr of Some avg \<Rightarrow> avg | None \<Rightarrow> 0) else 0
                       | _ \<Rightarrow> 0)\<rparr>))), v))"

definition vk_Flush :: "'v redis \<Rightarrow> client \<Rightarrow> vk_store \<Rightarrow> delivery \<Rightarrow> 'v \<Rightarrow> int result \<times> 'v" where
  "vk_Flush rc cl s d v =
     (let (res, v) = deliver d (flushScript rc (k_order s) (k_seen s) (k_enqueued s)) v
      in (vk_wrap ''Flush'' (reply_as (cl_AsInt64 cl) res), v))"

text \<open>The plain commands: \<open>.Error()\<close> of a reply is nil, or its error.\<close>

definition reply_error :: "client \<Rightarrow> reply result \<Rightarrow> unit result" where
  "reply_error cl out = reply_as (\<lambda>r. case cl_Error cl r of None \<Rightarrow> Ok () | Some e \<Rightarrow> Err e) out"

definition vk_SetCapacity ::
  "'v redis \<Rightarrow> client \<Rightarrow> vk_store \<Rightarrow> delivery \<Rightarrow> int \<Rightarrow> 'v \<Rightarrow> unit result \<times> 'v" where
  "vk_SetCapacity rc cl s d cap v =
     (let (res, v) = deliver d (\<lambda>v. (Ok (RStr ''OK''), r_SET rc (k_capacityKey s) (itoa cap) v)) v
      in (vk_wrap ''SetCapacity'' (reply_error cl res), v))"

definition atoi_error :: "(string \<Rightarrow> string) \<Rightarrow> string \<Rightarrow> num_error \<Rightarrow> error" where
  "atoi_error quote w e = ''strconv.Atoi: parsing '' @ quote w @ '': '' @
     (case e of ErrSyntax \<Rightarrow> ''invalid syntax'' | ErrRange \<Rightarrow> ''value out of range'')"

definition vk_GetCapacity ::
  "'v redis \<Rightarrow> client \<Rightarrow> (string \<Rightarrow> string) \<Rightarrow> vk_store \<Rightarrow> delivery \<Rightarrow> 'v \<Rightarrow> (int \<times> bool) result \<times> 'v" where
  "vk_GetCapacity rc cl quote s d v =
     (let (res, v) = deliver d (\<lambda>v. (Ok (case r_GET rc (k_capacityKey s) v of Some w \<Rightarrow> RStr w | None \<Rightarrow> RNil), v)) v
      in (case reply_as (cl_ToString cl) res of
            Err e \<Rightarrow> if e = cl_nil cl then Ok (0, False) else Err (''valkey GetCapacity: '' @ e)
          | Panic \<Rightarrow> Panic
          | Ok w \<Rightarrow>
              (case ParseInt 10 w of
                 Inl e \<Rightarrow> Err (''valkey GetCapacity: bad value '' @ quote w @ '': '' @ atoi_error quote w e)
               | Inr n \<Rightarrow> Ok (n, True)), v))"

definition vk_TryLock ::
  "'v redis \<Rightarrow> client \<Rightarrow> vk_store \<Rightarrow> delivery \<Rightarrow> string \<Rightarrow> dur \<Rightarrow> 'v \<Rightarrow> bool result \<times> 'v" where
  "vk_TryLock rc cl s d name ttl v =
     (let (res, v) = deliver d (r_SETNX rc (k_lockPrefix s @ name) ''1'' (milliseconds ttl)) v
      in (case reply_error cl res of
            Err e \<Rightarrow> if e = cl_nil cl then Ok False else Err (''valkey TryLock: '' @ e)
          | Panic \<Rightarrow> Panic
          | Ok _ \<Rightarrow> Ok True, v))"

text \<open>\<open>*Store\<close> as a \<open>store.Store\<close>: every call meets its own fate on the network.\<close>

definition valkey_ops ::
  "'v redis \<Rightarrow> client \<Rightarrow> (string \<Rightarrow> string) \<Rightarrow> vk_store \<Rightarrow> delivery \<Rightarrow> 'v store_ops" where
  "valkey_ops rc cl quote s d = \<lparr>op_TryAdmit = vk_TryAdmit rc cl s d, op_Enqueue = vk_Enqueue rc cl s d,
     op_Lookup = vk_Lookup rc cl s d, op_Touch = vk_Touch rc cl s d, op_Reconcile = vk_Reconcile rc cl s d,
     op_Stats = vk_Stats rc cl s d, op_SetCapacity = vk_SetCapacity rc cl s d,
     op_GetCapacity = vk_GetCapacity rc cl quote s d, op_Flush = vk_Flush rc cl s d\<rparr>"

lemma valkey_ops_sel [simp]:
  "op_TryAdmit (valkey_ops rc cl quote s d) = vk_TryAdmit rc cl s d"
  "op_Enqueue (valkey_ops rc cl quote s d) = vk_Enqueue rc cl s d"
  "op_Lookup (valkey_ops rc cl quote s d) = vk_Lookup rc cl s d"
  "op_Touch (valkey_ops rc cl quote s d) = vk_Touch rc cl s d"
  "op_Reconcile (valkey_ops rc cl quote s d) = vk_Reconcile rc cl s d"
  "op_Stats (valkey_ops rc cl quote s d) = vk_Stats rc cl s d"
  "op_SetCapacity (valkey_ops rc cl quote s d) = vk_SetCapacity rc cl s d"
  "op_GetCapacity (valkey_ops rc cl quote s d) = vk_GetCapacity rc cl quote s d"
  "op_Flush (valkey_ops rc cl quote s d) = vk_Flush rc cl s d"
  by (simp_all add: valkey_ops_def)

definition valkey_locker :: "'v redis \<Rightarrow> client \<Rightarrow> vk_store \<Rightarrow> delivery \<Rightarrow> 'v locker_ops" where
  "valkey_locker rc cl s d = \<lparr>lk_TryLock = vk_TryLock rc cl s d\<rparr>"

end
