(* ===== verification/ValkeyData.thy ===== *)
theory ValkeyData
  imports ValkeyStore RoomProps
begin

text \<open>
  What the store of \<^verbatim>\<open>valkeystore.go\<close> keeps on the server, taken out of it: the three sorted sets, the
  two hashes and the two numbers under the store's keys, the invariant that ties them together, and
  the room they stand for. The lemmas say what the elementary updates of the scripts do to the room.
\<close>

section \<open>The data and the room it stands for\<close>

record vk_data =
  d_order :: zset
  d_seen :: zset
  d_active :: zset
  d_admitted :: "string \<rightharpoonup> int"
  d_enqueued :: "string \<rightharpoonup> int"
  d_seq :: "string option"
  d_capacity :: "string option"

definition members_of :: "zset \<Rightarrow> string set" where
  "members_of z = fst ` set z"

definition digits_value :: "string \<Rightarrow> nat" where
  "digits_value s = foldl (\<lambda>n c. n * 10 + (of_char c - 48)) 0 s"

definition text_int :: "string \<Rightarrow> int" where
  "text_int s = (if s \<noteq> [] \<and> hd s = CHR ''-'' then - int (digits_value (tl s)) else int (digits_value s))"

definition seq_value :: "vk_data \<Rightarrow> int" where
  "seq_value d = (case d_seq d of None \<Rightarrow> 0 | Some s \<Rightarrow> text_int s)"

definition get0 :: "int option \<Rightarrow> int" where
  "get0 x = (case x of None \<Rightarrow> 0 | Some t \<Rightarrow> t)"

definition vk_waiter :: "zset \<Rightarrow> (string \<rightharpoonup> int) \<Rightarrow> string \<Rightarrow> waiter" where
  "vk_waiter seen enq i = \<lparr>w_id = i, w_enqueued = get0 (enq i), w_seen = get0 (map_of seen i)\<rparr>"

definition vk_sessions :: "zset \<Rightarrow> (string \<rightharpoonup> int) \<Rightarrow> string \<rightharpoonup> session" where
  "vk_sessions act adm i = map_option (\<lambda>t. \<lparr>s_admitted = get0 (adm i), s_seen = t\<rparr>) (map_of act i)"

definition data_room :: "vk_data \<Rightarrow> room" where
  "data_room d = \<lparr>waiting = map (vk_waiter (d_seen d) (d_enqueued d)) (map fst (d_order d)),
     sessions = vk_sessions (d_active d) (d_admitted d), override = map_option text_int (d_capacity d)\<rparr>"

text \<open>
  The queue and the heartbeats name the same ids, nobody is both queued and active, and no queued
  score exceeds the counter, so the next one comes last. Scores are exact below \<open>2 ^ 53\<close>.
\<close>

definition data_inv :: "vk_data \<Rightarrow> bool" where
  "data_inv d \<longleftrightarrow>
     zset_ok (d_order d) \<and> zset_ok (d_seen d) \<and> zset_ok (d_active d) \<and>
     members_of (d_seen d) = members_of (d_order d) \<and>
     members_of (d_order d) \<inter> members_of (d_active d) = {} \<and>
     (\<forall>i \<in> members_of (d_order d). d_enqueued d i \<noteq> None) \<and>
     (\<forall>i \<in> members_of (d_active d). d_admitted d i \<noteq> None) \<and>
     (d_seq d = None \<or> d_seq d = Some (itoa (seq_value d))) \<and>
     0 \<le> seq_value d \<and> seq_value d < 2 ^ 53 \<and> (\<forall>p \<in> set (d_order d). snd p \<le> seq_value d) \<and>
     (\<forall>s. d_capacity d = Some s \<longrightarrow> s = itoa (text_int s))"

definition data_budget :: "vk_data \<Rightarrow> nat" where
  "data_budget d = nat (2 ^ 53 - 1 - seq_value d)"

definition empty_data :: vk_data where
  "empty_data = \<lparr>d_order = [], d_seen = [], d_active = [], d_admitted = Map.empty,
     d_enqueued = Map.empty, d_seq = None, d_capacity = None\<rparr>"

section \<open>Numbers as text\<close>

lemma digits_value_itoa_nat: "foldl (\<lambda>n c. n * 10 + (of_char c - 48)) 0 (itoa_nat n) = n"
proof (induction n rule: itoa_nat.induct)
  case (1 n)
  show ?case
  proof (cases "n < 10")
    case True
    then show ?thesis by (subst itoa_nat.simps) simp
  next
    case False
    with "1.IH" show ?thesis by (subst itoa_nat.simps) simp
  qed
qed

lemma text_int_itoa [simp]: "text_int (itoa n) = n"
proof (cases "n < 0")
  case False
  moreover have "hd (itoa_nat (nat n)) \<noteq> CHR ''-''"
    using itoa_nat_hd [of "nat n"] by (auto simp: sign_char_def)
  ultimately show ?thesis
    by (simp add: text_int_def itoa_def digits_value_def digits_value_itoa_nat)
qed (simp add: text_int_def itoa_def digits_value_def digits_value_itoa_nat)

text \<open>Whatever \<open>strconv.Atoi\<close> reads is what the text says.\<close>

lemma uint_digits_value:
  "uint_digits False 10 n s = Inr k \<Longrightarrow> k = foldl (\<lambda>n c. n * 10 + (of_char c - 48)) n s"
proof (induction s arbitrary: n)
  case (Cons c s)
  have "d = of_char c - 48" if "digit_value c = Some d" "d < 10" for d
    using that by (auto simp: digit_value_def lower_code_def split: if_splits)
  with Cons show ?case by (auto split: option.splits if_splits)
qed simp

lemma ParseInt_text_int:
  assumes "ParseInt 10 (itoa m) = Inr n"
  shows "n = m"
proof (cases "m < 0")
  case True
  then obtain un where "uint_digits False 10 0 (itoa_nat (nat (- m))) = Inr un" "n = - int un"
    using assms by (auto simp: ParseInt_def itoa_def strip_sign_def sign_char_def parse_uint_def
        split: sum.splits if_splits)
  with uint_digits_value [OF this(1)] True show ?thesis by (simp add: digits_value_itoa_nat)
next
  case False
  then have "hd (itoa_nat (nat m)) \<noteq> CHR ''-''"
    using itoa_nat_hd [of "nat m"] by (auto simp: sign_char_def)
  then obtain un where "uint_digits False 10 0 (itoa_nat (nat m)) = Inr un" "n = int un"
    using assms False by (auto simp: ParseInt_def itoa_def strip_sign_digits parse_uint_def
        split: sum.splits if_splits)
  with uint_digits_value [OF this(1)] False show ?thesis by (simp add: digits_value_itoa_nat)
qed

section \<open>Reading the data\<close>

lemma get0_Some [simp]: "get0 (Some t) = t"
  by (simp add: get0_def)

lemma data_room_sel [simp]:
  "waiting (data_room d) = map (vk_waiter (d_seen d) (d_enqueued d)) (map fst (d_order d))"
  "sessions (data_room d) = vk_sessions (d_active d) (d_admitted d)"
  "override (data_room d) = map_option text_int (d_capacity d)"
  by (simp_all add: data_room_def)

lemma w_id_vk_waiter [simp]: "w_id (vk_waiter seen enq i) = i"
  by (simp add: vk_waiter_def)

lemma ids_data_room: "ids (waiting (data_room d)) = map fst (d_order d)"
  by (simp add: ids_def comp_def)

lemma data_invD:
  assumes "data_inv d"
  shows "zset_ok (d_order d)" "zset_ok (d_seen d)" "zset_ok (d_active d)"
    "members_of (d_seen d) = members_of (d_order d)"
    "members_of (d_order d) \<inter> members_of (d_active d) = {}"
    "i \<in> members_of (d_order d) \<Longrightarrow> d_enqueued d i \<noteq> None"
    "i \<in> members_of (d_active d) \<Longrightarrow> d_admitted d i \<noteq> None"
    "d_seq d = None \<or> d_seq d = Some (itoa (seq_value d))"
    "0 \<le> seq_value d" "seq_value d < 2 ^ 53" "p \<in> set (d_order d) \<Longrightarrow> snd p \<le> seq_value d"
    "d_capacity d = Some s \<Longrightarrow> s = itoa (text_int s)"
  using assms by (simp_all add: data_inv_def)

lemma map_of_members: "map_of z i \<noteq> None \<longleftrightarrow> i \<in> members_of z"
  by (simp add: members_of_def map_of_eq_None_iff)

lemma map_of_not_member: "map_of z i = None \<longleftrightarrow> i \<notin> members_of z"
  by (simp add: members_of_def map_of_eq_None_iff)

lemma members_of_simps [simp]:
  "members_of [] = {}" "members_of (p # z) = insert (fst p) (members_of z)"
  "members_of (z @ z') = members_of z \<union> members_of z'"
  "members_of (zinsert s m z) = insert m (members_of z)"
  "members_of (zremove m z) = members_of z - {m}"
  by (auto simp: members_of_def zinsert_members zremove_members)

lemma queued_data: "queued (data_room d) i \<longleftrightarrow> i \<in> members_of (d_order d)"
  unfolding queued_def ids_data_room by (simp add: members_of_def)

lemma dom_vk_sessions [simp]: "dom (vk_sessions act adm) = members_of act"
proof -
  have "dom (vk_sessions act adm) = dom (map_of act)" by (simp add: vk_sessions_def dom_def)
  then show ?thesis by (simp add: members_of_def dom_map_of_fst)
qed

lemma is_active_data: "is_active (data_room d) i \<longleftrightarrow> i \<in> members_of (d_active d)"
  using dom_vk_sessions [of "d_active d" "d_admitted d"] by (auto simp: is_active_def dom_def)

lemma length_members: "zset_ok z \<Longrightarrow> int (length z) = int (card (members_of z))"
  by (simp add: members_of_def length_card)

lemma active_count_data: "data_inv d \<Longrightarrow> active_count (data_room d) = int (length (d_active d))"
  by (simp add: active_count_def length_members data_invD(3))

lemma data_room_inv: "data_inv d \<Longrightarrow> room_inv (data_room d)"
  using data_invD(1,5) [of d]
  by (simp add: room_inv_def ids_data_room members_of_def zset_ok_def del: data_room_sel(1))

lemma zrank_position:
  "zrank i z = (if i \<in> members_of z then Some (int (length (takeWhile (\<lambda>m. m \<noteq> i) (map fst z)))) else None)"
  by (induction z) auto

lemma zrank_data:
  "zrank i (d_order d) =
     (if queued (data_room d) i then Some (int (position (waiting (data_room d)) i) - 1) else None)"
  unfolding queued_data zrank_position position_def
  by (simp add: takeWhile_map comp_def)

lemma empty_data_inv: "data_inv empty_data" and data_room_empty: "data_room empty_data = empty_room"
  by (simp_all add: data_inv_def empty_data_def zset_ok_def seq_value_def data_room_def
      empty_room_def vk_sessions_def fun_eq_iff)

section \<open>The elementary updates\<close>

lemma seq_value_simps [simp]:
  "seq_value (d\<lparr>d_order := z\<rparr>) = seq_value d" "seq_value (d\<lparr>d_seen := z\<rparr>) = seq_value d"
  "seq_value (d\<lparr>d_active := z\<rparr>) = seq_value d" "seq_value (d\<lparr>d_admitted := h\<rparr>) = seq_value d"
  "seq_value (d\<lparr>d_enqueued := h\<rparr>) = seq_value d" "seq_value (d\<lparr>d_capacity := x\<rparr>) = seq_value d"
  "seq_value (d\<lparr>d_seq := Some (itoa n)\<rparr>) = n"
  by (simp_all add: seq_value_def)

definition data_touch :: "string \<Rightarrow> int \<Rightarrow> vk_data \<Rightarrow> vk_data" where
  "data_touch i t d = d\<lparr>d_active := zinsert t i (d_active d)\<rparr>"

lemma vk_sessions_insert:
  "vk_sessions (zinsert t i act) adm = (vk_sessions act adm)(i \<mapsto> \<lparr>s_admitted = get0 (adm i), s_seen = t\<rparr>)"
  by (simp add: vk_sessions_def map_of_zinsert fun_eq_iff)

lemma vk_sessions_hash: "i \<notin> members_of act \<Longrightarrow> vk_sessions act (adm(i := x)) = vk_sessions act adm"
  using map_of_not_member [of act i] by (auto simp: vk_sessions_def fun_eq_iff)

lemma vk_sessions_delete: "vk_sessions (zremove i act) (adm(i := x)) = (vk_sessions act adm)(i := None)"
  by (auto simp: vk_sessions_def map_of_zremove fun_eq_iff)

lemma vk_waiters_other:
  assumes "i \<notin> set is"
  shows "map (vk_waiter (zinsert t i seen) enq) is = map (vk_waiter seen enq) is"
    "map (vk_waiter (zremove i seen) enq) is = map (vk_waiter seen enq) is"
    "map (vk_waiter seen (enq(i := x))) is = map (vk_waiter seen enq) is"
  using assms by (auto simp: vk_waiter_def map_of_zinsert map_of_zremove)

lemma data_touch_refines:
  assumes "data_inv d" "i \<in> members_of (d_active d)"
  shows "data_inv (data_touch i t d)"
    "data_room (data_touch i t d) = (data_room d)\<lparr>sessions := refresh_session i t (sessions (data_room d))\<rparr>"
    "seq_value (data_touch i t d) = seq_value d"
proof -
  show "data_inv (data_touch i t d)"
    using assms by (auto simp: data_touch_def data_inv_def zinsert_ok insert_absorb)
  obtain u where "map_of (d_active d) i = Some u" using assms(2) map_of_members by fastforce
  then have "vk_sessions (d_active d) (d_admitted d) i = Some \<lparr>s_admitted = get0 (d_admitted d i), s_seen = u\<rparr>"
    by (simp add: vk_sessions_def)
  then show "data_room (data_touch i t d) = (data_room d)\<lparr>sessions := refresh_session i t (sessions (data_room d))\<rparr>"
    by (simp add: data_touch_def data_room_def vk_sessions_insert refresh_session_def)
qed (simp add: data_touch_def)

definition data_admit :: "string \<Rightarrow> int \<Rightarrow> vk_data \<Rightarrow> vk_data" where
  "data_admit i t d = d\<lparr>d_active := zinsert t i (d_active d), d_admitted := (d_admitted d)(i \<mapsto> t)\<rparr>"

lemma data_admit_refines:
  assumes "data_inv d" "i \<notin> members_of (d_order d)" "i \<notin> members_of (d_active d)"
  shows "data_inv (data_admit i t d)"
    "data_room (data_admit i t d) = (data_room d)\<lparr>sessions := (sessions (data_room d))(i \<mapsto> new_session t)\<rparr>"
    "seq_value (data_admit i t d) = seq_value d"
  using assms
  by (auto simp: data_admit_def data_inv_def zinsert_ok data_room_def vk_sessions_insert vk_sessions_hash new_session_def)

definition data_refresh :: "string \<Rightarrow> int \<Rightarrow> vk_data \<Rightarrow> vk_data" where
  "data_refresh i t d = d\<lparr>d_seen := zinsert t i (d_seen d)\<rparr>"

lemma data_refresh_refines:
  assumes "data_inv d" "i \<in> members_of (d_order d)"
  shows "data_inv (data_refresh i t d)"
    "data_room (data_refresh i t d) = (data_room d)\<lparr>waiting := refresh_waiter i t (waiting (data_room d))\<rparr>"
    "seq_value (data_refresh i t d) = seq_value d"
proof -
  show "data_inv (data_refresh i t d)"
    using assms by (auto simp: data_refresh_def data_inv_def zinsert_ok insert_absorb)
  show "data_room (data_refresh i t d) = (data_room d)\<lparr>waiting := refresh_waiter i t (waiting (data_room d))\<rparr>"
    by (simp add: data_refresh_def data_room_def refresh_waiter_def vk_waiter_def map_of_zinsert)
qed (simp add: data_refresh_def)

definition data_enqueue :: "string \<Rightarrow> int \<Rightarrow> vk_data \<Rightarrow> vk_data" where
  "data_enqueue i t d =
     d\<lparr>d_seq := Some (itoa (seq_value d + 1)), d_order := zinsert (seq_value d + 1) i (d_order d),
       d_enqueued := (d_enqueued d)(i \<mapsto> t), d_seen := zinsert t i (d_seen d)\<rparr>"

lemma data_enqueue_refines:
  assumes "data_inv d" "i \<notin> members_of (d_order d)" "i \<notin> members_of (d_active d)" "0 < data_budget d"
  shows "data_inv (data_enqueue i t d)"
    "data_room (data_enqueue i t d) = (data_room d)\<lparr>waiting := waiting (data_room d) @
        [\<lparr>w_id = i, w_enqueued = t, w_seen = t\<rparr>]\<rparr>"
    "seq_value (data_enqueue i t d) = seq_value d + 1"
proof -
  have last: "zinsert (seq_value d + 1) i (d_order d) = d_order d @ [(i, seq_value d + 1)]"
  proof (rule zinsert_last)
    show "i \<notin> fst ` set (d_order d)" using assms(2) by (simp add: members_of_def)
    show "\<forall>q \<in> set (d_order d). snd q < seq_value d + 1"
      using data_invD(11) [OF assms(1)] zle_add1_eq_le by blast
  qed
  have i: "i \<notin> set (map fst (d_order d))" using assms(2) by (simp add: members_of_def)
  have "zset_ok (zinsert (seq_value d + 1) i (d_order d))" by (rule zinsert_ok [OF data_invD(1) [OF assms(1)]])
  then have ok: "zset_ok (d_order d @ [(i, seq_value d + 1)])" by (simp add: last)
  have b: "seq_value d + 1 < 2 ^ 53" using assms(4) by (simp add: data_budget_def)
  show "data_inv (data_enqueue i t d)"
    using assms(1-3) ok b unfolding data_inv_def data_enqueue_def last
    by (auto simp: zinsert_ok intro: order_trans)
  show "data_room (data_enqueue i t d) = (data_room d)\<lparr>waiting := waiting (data_room d) @
        [\<lparr>w_id = i, w_enqueued = t, w_seen = t\<rparr>]\<rparr>"
    using vk_waiters_other [OF i]
    by (simp add: data_enqueue_def data_room_def last) (simp add: vk_waiter_def map_of_zinsert)
  show "seq_value (data_enqueue i t d) = seq_value d + 1" by (simp add: data_enqueue_def seq_value_def)
qed

definition data_expire :: "string \<Rightarrow> vk_data \<Rightarrow> vk_data" where
  "data_expire i d = d\<lparr>d_active := zremove i (d_active d), d_admitted := (d_admitted d)(i := None)\<rparr>"

lemma data_expire_refines:
  assumes "data_inv d"
  shows "data_inv (data_expire i d)"
    "data_room (data_expire i d) = (data_room d)\<lparr>sessions := (sessions (data_room d))(i := None)\<rparr>"
    "seq_value (data_expire i d) = seq_value d"
  using assms
  by (auto simp: data_expire_def data_inv_def zremove_ok data_room_def vk_sessions_delete)

definition data_evict :: "string \<Rightarrow> vk_data \<Rightarrow> vk_data" where
  "data_evict i d = d\<lparr>d_order := zremove i (d_order d), d_seen := zremove i (d_seen d),
     d_enqueued := (d_enqueued d)(i := None)\<rparr>"

lemma map_fst_zremove: "map fst (zremove i z) = filter (\<lambda>m. m \<noteq> i) (map fst z)"
  by (simp add: zremove_def filter_map comp_def)

lemma set_zremove: "p \<in> set (zremove i z) \<Longrightarrow> p \<in> set z"
  by (simp add: zremove_def)

lemma data_evict_refines:
  assumes "data_inv d"
  shows "data_inv (data_evict i d)"
    "data_room (data_evict i d) = (data_room d)\<lparr>waiting := filter (\<lambda>w. w_id w \<noteq> i) (waiting (data_room d))\<rparr>"
    "seq_value (data_evict i d) = seq_value d"
proof -
  show "data_inv (data_evict i d)"
    using assms by (auto simp: data_evict_def data_inv_def zremove_ok dest: set_zremove)
  have "i \<notin> set (filter (\<lambda>m. m \<noteq> i) (map fst (d_order d)))" by simp
  from vk_waiters_other [OF this]
  show "data_room (data_evict i d) = (data_room d)\<lparr>waiting := filter (\<lambda>w. w_id w \<noteq> i) (waiting (data_room d))\<rparr>"
    by (simp add: data_evict_def data_room_def map_fst_zremove) (simp add: filter_map comp_def)
qed (simp add: data_evict_def)

definition data_pop :: "string \<Rightarrow> int \<Rightarrow> vk_data \<Rightarrow> vk_data" where
  "data_pop i t d = data_admit i t (d\<lparr>d_order := tl (d_order d), d_seen := zremove i (d_seen d),
     d_enqueued := (d_enqueued d)(i := None)\<rparr>)"

lemma data_pop_refines:
  assumes "data_inv d" "d_order d = (i, x) # rest"
  shows "data_inv (data_pop i t d)"
    "data_room (data_pop i t d) = (data_room d)\<lparr>waiting := tl (waiting (data_room d)),
       sessions := (sessions (data_room d))(i \<mapsto> new_session t)\<rparr>"
    "seq_value (data_pop i t d) = seq_value d"
    "d_order (data_pop i t d) = rest"
proof -
  let ?d = "d\<lparr>d_order := tl (d_order d), d_seen := zremove i (d_seen d), d_enqueued := (d_enqueued d)(i := None)\<rparr>"
  have i: "i \<notin> members_of rest" "zset_ok rest" "i \<notin> members_of (d_active d)"
    using data_invD(1,5) [OF assms(1)] by (auto simp: assms(2) zset_ok_Cons members_of_def)
  have inv: "data_inv ?d"
    using assms(1) i by (auto simp: data_inv_def assms(2) zremove_ok)
  have "data_room ?d = (data_room d)\<lparr>waiting := tl (waiting (data_room d))\<rparr>"
    using vk_waiters_other [of i "map fst rest"] i(1) by (simp add: data_room_def assms(2) members_of_def)
  with data_admit_refines [OF inv, of i t] i
  show "data_inv (data_pop i t d)"
    "data_room (data_pop i t d) = (data_room d)\<lparr>waiting := tl (waiting (data_room d)),
       sessions := (sessions (data_room d))(i \<mapsto> new_session t)\<rparr>"
    by (simp_all add: data_pop_def assms(2))
qed (simp_all add: data_pop_def data_admit_def assms(2))

definition data_flush :: "vk_data \<Rightarrow> vk_data" where
  "data_flush d = d\<lparr>d_order := [], d_seen := [], d_enqueued := Map.empty\<rparr>"

lemma data_flush_refines:
  assumes "data_inv d"
  shows "data_inv (data_flush d)" "data_room (data_flush d) = (data_room d)\<lparr>waiting := []\<rparr>"
    "seq_value (data_flush d) = seq_value d"
  using assms by (simp_all add: data_flush_def data_inv_def data_room_def zset_ok_def)

lemma data_capacity_refines:
  assumes "data_inv d"
  shows "data_inv (d\<lparr>d_capacity := Some (itoa n)\<rparr>)"
    "data_room (d\<lparr>d_capacity := Some (itoa n)\<rparr>) = (data_room d)\<lparr>override := Some n\<rparr>"
  using assms by (simp_all add: data_inv_def data_room_def)

section \<open>What the range commands select\<close>

definition below :: "int \<Rightarrow> zset \<Rightarrow> string list" where
  "below x z = map fst (filter (\<lambda>p. snd p < x) z)"

lemma below_distinct: "zset_ok z \<Longrightarrow> distinct (below x z)"
  by (simp add: below_def zset_ok_def distinct_map_filter)

lemma below_members: "set (below x z) \<subseteq> members_of z"
  by (auto simp: below_def members_of_def)

lemma below_iff: "zset_ok z \<Longrightarrow> i \<in> set (below x z) \<longleftrightarrow> (\<exists>u. map_of z i = Some u \<and> u < x)"
  by (force simp: below_def zset_ok_def map_of_eq_Some_iff image_iff)

lemma fold_expire_refines:
  assumes "data_inv d"
  shows "data_inv (fold data_expire is d) \<and> seq_value (fold data_expire is d) = seq_value d \<and>
    data_room (fold data_expire is d) =
      (data_room d)\<lparr>sessions := (\<lambda>i. if i \<in> set is then None else sessions (data_room d) i)\<rparr>"
  using assms
proof (induction "is" arbitrary: d)
  case (Cons i "is")
  note e = data_expire_refines [OF Cons.prems, of i]
  from Cons.IH [OF e(1)] show ?case
    unfolding e(2,3) by (simp add: fun_eq_iff cong: if_cong del: data_room_sel)
qed simp

lemma fold_evict_refines:
  assumes "data_inv d"
  shows "data_inv (fold data_evict is d) \<and> seq_value (fold data_evict is d) = seq_value d \<and>
    d_active (fold data_evict is d) = d_active d \<and>
    data_room (fold data_evict is d) =
      (data_room d)\<lparr>waiting := filter (\<lambda>w. w_id w \<notin> set is) (waiting (data_room d))\<rparr>"
  using assms
proof (induction "is" arbitrary: d)
  case (Cons i "is")
  note e = data_evict_refines [OF Cons.prems, of i]
  have "d_active (data_evict i d) = d_active d" by (simp add: data_evict_def)
  moreover have "filter (\<lambda>w. w_id w \<notin> set is) (filter (\<lambda>w. w_id w \<noteq> i) ws) =
      filter (\<lambda>w. w_id w \<notin> set (i # is)) ws" for ws
    by (auto intro: filter_cong)
  ultimately show ?case using Cons.IH [OF e(1)] unfolding e(2,3) by (simp del: data_room_sel)
qed simp

text \<open>The sessions and waiters they select are the idle ones, and as many as the room counts.\<close>

lemma length_without:
  assumes "distinct (ids ws)" "distinct is" "set is \<subseteq> set (ids ws)"
  shows "length (filter (\<lambda>w. w_id w \<notin> set is) ws) + length is = length ws"
proof -
  have "map w_id (filter (\<lambda>w. w_id w \<in> set is) ws) = filter (\<lambda>i. i \<in> set is) (ids ws)"
    by (simp add: ids_def filter_map comp_def)
  then have "length (filter (\<lambda>w. w_id w \<in> set is) ws) = length (filter (\<lambda>i. i \<in> set is) (ids ws))"
    by (metis length_map)
  also have "\<dots> = card (set is)"
    using assms(1,3) by (simp add: distinct_length_filter Int_absorb2)
  also have "\<dots> = length is" using assms(2) by (rule distinct_card)
  finally show ?thesis using sum_length_filter_compl [of "\<lambda>w. w_id w \<in> set is" ws] by simp
qed

lemma expired_sessions:
  fixes x :: int
  assumes "data_inv d"
  defines "ex \<equiv> below x (d_active d)" and "ss \<equiv> sessions (data_room d)"
  defines "alive \<equiv> \<lambda>i. if i \<in> set ex then None else ss i"
  shows "alive = (\<lambda>i. case ss i of None \<Rightarrow> None | Some v \<Rightarrow> if s_seen v < x then None else Some v)"
    and "length ex = card (dom ss - dom alive)"
proof -
  note ok = data_invD(3) [OF assms(1)]
  have ex: "i \<in> set ex \<longleftrightarrow> (\<exists>v. ss i = Some v \<and> s_seen v < x)" for i
    unfolding ex_def below_iff [OF ok] by (auto simp: ss_def vk_sessions_def)
  then show "alive = (\<lambda>i. case ss i of None \<Rightarrow> None | Some v \<Rightarrow> if s_seen v < x then None else Some v)"
    by (auto simp: alive_def fun_eq_iff split: option.splits)
  have "dom ss - dom alive = set ex" using ex by (auto simp: alive_def dom_def split: if_splits)
  then show "length ex = card (dom ss - dom alive)"
    using distinct_card [OF below_distinct [OF ok, of x]] by (simp add: ex_def)
qed

lemma evicted_waiters:
  fixes x :: int
  assumes "data_inv d"
  defines "gh \<equiv> below x (d_seen d)" and "ws \<equiv> waiting (data_room d)"
  defines "rest \<equiv> filter (\<lambda>w. w_id w \<notin> set gh) ws"
  shows "rest = filter (\<lambda>w. \<not> w_seen w < x) ws" and "length gh = length ws - length rest"
proof -
  note ok = data_invD(2) [OF assms(1)]
  have "w_id w \<in> set gh \<longleftrightarrow> w_seen w < x" if "w \<in> set ws" for w
  proof -
    have "w \<in> vk_waiter (d_seen d) (d_enqueued d) ` members_of (d_order d)"
      using that by (simp add: ws_def members_of_def image_image)
    then obtain i where i: "w = vk_waiter (d_seen d) (d_enqueued d) i" "i \<in> members_of (d_order d)" by blast
    then obtain u where "map_of (d_seen d) i = Some u"
      using data_invD(4) [OF assms(1)] map_of_members [of "d_seen d" i] by auto
    with i(1) show ?thesis unfolding gh_def below_iff [OF ok] by (simp add: vk_waiter_def)
  qed
  then show "rest = filter (\<lambda>w. \<not> w_seen w < x) ws" by (auto simp: rest_def intro: filter_cong)
  have "distinct (ids ws)" "set gh \<subseteq> set (ids ws)"
    using data_invD(1,4) [OF assms(1)] below_members [of x "d_seen d"]
    unfolding ws_def ids_data_room gh_def by (simp_all add: zset_ok_def members_of_def)
  from length_without [OF this(1) below_distinct [OF ok, of x, folded gh_def] this(2)]
  show "length gh = length ws - length rest" by (simp add: rest_def)
qed

end
