(* ===== verification/ValkeyRefine.thy ===== *)
theory ValkeyRefine
  imports ValkeyData StoreContract
begin

text \<open>
  The store of \<^verbatim>\<open>valkeystore.go\<close>, on every server that behaves as documented, does what the abstract
  room does: first the scripts on the data, then the methods over a network that may lose requests
  and replies, and last the contract \<open>room_store\<close> and, where nothing is lost, \<open>reliable_store\<close>.
\<close>

section \<open>The view of the server\<close>

definition vk_data_of ::
  "('v \<Rightarrow> string \<Rightarrow> zset) \<Rightarrow> ('v \<Rightarrow> string \<Rightarrow> string \<rightharpoonup> int) \<Rightarrow> ('v \<Rightarrow> string \<Rightarrow> string option) \<Rightarrow>
     vk_store \<Rightarrow> 'v \<Rightarrow> vk_data" where
  "vk_data_of zs hs st s v = \<lparr>d_order = zs v (k_order s), d_seen = zs v (k_seen s),
     d_active = zs v (k_active s), d_admitted = hs v (k_admitted s), d_enqueued = hs v (k_enqueued s),
     d_seq = st v (k_seq s), d_capacity = st v (k_capacityKey s)\<rparr>"

definition valkey_clocking :: clocking where
  "valkey_clocking = \<lparr>ck_stamp = unix_milli, ck_idle = (\<lambda>ttl t seen. seen < t - milliseconds ttl),
     ck_secs = (\<lambda>t u. f_div (f_of_int (t - u)) 1000), ck_enqueue_touches = False, ck_carries = in_s64\<rparr>"

lemma valkey_clocking_simps [simp]:
  "ck_stamp valkey_clocking = unix_milli"
  "ck_idle valkey_clocking ttl t seen \<longleftrightarrow> seen < t - milliseconds ttl"
  "ck_secs valkey_clocking t u = f_div (f_of_int (t - u)) 1000"
  "\<not> ck_enqueue_touches valkey_clocking" "ck_carries valkey_clocking = in_s64"
  by (simp_all add: valkey_clocking_def)

text \<open>A network error is not the client's nil error.\<close>

definition honest :: "client \<Rightarrow> delivery \<Rightarrow> bool" where
  "honest cl d \<longleftrightarrow> (case d of Delivered \<Rightarrow> True | LostRequest e \<Rightarrow> e \<noteq> cl_nil cl | LostReply e \<Rightarrow> e \<noteq> cl_nil cl)"

locale valkey_replicas = valkey_server rc cl zs hs st
  for rc :: "'v redis" and cl :: client and zs :: "'v \<Rightarrow> string \<Rightarrow> zset"
    and hs :: "'v \<Rightarrow> string \<Rightarrow> string \<rightharpoonup> int" and st :: "'v \<Rightarrow> string \<Rightarrow> string option" +
  fixes quote :: "string \<Rightarrow> string" and pfx :: string
begin

abbreviation ks :: vk_store where
  "ks \<equiv> NewWithClient pfx"

abbreviation data :: "'v \<Rightarrow> vk_data" where
  "data v \<equiv> vk_data_of zs hs st ks v"

lemma data_sel:
  "d_order (data v) = zs v (k_order ks)" "d_seen (data v) = zs v (k_seen ks)" "d_active (data v) = zs v (k_active ks)"
  "d_admitted (data v) = hs v (k_admitted ks)" "d_enqueued (data v) = hs v (k_enqueued ks)"
  "d_seq (data v) = st v (k_seq ks)" "d_capacity (data v) = st v (k_capacityKey ks)"
  by (simp_all add: vk_data_of_def)

lemma read_data [simp]:
  "r_ZSCORE rc (k_active ks) i v = map_of (d_active (data v)) i"
  "r_ZCARD rc (k_active ks) v = int (length (d_active (data v)))"
  "r_ZCARD rc (k_order ks) v = int (length (d_order (data v)))"
  "r_ZRANK rc (k_order ks) i v = zrank i (d_order (data v))"
  "r_ZBELOW rc (k_active ks) x v = map fst (filter (\<lambda>p. snd p < x) (d_active (data v)))"
  "r_ZBELOW rc (k_seen ks) x v = map fst (filter (\<lambda>p. snd p < x) (d_seen (data v)))"
  "r_HGET rc (k_admitted ks) i v = d_admitted (data v) i"
  "r_HGET rc (k_enqueued ks) i v = d_enqueued (data v) i"
  "r_GET rc (k_capacityKey ks) v = d_capacity (data v)"
  by (simp_all add: data_sel ZSCORE ZCARD ZRANK ZBELOW HGET GET)

lemma write_data [simp]:
  "data (r_ZADD rc (k_active ks) t i v) = data_touch i t (data v)"
  "data (r_ZADD rc (k_order ks) t i v) = (data v)\<lparr>d_order := zinsert t i (d_order (data v))\<rparr>"
  "data (r_ZADD rc (k_seen ks) t i v) = data_refresh i t (data v)"
  "data (r_ZREM rc (k_active ks) i v) = (data v)\<lparr>d_active := zremove i (d_active (data v))\<rparr>"
  "data (r_ZREM rc (k_order ks) i v) = (data v)\<lparr>d_order := zremove i (d_order (data v))\<rparr>"
  "data (r_ZREM rc (k_seen ks) i v) = (data v)\<lparr>d_seen := zremove i (d_seen (data v))\<rparr>"
  "data (r_HSET rc (k_admitted ks) i x v) = (data v)\<lparr>d_admitted := (d_admitted (data v))(i \<mapsto> x)\<rparr>"
  "data (r_HSET rc (k_enqueued ks) i x v) = (data v)\<lparr>d_enqueued := (d_enqueued (data v))(i \<mapsto> x)\<rparr>"
  "data (r_HDEL rc (k_admitted ks) i v) = (data v)\<lparr>d_admitted := (d_admitted (data v))(i := None)\<rparr>"
  "data (r_HDEL rc (k_enqueued ks) i v) = (data v)\<lparr>d_enqueued := (d_enqueued (data v))(i := None)\<rparr>"
  "data (r_SET rc (k_avg ks) w v) = data v"
  "data (r_SET rc (k_capacityKey ks) w v) = (data v)\<lparr>d_capacity := Some w\<rparr>"
  "data (snd (r_ZPOPMIN rc (k_order ks) v)) = (data v)\<lparr>d_order := tl (d_order (data v))\<rparr>"
  "data (r_DEL rc [k_order ks, k_seen ks, k_enqueued ks] v) = data_flush (data v)"
  by (simp_all add: NewWithClient_def vk_data_of_def data_flush_def data_touch_def data_refresh_def ZADD ZREM HSET HDEL SET ZPOPMIN DEL)

section \<open>The scripts\<close>

text \<open>A script replies \<open>r\<close>, leaves the room \<open>rm\<close>, and has used ticket numbers up to \<open>n\<close>.\<close>

definition does :: "reply result \<times> 'v \<Rightarrow> reply \<Rightarrow> room \<Rightarrow> int \<Rightarrow> bool" where
  "does out r rm n \<longleftrightarrow> fst out = Ok r \<and> data_inv (data (snd out)) \<and> data_room (data (snd out)) = rm \<and>
     seq_value (data (snd out)) = n"

lemma admit_data [simp]:
  "(data_touch i t d)\<lparr>d_admitted := (d_admitted (data_touch i t d))(i \<mapsto> t)\<rparr> = data_admit i t d"
  by (simp add: data_touch_def data_admit_def)

lemma active_member: "map_of (d_active (data v)) i \<noteq> None \<longleftrightarrow> is_active (data_room (data v)) i"
  by (simp add: is_active_data map_of_members del: not_None_eq)

definition flag :: "bool \<Rightarrow> reply" where
  "flag b = RInt (if b then 1 else 0)"

lemma tryAdmit_script:
  fixes i :: string and cap t :: int
  assumes "data_inv (data v)"
  defines "spec \<equiv> room_TryAdmit i cap t (data_room (data v))"
  shows "does (tryAdmitScript rc (k_active ks) (k_admitted ks) (k_order ks) i cap t v)
    (flag (fst spec)) (snd spec) (seq_value (data v))"
proof (cases "is_active (data_room (data v)) i")
  case True
  with data_touch_refines [OF assms(1), of i t] active_member [of v i] show ?thesis
    by (simp add: spec_def room_TryAdmit_def tryAdmitScript_def does_def flag_def is_active_data)
next
  case False
  then have i: "i \<notin> members_of (d_active (data v))" "map_of (d_active (data v)) i = None"
    using active_member [of v i] by (simp_all add: is_active_data)
  show ?thesis
  proof (cases "d_order (data v) = []")
    case True
    then have "i \<notin> members_of (d_order (data v))" by simp
    with data_admit_refines [OF assms(1) _ i(1), of t] True False i(2) assms(1) show ?thesis
      by (simp add: spec_def room_TryAdmit_def tryAdmitScript_def does_def flag_def active_count_data)
  qed (use False i(2) assms(1) in \<open>simp add: spec_def room_TryAdmit_def tryAdmitScript_def does_def
      flag_def active_count_data\<close>)
qed

lemma touch_script:
  fixes i :: string and t :: int
  assumes "data_inv (data v)"
  defines "spec \<equiv> room_Touch i t (data_room (data v))"
  shows "does (touchScript rc (k_active ks) i t v) (flag (fst spec)) (snd spec) (seq_value (data v))"
proof (cases "is_active (data_room (data v)) i")
  case True
  with data_touch_refines [OF assms(1), of i t] active_member [of v i] show ?thesis
    by (simp add: spec_def room_Touch_def touchScript_def does_def flag_def is_active_data)
next
  case False
  then have "refresh_session i t (sessions (data_room (data v))) = sessions (data_room (data v))"
    by (simp add: refresh_session_absent is_active_def del: data_room_sel)
  with False active_member [of v i] assms(1) show ?thesis
    by (simp add: spec_def room_Touch_def touchScript_def does_def flag_def del: data_room_sel)
qed

text \<open>The replies that describe a snapshot.\<close>

definition snap_reply :: "snapshot \<Rightarrow> reply" where
  "snap_reply sn = RArr [RInt (case sn_Status sn of StatusUnknown \<Rightarrow> 0 | StatusQueued \<Rightarrow> 1 | StatusActive \<Rightarrow> 2),
     RInt (sn_Position sn), RInt (sn_QueueLength sn), RInt (sn_ActiveCount sn)]"

lemma snap_reply_room:
  "data_inv d \<Longrightarrow> snap_reply (room_snapshot (data_room d) i) =
     RArr (if is_active (data_room d) i then [RInt 2, RInt 0, RInt (int (length (d_order d))), RInt (int (length (d_active d)))]
      else if queued (data_room d) i then [RInt 1, RInt (int (position (waiting (data_room d)) i)),
          RInt (int (length (d_order d))), RInt (int (length (d_active d)))]
      else [RInt 0, RInt 0, RInt (int (length (d_order d))), RInt (int (length (d_active d)))])"
  by (simp add: snap_reply_def room_snapshot_def room_status_def active_count_data)

lemma lookup_script:
  fixes i :: string and t :: int
  assumes "data_inv (data v)"
  defines "spec \<equiv> room_Lookup i t (data_room (data v))"
  shows "does (lookupScript rc (k_order ks) (k_seen ks) (k_active ks) i t v) (snap_reply (fst spec)) (snd spec)
    (seq_value (data v))"
proof -
  have inv: "room_inv (data_room (data v))" by (rule data_room_inv [OF assms(1)])
  note simps = spec_def room_Lookup_def lookupScript_def does_def snap_reply_room [OF assms(1)] Let_def zrank_data
  consider "is_active (data_room (data v)) i" "\<not> queued (data_room (data v)) i"
    | "\<not> is_active (data_room (data v)) i" "queued (data_room (data v)) i"
    | "\<not> is_active (data_room (data v)) i" "\<not> queued (data_room (data v)) i"
    using inv unfolding room_inv_def queued_def is_active_def by blast
  then show ?thesis
  proof cases
    case 1
    then have "refresh_waiter i t (waiting (data_room (data v))) = waiting (data_room (data v))"
      by (simp add: refresh_waiter_absent queued_def del: data_room_sel)
    with 1 data_touch_refines [OF assms(1), of i t] active_member [of v i] show ?thesis
      by (simp add: simps is_active_data del: data_room_sel)
  next
    case 2
    then have "refresh_session i t (sessions (data_room (data v))) = sessions (data_room (data v))"
      by (simp add: refresh_session_absent is_active_def del: data_room_sel)
    with 2 data_refresh_refines [OF assms(1), of i t] active_member [of v i] show ?thesis
      by (simp add: simps queued_data del: data_room_sel)
  next
    case 3
    then have "refresh_session i t (sessions (data_room (data v))) = sessions (data_room (data v))"
      "refresh_waiter i t (waiting (data_room (data v))) = waiting (data_room (data v))"
      by (simp_all add: refresh_session_absent refresh_waiter_absent is_active_def queued_def del: data_room_sel)
    with 3 assms(1) active_member [of v i] show ?thesis by (simp add: simps del: data_room_sel)
  qed
qed

lemma flush_script:
  assumes "data_inv (data v)"
  defines "spec \<equiv> room_Flush (data_room (data v))"
  shows "does (flushScript rc (k_order ks) (k_seen ks) (k_enqueued ks) v) (RInt (fst spec)) (snd spec) (seq_value (data v))"
  using data_flush_refines [OF assms(1)] by (simp add: spec_def room_Flush_def flushScript_def does_def Let_def)

lemma INCR_data:
  assumes "data_inv (data v)"
  shows "fst (r_INCR rc (k_seq ks) v) = seq_value (data v) + 1"
    "data (snd (r_INCR rc (k_seq ks) v)) = (data v)\<lparr>d_seq := Some (itoa (seq_value (data v) + 1))\<rparr>"
proof -
  note d = data_invD(8-10) [OF assms]
  have "st v (k_seq ks) = None \<and> seq_value (data v) = 0 \<or> st v (k_seq ks) = Some (itoa (seq_value (data v)))"
    using d(1) by (auto simp: data_sel seq_value_def)
  with d(2,3) INCR(1) [of v "k_seq ks" "seq_value (data v)"] INCR(2,3) [of "k_seq ks" v]
  show "fst (r_INCR rc (k_seq ks) v) = seq_value (data v) + 1"
    "data (snd (r_INCR rc (k_seq ks) v)) = (data v)\<lparr>d_seq := Some (itoa (seq_value (data v) + 1))\<rparr>"
    by (simp_all add: vk_data_of_def) (simp_all add: NewWithClient_def)
qed

lemma enqueue_script:
  fixes i :: string and t :: int
  assumes "data_inv (data v)" "0 < data_budget (data v)"
  defines "spec \<equiv> room_Enqueue valkey_clocking i t (data_room (data v))"
  shows "does (enqueueScript rc (k_order ks) (k_seen ks) (k_active ks) (k_seq ks) (k_enqueued ks) i t v)
    (snap_reply (fst spec)) (snd spec)
    (if is_active (data_room (data v)) i \<or> queued (data_room (data v)) i then seq_value (data v) else seq_value (data v) + 1)"
proof -
  have inv: "room_inv (data_room (data v))" by (rule data_room_inv [OF assms(1)])
  consider "is_active (data_room (data v)) i"
    | "\<not> is_active (data_room (data v)) i" "queued (data_room (data v)) i"
    | "\<not> is_active (data_room (data v)) i" "\<not> queued (data_room (data v)) i" by blast
  then show ?thesis
  proof cases
    case 1
    with active_member [of v i] assms(1) show ?thesis
      by (simp add: spec_def room_Enqueue_def enqueueScript_def does_def snap_reply_room Let_def del: data_room_sel)
  next
    case 2
    note r = data_refresh_refines [OF assms(1) 2(2) [unfolded queued_data], of t]
    have [simp]: "d_order (data_refresh i t (data v)) = d_order (data v)"
      "d_active (data_refresh i t (data v)) = d_active (data v)" by (simp_all add: data_refresh_def)
    have st: "is_active (data_room (data_refresh i t (data v))) i = is_active (data_room (data v)) i"
      "queued (data_room (data_refresh i t (data v))) i = queued (data_room (data v)) i"
      "position (waiting (data_room (data_refresh i t (data v)))) i = position (waiting (data_room (data v))) i"
      unfolding r(2) by (simp_all add: is_active_def queued_def)
    have "snap_reply (fst spec) = snap_reply (room_snapshot (data_room (data_refresh i t (data v))) i)"
      "snd spec = data_room (data_refresh i t (data v))"
      using 2 by (simp_all add: spec_def room_Enqueue_def r(2) Let_def del: data_room_sel)
    with 2 r active_member [of v i] st snap_reply_room [OF r(1), of i] show ?thesis
      by (simp add: enqueueScript_def does_def zrank_data Let_def del: data_room_sel)
  next
    case 3
    let ?d = "data_enqueue i t (data v)"
    note i = 3 [unfolded is_active_data queued_data]
    note r = data_enqueue_refines [OF assms(1) i(2,1) assms(2), of t]
    obtain k v1 where k: "r_INCR rc (k_seq ks) v = (k, v1)" by fastforce
    with INCR_data [OF assms(1)] have v1: "k = seq_value (data v) + 1"
      "data v1 = (data v)\<lparr>d_seq := Some (itoa (seq_value (data v) + 1))\<rparr>" by simp_all
    let ?v2 = "r_HSET rc (k_enqueued ks) i t (r_ZADD rc (k_order ks) k i v1)"
    have ord: "d_order (data ?v2) = d_order ?d" by (simp add: v1 data_enqueue_def)
    have v3: "data (r_ZADD rc (k_seen ks) t i ?v2) = ?d" by (simp add: v1 data_enqueue_def data_refresh_def)
    have st: "\<not> is_active (data_room ?d) i" "queued (data_room ?d) i"
      using 3 unfolding r(2) by (simp_all add: is_active_def queued_def)
    have spec: "spec = (room_snapshot (data_room ?d) i, data_room ?d)"
      using 3 unfolding r(2) by (simp add: spec_def room_Enqueue_def Let_def)
    have z: "zrank i (d_order ?d) = Some (int (position (waiting (data_room ?d)) i) - 1)"
      using st by (simp add: zrank_data del: data_room_sel)
    have q: "zrank i (d_order (data v)) = None" using 3 by (simp add: zrank_data del: data_room_sel)
    show ?thesis
      using 3 r(1,3) active_member [of v i] st snap_reply_room [OF r(1), of i]
      by (simp add: enqueueScript_def does_def q k spec z Let_def ord v3 del: data_room_sel write_data)
  qed
qed

section \<open>The reconcile script\<close>

lemma script_expire_data:
  assumes "distinct is" "set is \<subseteq> members_of (d_active (data v))"
  shows "fst (script_expire rc (k_active ks) (k_admitted ks) (k_avg ks) is v) = Ok () \<and>
    data (snd (script_expire rc (k_active ks) (k_admitted ks) (k_avg ks) is v)) = fold data_expire is (data v)"
  using assms
proof (induction "is" arbitrary: v)
  case (Cons i "is")
  obtain t where t: "map_of (d_active (data v)) i = Some t"
    using Cons.prems(2) map_of_members [of "d_active (data v)" i] by auto
  let ?v = "\<lambda>w. r_HDEL rc (k_admitted ks) i (r_ZREM rc (k_active ks) i (r_SET rc (k_avg ks) w v))"
  have d: "data (?v w) = data_expire i (data v)" for w
    by (simp add: data_expire_def)
  have "set is \<subseteq> members_of (d_active (data (?v w)))" for w
    using Cons.prems by (auto simp: data_expire_def)
  note IH = Cons.IH [OF _ this, unfolded d]
  show ?case using IH Cons.prems(1) t by (simp add: Let_def)
qed simp

lemma script_evict_data:
  "data (script_evict rc (k_order ks) (k_seen ks) (k_enqueued ks) is v) = fold data_evict is (data v)"
proof (induction "is" arbitrary: v)
  case (Cons i "is")
  have "data (r_HDEL rc (k_enqueued ks) i (r_ZREM rc (k_seen ks) i (r_ZREM rc (k_order ks) i v))) = data_evict i (data v)"
    by (simp add: data_evict_def)
  with Cons.IH show ?case by simp
qed simp

text \<open>The loop ends, after as many rounds as there are heads for free slots.\<close>

lemma script_promote_data:
  fixes cap t :: int and v :: 'v and n :: int and ws :: "int list"
  assumes "data_inv (data v)" and "k = min (nat (cap - int (length (d_active (data v))))) (length (d_order (data v)))"
  shows "\<exists>v'. script_promote rc (k_active ks) (k_admitted ks) (k_order ks) (k_seen ks) (k_enqueued ks) cap t n ws v =
      Some (n + int k, ws @ map (\<lambda>w. t - w_enqueued w) (take k (waiting (data_room (data v)))), v') \<and>
    data_inv (data v') \<and> seq_value (data v') = seq_value (data v) \<and>
    data_room (data v') = (data_room (data v))\<lparr>waiting := drop k (waiting (data_room (data v))),
      sessions := room_admit t (take k (waiting (data_room (data v)))) (sessions (data_room (data v)))\<rparr>"
  using assms
proof (induction "length (d_order (data v))" arbitrary: v n ws k)
  case 0
  have "fst (r_ZPOPMIN rc (k_order ks) v) = None"
    using "0.hyps" ZPOPMIN(1) [of "k_order ks" v] by (simp add: data_sel)
  moreover have same: "(data v)\<lparr>d_order := []\<rparr> = data v"
    by (rule vk_data.equality) (use "0.hyps" in simp_all)
  have "data_inv ((data v)\<lparr>d_order := []\<rparr>) = data_inv (data v)"
    "data_room ((data v)\<lparr>d_order := []\<rparr>) = data_room (data v)"
    by (simp_all only: same)
  ultimately show ?case
    using 0 by (auto simp: script_promote.simps [of rc _ _ _ _ _ cap t n ws v] split_beta split: option.splits)
next
  case (Suc m)
  then obtain i x rest where ord: "d_order (data v) = (i, x) # rest"
    by (metis length_Suc_conv surj_pair)
  show ?case
  proof (cases "int (length (d_active (data v))) < cap")
    case False
    then show ?thesis using Suc.prems(1) by (auto simp: script_promote.simps [of rc _ _ _ _ _ cap t n ws v] Suc.prems(2))
  next
    case True
    obtain v1 where v1: "r_ZPOPMIN rc (k_order ks) v = (Some i, v1)"
      using ZPOPMIN(1) [of "k_order ks" v] ord by (metis data_sel(1) list.simps(5) fst_conv prod.collapse)
    then have d1: "data v1 = (data v)\<lparr>d_order := tl (d_order (data v))\<rparr>" using write_data(13) [of v] by simp
    define v2 where "v2 = r_HSET rc (k_admitted ks) i t (r_ZADD rc (k_active ks) t i
      (r_HDEL rc (k_enqueued ks) i (r_ZREM rc (k_seen ks) i v1)))"
    note p = data_pop_refines [OF Suc.prems(1) ord, of t]
    have d2: "data v2 = data_pop i t (data v)"
      by (simp add: v2_def d1 data_pop_def)
    have enq: "d_enqueued (data v) i \<noteq> None"
      using data_invD(6) [OF Suc.prems(1), of i] ord by simp
    let ?k = "min (nat (cap - int (length (d_active (data v2))))) (length (d_order (data v2)))"
    have len: "length (d_active (data v2)) = Suc (length (d_active (data v)))"
    proof -
      have "i \<notin> members_of (d_active (data v))" using data_invD(5) [OF Suc.prems(1)] ord by auto
      then show ?thesis
        by (simp add: d2 data_pop_def data_admit_def zinsert_def zremove_absent members_of_def)
    qed
    have k: "k = Suc ?k"
      using True by (simp add: Suc.prems(2) d2 p(4) ord len [unfolded d2])
    have step: "script_promote rc (k_active ks) (k_admitted ks) (k_order ks) (k_seen ks) (k_enqueued ks) cap t n ws v =
        script_promote rc (k_active ks) (k_admitted ks) (k_order ks) (k_seen ks) (k_enqueued ks) cap t (n + 1)
          (ws @ [t - w_enqueued (hd (waiting (data_room (data v))))]) v2"
      using True v1 enq d1
      by (subst script_promote.simps) (auto simp: v2_def Let_def ord vk_waiter_def split: option.splits)
    have "m = length (d_order (data v2))" using Suc.hyps(2) by (simp add: d2 p(4) ord)
    from Suc.hyps(1) [OF this, where n = "n + 1" and ws = "ws @ [t - w_enqueued (hd (waiting (data_room (data v))))]"] p(1)
    obtain v' where v': "script_promote rc (k_active ks) (k_admitted ks) (k_order ks) (k_seen ks) (k_enqueued ks) cap t n ws v =
      Some (n + 1 + int ?k, (ws @ [t - w_enqueued (hd (waiting (data_room (data v))))]) @
        map (\<lambda>w. t - w_enqueued w) (take ?k (waiting (data_room (data v2)))), v')"
      "data_inv (data v')" "seq_value (data v') = seq_value (data v2)"
      "data_room (data v') = (data_room (data v2))\<lparr>waiting := drop ?k (waiting (data_room (data v2))),
        sessions := room_admit t (take ?k (waiting (data_room (data v2)))) (sessions (data_room (data v2)))\<rparr>"
      unfolding step d2 by blast
    obtain w line where w: "waiting (data_room (data v)) = w # line" "w_id w = i"
      using ord by simp
    have "waiting (data_room (data v2)) = line"
      "sessions (data_room (data v2)) = (sessions (data_room (data v)))(i \<mapsto> new_session t)"
      "override (data_room (data v2)) = override (data_room (data v))"
      unfolding d2 p(2) by (simp_all add: w del: data_room_sel)
    with v' w p(3) show ?thesis unfolding k by (simp add: d2 del: data_room_sel)
  qed
qed

lemma below_reads:
  "r_ZBELOW rc (k_active ks) x v = below x (d_active (data v))"
  "r_ZBELOW rc (k_seen ks) x v = below x (d_seen (data v))"
  by (simp_all add: below_def)

definition reconcile_reply :: "int \<Rightarrow> int \<Rightarrow> int \<Rightarrow> int list \<Rightarrow> reply" where
  "reconcile_reply promoted expired evicted waits =
     RArr [RInt promoted, RInt expired, RInt evicted, RArr (map RInt waits)]"

lemma reconcile_script:
  fixes cap aTTL qTTL t :: int
  assumes "data_inv (data v)"
  defines "spec \<equiv> room_Reconcile valkey_clocking cap aTTL qTTL t (data_room (data v))"
  shows "\<exists>ws. does (reconcileScript rc (k_active ks) (k_admitted ks) (k_order ks) (k_seen ks) (k_avg ks)
      (k_enqueued ks) cap (milliseconds aTTL) (milliseconds qTTL) t v)
      (reconcile_reply (rr_Promoted (fst spec)) (rr_Expired (fst spec)) (rr_Evicted (fst spec)) ws)
      (snd spec) (seq_value (data v)) \<and>
    map (\<lambda>n. f_div (f_of_int n) 1000) ws = rr_WaitedSecs (fst spec)"
proof -
  let ?r = "data_room (data v)"
  define ex where "ex = below (t - milliseconds aTTL) (d_active (data v))"
  obtain v1 where v1: "script_expire rc (k_active ks) (k_admitted ks) (k_avg ks) ex v = (Ok (), v1)"
    "data v1 = fold data_expire ex (data v)"
    using script_expire_data [of ex v] below_distinct [OF data_invD(3) [OF assms(1)]] below_members
    by (metis ex_def prod.collapse)
  note e = fold_expire_refines [OF assms(1), of ex, folded v1(2)]
  note ses = expired_sessions [OF assms(1), of "t - milliseconds aTTL", folded ex_def]
  have kept: "sessions (data_room (data v1)) = kept valkey_clocking aTTL t ?r"
    unfolding kept_def room_expire_def valkey_clocking_simps using e ses(1) by (simp del: data_room_sel)
  define gh where "gh = below (t - milliseconds qTTL) (d_seen (data v1))"
  define v2 where "v2 = script_evict rc (k_order ks) (k_seen ks) (k_enqueued ks) gh v1"
  have "data_inv (data v1)" using e by blast
  note g = fold_evict_refines [OF this, of gh] evicted_waiters [OF this, of "t - milliseconds qTTL", folded gh_def]
  have d2: "data v2 = fold data_evict gh (data v1)" by (simp add: v2_def script_evict_data)
  have wait1: "waiting (data_room (data v1)) = waiting ?r" using e by (simp del: data_room_sel)
  have line: "waiting (data_room (data v2)) = line valkey_clocking qTTL t ?r"
    using g wait1 by (simp add: d2 line_def room_evict_def del: data_room_sel)
  have ses2: "sessions (data_room (data v2)) = kept valkey_clocking aTTL t ?r"
    "override (data_room (data v2)) = override ?r"
    using g(1) kept e by (simp_all add: d2 del: data_room_sel)
  have inv2: "data_inv (data v2)" using g(1) by (simp add: d2)
  have "active_count (data_room (data v2)) = int (length (d_active (data v2)))" by (rule active_count_data [OF inv2])
  then have slots: "nat (cap - int (length (d_active (data v2)))) = free_slots valkey_clocking cap aTTL t ?r"
    unfolding free_slots_def active_count_def ses2 by simp
  have "length (waiting (data_room (data v2))) = length (d_order (data v2))" by simp
  then have len: "length (d_order (data v2)) = length (line valkey_clocking qTTL t ?r)" unfolding line by simp
  define k where "k = min (free_slots valkey_clocking cap aTTL t ?r) (length (line valkey_clocking qTTL t ?r))"
  have "k = min (nat (cap - int (length (d_active (data v2))))) (length (d_order (data v2)))"
    unfolding slots len k_def ..
  from script_promote_data [OF inv2 this, of t 0 "[]"] obtain v3 where v3:
    "script_promote rc (k_active ks) (k_admitted ks) (k_order ks) (k_seen ks) (k_enqueued ks) cap t 0 [] v2 =
      Some (int k, map (\<lambda>w. t - w_enqueued w) (take k (line valkey_clocking qTTL t ?r)), v3)"
    "data_inv (data v3)" "seq_value (data v3) = seq_value (data v2)"
    "data_room (data v3) = (data_room (data v2))\<lparr>waiting := drop k (line valkey_clocking qTTL t ?r),
      sessions := room_admit t (take k (line valkey_clocking qTTL t ?r)) (kept valkey_clocking aTTL t ?r)\<rparr>"
    unfolding line ses2 by auto
  note sel = room_Reconcile_sel [where ck = valkey_clocking and cap = cap and aTTL = aTTL and qTTL = qTTL
      and t = t and r = ?r, folded spec_def k_def]
  have "data_room (data v3) = snd spec"
    by (rule room.equality) (simp_all add: v3(4) sel ses2 del: data_room_sel)
  moreover have "int (length ex) = rr_Expired (fst spec)" "int (length gh) = rr_Evicted (fst spec)"
    using ses g(3) kept e wait1 line g(1) by (simp_all add: sel d2 del: data_room_sel)
  moreover have "seq_value (data v3) = seq_value (data v)" using v3(3) g(1) e by (simp add: d2)
  ultimately show ?thesis
    using v1(1) v3(1,2) sel(4,7)
    by (intro exI [of _ "map (\<lambda>w. t - w_enqueued w) (take k (line valkey_clocking qTTL t ?r))"])
      (simp add: reconcileScript_def below_reads Let_def does_def reconcile_reply_def
        flip: ex_def gh_def v2_def del: read_data(5,6))
qed

section \<open>The methods over the network\<close>

text \<open>
  A call that obeys a room operation: it succeeds with the operation's value and effect, or reports
  an error and has taken effect or not; it keeps the invariant and leaves the counter at \<open>n\<close> or below.
\<close>

abbreviation vk_view :: "'v \<Rightarrow> room" where
  "vk_view v \<equiv> data_room (data v)"

definition obeys :: "delivery \<Rightarrow> 'v \<Rightarrow> int \<Rightarrow> 'a result \<times> 'v \<Rightarrow> 'a \<times> room \<Rightarrow> bool" where
  "obeys d v n out spec \<longleftrightarrow> meets vk_view v out spec \<and> data_inv (data (snd out)) \<and>
     seq_value (data (snd out)) \<le> n \<and> (d = Delivered \<longrightarrow> is_ok (fst out))"

lemma obeysI:
  assumes "data_inv (data v)" "seq_value (data v) \<le> n" "does (f v) r (snd spec) m" "m \<le> n"
    and "acc (Ok r) = Ok (fst spec)" "\<And>e. \<exists>e'. acc (Err e) = Err e'"
  shows "obeys d v n (acc (fst (deliver d f v)), snd (deliver d f v)) spec"
proof (cases d)
  case Delivered
  with assms show ?thesis by (simp add: obeys_def meets_def does_def)
next
  case (LostRequest e)
  obtain e' where "acc (Err e) = Err e'" using assms(6) by blast
  with LostRequest assms(1,2) show ?thesis by (simp add: obeys_def meets_def)
next
  case (LostReply e)
  obtain e' where "acc (Err e) = Err e'" using assms(6) by blast
  with LostReply assms(3,4) show ?thesis by (simp add: obeys_def meets_def does_def)
qed

text \<open>What the decoders make of the replies of the scripts.\<close>

lemma wrap_err_Err: "\<exists>e'. wrap_err p (Err e) = Err e'"
  by (simp add: wrap_err_def)

lemma decode_flag:
  "map_res (\<lambda>n. n = 1) (vk_wrap op (reply_as (cl_AsInt64 cl) (Ok (flag b)))) = Ok b"
  "\<exists>e'. map_res (\<lambda>n. n = 1) (vk_wrap op (reply_as (cl_AsInt64 cl) (Err e))) = (Err e' :: bool result)"
  by (simp_all add: flag_def reply_as_def wrap_err_def AsInt64)

lemma decode_int:
  "vk_wrap op (reply_as (cl_AsInt64 cl) (Ok (RInt n))) = Ok n"
  "\<exists>e'. vk_wrap op (reply_as (cl_AsInt64 cl) (Err e)) = Err e'"
  by (simp_all add: reply_as_def wrap_err_def AsInt64)

lemma array_of_simps:
  "array_of cl op n (Ok (RArr rs)) = (if length rs \<noteq> n then Err (''valkey '' @ op @ '': %!w(<nil>)'') else Ok rs)"
  "array_of cl op n (Err e) = Err (''valkey '' @ op @ '': '' @ e)"
  by (simp_all add: array_of_def reply_as_def wrap_err_def ToArray)

lemma ints_of_RInt [simp]: "ints_of cl what k (map RInt ns) = Ok ns"
  by (induction ns arbitrary: k) (simp_all add: AsInt64 wrap_err_def and_also_def)

lemma decode_snapshot:
  "parseSnapshot cl (Ok (snap_reply sn)) op = Ok sn"
  "\<exists>e'. parseSnapshot cl (Err e) op = Err e'"
proof -
  obtain x where x: "snap_reply sn = RArr (map RInt [x, sn_Position sn, sn_QueueLength sn, sn_ActiveCount sn])"
    "status_of_int x = sn_Status sn"
    by (cases "sn_Status sn") (simp_all add: snap_reply_def status_of_int_def)
  show "parseSnapshot cl (Ok (snap_reply sn)) op = Ok sn"
    unfolding parseSnapshot_def x(1) array_of_simps by (simp add: and_also_def x(2) del: list.map)
qed (simp add: parseSnapshot_def array_of_simps and_also_def)

lemma decode_reconcile:
  "and_also (array_of cl ''Reconcile'' 4 (Ok (reconcile_reply p x g ws))) (reconcile_fields cl) =
     Ok \<lparr>rr_Promoted = p, rr_Expired = x, rr_Evicted = g, rr_WaitedSecs = map (\<lambda>n. f_div (f_of_int n) 1000) ws\<rparr>"
  "\<exists>e'. and_also (array_of cl ''Reconcile'' 4 (Err e)) (reconcile_fields cl) = Err e'"
  by (simp_all add: reconcile_reply_def array_of_simps reconcile_fields_def and_also_def wrap_err_def ToArray AsInt64)

text \<open>Each method.\<close>

lemma vk_TryAdmit_obeys:
  assumes "data_inv (data v)"
  shows "obeys d v (seq_value (data v)) (vk_TryAdmit rc cl ks d i cap now v) (room_TryAdmit i cap (unix_milli now) (vk_view v))"
  unfolding vk_TryAdmit_def split_beta Let_def
  by (rule obeysI [where acc = "\<lambda>res. map_res (\<lambda>n. n = 1) (vk_wrap ''TryAdmit'' (reply_as (cl_AsInt64 cl) res))"])
    (rule assms order_refl tryAdmit_script [OF assms] decode_flag)+

lemma vk_Touch_obeys:
  assumes "data_inv (data v)"
  shows "obeys d v (seq_value (data v)) (vk_Touch rc cl ks d i now v) (room_Touch i (unix_milli now) (vk_view v))"
  unfolding vk_Touch_def split_beta Let_def
  by (rule obeysI [where acc = "\<lambda>res. map_res (\<lambda>n. n = 1) (vk_wrap ''Touch'' (reply_as (cl_AsInt64 cl) res))"])
    (rule assms order_refl touch_script [OF assms] decode_flag)+

lemma vk_Lookup_obeys:
  assumes "data_inv (data v)"
  shows "obeys d v (seq_value (data v)) (vk_Lookup rc cl ks d i now v) (room_Lookup i (unix_milli now) (vk_view v))"
  unfolding vk_Lookup_def split_beta Let_def
  by (rule obeysI [where acc = "\<lambda>res. parseSnapshot cl res ''Lookup''"])
    (rule assms order_refl lookup_script [OF assms] decode_snapshot)+

lemma vk_Flush_obeys:
  assumes "data_inv (data v)"
  shows "obeys d v (seq_value (data v)) (vk_Flush rc cl ks d v) (room_Flush (vk_view v))"
  unfolding vk_Flush_def split_beta Let_def
  by (rule obeysI [where acc = "\<lambda>res. vk_wrap ''Flush'' (reply_as (cl_AsInt64 cl) res)"])
    (rule assms order_refl flush_script [OF assms] decode_int)+

lemma vk_Enqueue_obeys:
  assumes "data_inv (data v)" "0 < data_budget (data v)"
  shows "obeys d v (seq_value (data v) + 1) (vk_Enqueue rc cl ks d i now v)
    (room_Enqueue valkey_clocking i (unix_milli now) (vk_view v))"
  unfolding vk_Enqueue_def split_beta Let_def
  by (rule obeysI [where acc = "\<lambda>res. parseSnapshot cl res ''Enqueue''"],
      rule assms(1), simp, rule enqueue_script [OF assms], simp) (rule decode_snapshot)+

lemma vk_Reconcile_obeys:
  assumes "data_inv (data v)"
  shows "obeys d v (seq_value (data v)) (vk_Reconcile rc cl ks d cap aTTL qTTL now v)
    (room_Reconcile valkey_clocking cap aTTL qTTL (unix_milli now) (vk_view v))"
proof -
  let ?spec = "room_Reconcile valkey_clocking cap aTTL qTTL (unix_milli now) (vk_view v)"
  obtain ws where ws: "does (reconcileScript rc (k_active ks) (k_admitted ks) (k_order ks) (k_seen ks) (k_avg ks)
      (k_enqueued ks) cap (milliseconds aTTL) (milliseconds qTTL) (unix_milli now) v)
      (reconcile_reply (rr_Promoted (fst ?spec)) (rr_Expired (fst ?spec)) (rr_Evicted (fst ?spec)) ws)
      (snd ?spec) (seq_value (data v))" "map (\<lambda>n. f_div (f_of_int n) 1000) ws = rr_WaitedSecs (fst ?spec)"
    using reconcile_script [OF assms] by blast
  have dec: "and_also (array_of cl ''Reconcile'' 4 (Ok (reconcile_reply (rr_Promoted (fst ?spec))
      (rr_Expired (fst ?spec)) (rr_Evicted (fst ?spec)) ws))) (reconcile_fields cl) = Ok (fst ?spec)"
    unfolding decode_reconcile(1) ws(2) by simp
  show ?thesis
    unfolding vk_Reconcile_def split_beta Let_def
    by (rule obeysI [where acc = "\<lambda>res. and_also (array_of cl ''Reconcile'' 4 res) (reconcile_fields cl)"])
      (rule assms order_refl ws(1) dec decode_reconcile(2))+
qed

lemma vk_SetCapacity_obeys:
  assumes "data_inv (data v)"
  shows "obeys d v (seq_value (data v)) (vk_SetCapacity rc cl ks d n v) ((), (vk_view v)\<lparr>override := Some n\<rparr>)"
  unfolding vk_SetCapacity_def split_beta Let_def
proof (rule obeysI [where acc = "\<lambda>res. vk_wrap ''SetCapacity'' (reply_error cl res)"])
  show "does (Ok (RStr ''OK''), r_SET rc (k_capacityKey ks) (itoa n) v) (RStr ''OK'')
      (snd ((), (vk_view v)\<lparr>override := Some n\<rparr>)) (seq_value (data v))"
    using data_capacity_refines [OF assms, of n] by (simp add: does_def)
qed (use assms in \<open>simp_all add: reply_error_def reply_as_def wrap_err_def Error\<close>)

text \<open>The two methods that only read.\<close>

lemma deliver_read: "snd (f v) = v \<Longrightarrow> snd (deliver d f v) = v"
  by (cases d) simp_all

lemma vk_Stats_reads:
  "snd (vk_Stats rc cl ks d v) = v"
  "fst (vk_Stats rc cl ks d v) \<noteq> Panic"
  "fst (vk_Stats rc cl ks d v) = Ok x \<Longrightarrow> st_QueueLength x = int (length (d_order (data v))) \<and>
     st_ActiveCount x = int (length (d_active (data v)))"
  "d = Delivered \<Longrightarrow> is_ok (fst (vk_Stats rc cl ks d v))"
  by (cases d; auto simp: vk_Stats_def statsScript_def split_beta Let_def array_of_simps and_also_def wrap_err_def AsInt64)+

lemma vk_GetCapacity_reads:
  assumes "data_inv (data v)" "honest cl d"
  shows "snd (vk_GetCapacity rc cl quote ks d v) = v"
    "fst (vk_GetCapacity rc cl quote ks d v) \<noteq> Panic"
    "fst (vk_GetCapacity rc cl quote ks d v) = Ok (n, isset) \<Longrightarrow>
       (if isset then override (vk_view v) = Some n else override (vk_view v) = None)"
    "d = Delivered \<Longrightarrow> (\<And>n. override (vk_view v) = Some n \<Longrightarrow> in_s64 n) \<Longrightarrow>
       is_ok (fst (vk_GetCapacity rc cl quote ks d v))"
proof -
  let ?get = "\<lambda>v. (Ok (case d_capacity (data v) of Some w \<Rightarrow> RStr w | None \<Rightarrow> RNil), v)"
  note get = vk_GetCapacity_def reply_as_def split_beta Let_def
  show "snd (vk_GetCapacity rc cl quote ks d v) = v" by (simp add: get deliver_read)
  have cap: "d_capacity (data v) = Some s \<Longrightarrow> \<exists>n. s = itoa n" for s
    using data_invD(12) [OF assms(1), of s] by blast
  have parse: "n = m" if "ParseInt 10 (itoa m) = Inr n" for m n
    using that ParseInt_text_int by fastforce
  define out where "out = fst (vk_GetCapacity rc cl quote ks d v)"
  have out: "(\<exists>e. out = Err e) \<or> d_capacity (data v) = None \<and> out = Ok (0, False) \<or>
      (\<exists>m. d_capacity (data v) = Some (itoa m) \<and> out = Ok (m, True))"
  proof (cases "d = Delivered")
    case True
    then show ?thesis
    proof (cases "d_capacity (data v)")
      case (Some w)
      then obtain m where "w = itoa m" using cap by blast
      with Some True parse show ?thesis
        by (cases "ParseInt 10 w") (auto simp: out_def get ToString)
    qed (simp add: out_def get ToString)
  qed (use assms(2) in \<open>cases d; simp add: out_def get honest_def\<close>)
  then have "out \<noteq> Panic"
    "out = Ok (n, isset) \<Longrightarrow> (if isset then override (vk_view v) = Some n else override (vk_view v) = None)"
    by auto
  moreover have "is_ok out" if "d = Delivered" "\<And>n. override (vk_view v) = Some n \<Longrightarrow> in_s64 n"
  proof (cases "d_capacity (data v)")
    case (Some w)
    then obtain m where w: "w = itoa m" using cap by blast
    with Some that(2) have "in_s64 m" by simp
    with Some w that(1) ParseInt_itoa [of m 10] show ?thesis by (simp add: out_def get ToString)
  qed (use that(1) in \<open>simp add: out_def get ToString\<close>)
  ultimately show "fst (vk_GetCapacity rc cl quote ks d v) \<noteq> Panic"
    "fst (vk_GetCapacity rc cl quote ks d v) = Ok (n, isset) \<Longrightarrow>
       (if isset then override (vk_view v) = Some n else override (vk_view v) = None)"
    "d = Delivered \<Longrightarrow> (\<And>n. override (vk_view v) = Some n \<Longrightarrow> in_s64 n) \<Longrightarrow>
       is_ok (fst (vk_GetCapacity rc cl quote ks d v))"
    unfolding out_def by blast+
qed

section \<open>The contract\<close>

abbreviation vk_inv :: "'v \<Rightarrow> bool" where
  "vk_inv v \<equiv> data_inv (data v)"

abbreviation vk_budget :: "'v \<Rightarrow> nat" where
  "vk_budget v \<equiv> data_budget (data v)"

abbreviation ops :: "delivery \<Rightarrow> 'v store_ops" where
  "ops \<equiv> valkey_ops rc cl quote ks"

lemma obeysD:
  assumes "obeys d v n out spec"
  shows "meets vk_view v out spec" "vk_inv (snd out)" "seq_value (data (snd out)) \<le> n"
    "d = Delivered \<Longrightarrow> is_ok (fst out)"
  using assms by (simp_all add: obeys_def)

lemmas vk_obeys = vk_TryAdmit_obeys vk_Touch_obeys vk_Lookup_obeys vk_Flush_obeys vk_Reconcile_obeys
  vk_SetCapacity_obeys

lemma vk_exec:
  assumes "honest cl d" "vk_inv v" "0 < vk_budget v \<or> (\<forall>i now. c \<noteq> CEnqueue i now)"
  shows "vk_inv (store_exec (ops d) c v)"
    "seq_value (data (store_exec (ops d) c v)) \<le> seq_value (data v) + (case c of CEnqueue i now \<Rightarrow> 1 | _ \<Rightarrow> 0)"
  using assms obeysD(2,3) [OF vk_obeys(1) [OF assms(2)]] obeysD(2,3) [OF vk_obeys(2) [OF assms(2)]]
    obeysD(2,3) [OF vk_obeys(3) [OF assms(2)]] obeysD(2,3) [OF vk_obeys(4) [OF assms(2)]]
    obeysD(2,3) [OF vk_obeys(5) [OF assms(2)]] obeysD(2,3) [OF vk_obeys(6) [OF assms(2)]]
    obeysD(2,3) [OF vk_Enqueue_obeys [OF assms(2)]] vk_GetCapacity_reads(1) [OF assms(2,1)]
  by (cases c; simp add: vk_Stats_reads(1))+

lemma vk_room_store:
  assumes "\<And>d. legal d \<Longrightarrow> honest cl d"
  shows "room_store ops legal vk_inv vk_view valkey_clocking vk_budget"
proof
  fix d v c
  assume d: "legal d" and v: "vk_inv v"
  note h = assms [OF d]
  show "0 < vk_budget v \<Longrightarrow> vk_inv (store_exec (ops d) c v)" using vk_exec(1) [OF h v] by blast
  show "(\<And>i now. c \<noteq> CEnqueue i now) \<Longrightarrow> vk_inv (store_exec (ops d) c v)" using vk_exec(1) [OF h v] by blast
  show "vk_budget v \<le> vk_budget (store_exec (ops d) c v)" if no: "\<And>i now. c \<noteq> CEnqueue i now"
  proof -
    have "seq_value (data (store_exec (ops d) c v)) \<le> seq_value (data v)"
      using vk_exec(2) [OF h v, of c] no by (cases c) auto
    then show ?thesis by (simp add: data_budget_def)
  qed
  fix i now cap aTTL qTTL n
  show "vk_budget v \<le> vk_budget (store_exec (ops d) (CEnqueue i now) v) + 1"
  proof (cases "0 < vk_budget v")
    case True
    with vk_exec(2) [OF h v, of "CEnqueue i now"] show ?thesis by (simp add: data_budget_def)
  qed simp
  show "meets vk_view v (op_TryAdmit (ops d) i cap now v) (room_TryAdmit i cap (ck_stamp valkey_clocking now) (vk_view v))"
    "meets vk_view v (op_Lookup (ops d) i now v) (room_Lookup i (ck_stamp valkey_clocking now) (vk_view v))"
    "meets vk_view v (op_Touch (ops d) i now v) (room_Touch i (ck_stamp valkey_clocking now) (vk_view v))"
    "meets vk_view v (op_Reconcile (ops d) cap aTTL qTTL now v)
       (room_Reconcile valkey_clocking cap aTTL qTTL (ck_stamp valkey_clocking now) (vk_view v))"
    "meets vk_view v (op_SetCapacity (ops d) n v) ((), (vk_view v)\<lparr>override := Some n\<rparr>)"
    "meets vk_view v (op_Flush (ops d) v) (room_Flush (vk_view v))"
    using obeysD(1) [OF vk_obeys(1) [OF v]] obeysD(1) [OF vk_obeys(2) [OF v]] obeysD(1) [OF vk_obeys(3) [OF v]]
      obeysD(1) [OF vk_obeys(4) [OF v]] obeysD(1) [OF vk_obeys(5) [OF v]] obeysD(1) [OF vk_obeys(6) [OF v]]
    by simp_all
  show "0 < vk_budget v \<Longrightarrow> meets vk_view v (op_Enqueue (ops d) i now v)
      (room_Enqueue valkey_clocking i (ck_stamp valkey_clocking now) (vk_view v))"
    using obeysD(1) [OF vk_Enqueue_obeys [OF v]] by simp
  show "vk_view (snd (op_GetCapacity (ops d) v)) = vk_view v \<and> fst (op_GetCapacity (ops d) v) \<noteq> Panic \<and>
      (\<forall>n set. fst (op_GetCapacity (ops d) v) = Ok (n, set) \<longrightarrow>
         (if set then override (vk_view v) = Some n else override (vk_view v) = None))"
    using vk_GetCapacity_reads(1-3) [OF v h] by (simp del: data_room_sel)
  show "vk_view (snd (op_Stats (ops d) v)) = vk_view v \<and> fst (op_Stats (ops d) v) \<noteq> Panic \<and>
      (\<forall>st. fst (op_Stats (ops d) v) = Ok st \<longrightarrow> st_QueueLength st = int (length (waiting (vk_view v))) \<and>
         st_ActiveCount st = active_count (vk_view v))"
    using vk_Stats_reads(1-3) [of d v] active_count_data [OF v] by simp
qed (rule data_room_inv)

text \<open>While nothing is lost, it never fails.\<close>

lemma vk_reliable_store: "reliable_store ops (\<lambda>d. d = Delivered) vk_inv vk_view valkey_clocking vk_budget"
proof (rule reliable_store.intro [OF vk_room_store reliable_store_axioms.intro])
  show "honest cl d" if "d = Delivered" for d using that by (simp add: honest_def)
  fix d :: delivery and v :: 'v and i cap now aTTL qTTL n
  assume d: "d = Delivered" and v: "vk_inv v"
  show "is_ok (fst (op_TryAdmit (ops d) i cap now v))" "is_ok (fst (op_Lookup (ops d) i now v))"
    "is_ok (fst (op_Touch (ops d) i now v))" "is_ok (fst (op_Reconcile (ops d) cap aTTL qTTL now v))"
    "is_ok (fst (op_SetCapacity (ops d) n v))" "is_ok (fst (op_Flush (ops d) v))"
    using obeysD(4) [OF vk_obeys(1) [OF v] d] obeysD(4) [OF vk_obeys(2) [OF v] d]
      obeysD(4) [OF vk_obeys(3) [OF v] d] obeysD(4) [OF vk_obeys(4) [OF v] d]
      obeysD(4) [OF vk_obeys(5) [OF v] d] obeysD(4) [OF vk_obeys(6) [OF v] d]
    by simp_all
  show "0 < vk_budget v \<Longrightarrow> is_ok (fst (op_Enqueue (ops d) i now v))"
    using obeysD(4) [OF vk_Enqueue_obeys [OF v] d] by simp
  show "is_ok (fst (op_Stats (ops d) v))" using vk_Stats_reads(4) [OF d] by simp
  show "(\<And>n. override (vk_view v) = Some n \<Longrightarrow> ck_carries valkey_clocking n) \<Longrightarrow>
      is_ok (fst (op_GetCapacity (ops d) v))"
    using vk_GetCapacity_reads(4) [OF v _ d] d by (simp add: honest_def del: data_room_sel)
qed

end

text \<open>So the store is a room, and a reliable one over a network that loses nothing.\<close>

sublocale valkey_replicas \<subseteq> lossy: room_store ops "honest cl" vk_inv vk_view valkey_clocking vk_budget
  by (rule vk_room_store)

sublocale valkey_replicas \<subseteq> delivered: reliable_store ops "\<lambda>d. d = Delivered" vk_inv vk_view valkey_clocking vk_budget
  by (rule vk_reliable_store)

interpretation valkey_clock: lawful_clock valkey_clocking
proof
  fix ttl t t' seen seen' :: int
  have "0 \<le> milliseconds ttl" if "0 \<le> ttl" using that by (simp add: milliseconds_def sdiv_nonneg)
  then show "0 \<le> ttl \<Longrightarrow> \<not> ck_idle valkey_clocking ttl t t" by simp
  show "ck_idle valkey_clocking ttl t seen \<Longrightarrow> t \<le> t' \<Longrightarrow> seen' \<le> seen \<Longrightarrow>
      ck_idle valkey_clocking ttl t' seen'" by simp
qed

end
