(* ===== verification/ValkeyModel.thy ===== *)
theory ValkeyModel
  imports ValkeyServer
begin

text \<open>
  A server that behaves as documented, as a value: a database of sorted sets, hashes and strings with
  the commands of \<open>redis\<close>, and a client library that reads its replies. It shows that the laws of
  \<open>valkey_server\<close> are consistent, and the concrete runs in the theories on the Valkey store use it.
\<close>

section \<open>The database\<close>

typedef sset = "{z. zset_ok z}" morphisms members Sset
  by (rule exI [of _ "[]"]) (simp add: zset_ok_def)

setup_lifting type_definition_sset

lift_definition sset_empty :: sset is "[]"
  by (simp add: zset_ok_def)

lift_definition sset_add :: "int \<Rightarrow> string \<Rightarrow> sset \<Rightarrow> sset" is zinsert
  by (rule zinsert_ok)

lift_definition sset_remove :: "string \<Rightarrow> sset \<Rightarrow> sset" is zremove
  by (rule zremove_ok)

lift_definition sset_tl :: "sset \<Rightarrow> sset" is tl
proof -
  fix z :: zset
  show "zset_ok z \<Longrightarrow> zset_ok (tl z)" by (cases z) (simp_all add: zset_ok_Cons)
qed

record db =
  db_sets :: "string \<Rightarrow> sset"
  db_hashes :: "string \<Rightarrow> (string \<rightharpoonup> int)"
  db_strings :: "string \<Rightarrow> string option"

definition empty_db :: db where
  "empty_db = \<lparr>db_sets = (\<lambda>_. sset_empty), db_hashes = (\<lambda>_. Map.empty), db_strings = Map.empty\<rparr>"

definition db_zset :: "db \<Rightarrow> string \<Rightarrow> zset" where
  "db_zset v k = members (db_sets v k)"

section \<open>The commands\<close>

text \<open>Averages are written in whole seconds: how many digits survive is not part of the contract.\<close>

definition db_count :: "string \<Rightarrow> db \<Rightarrow> int" where
  "db_count k v = (case db_strings v k of
     None \<Rightarrow> 0 | Some s \<Rightarrow> (case ParseInt 10 s of Inr n \<Rightarrow> n | Inl e \<Rightarrow> 0))"

definition db_lease :: "string \<Rightarrow> string \<Rightarrow> int \<Rightarrow> db \<Rightarrow> reply result \<times> db" where
  "db_lease k w ms v =
     (if ms \<le> 0 then (Err ''invalid expire time in 'set' command'', v)
      else if db_strings v k = None
        then (Ok (RStr ''OK''), v\<lparr>db_strings := (db_strings v)(k \<mapsto> w)\<rparr>)
      else (Ok RNil, v))"

definition db_redis :: "db redis" where
  "db_redis = \<lparr>
     r_ZSCORE = (\<lambda>k m v. map_of (db_zset v k) m),
     r_ZADD = (\<lambda>k s m v. v\<lparr>db_sets := (db_sets v)(k := sset_add s m (db_sets v k))\<rparr>),
     r_ZCARD = (\<lambda>k v. int (length (db_zset v k))),
     r_ZRANK = (\<lambda>k m v. zrank m (db_zset v k)),
     r_ZREM = (\<lambda>k m v. v\<lparr>db_sets := (db_sets v)(k := sset_remove m (db_sets v k))\<rparr>),
     r_ZBELOW = (\<lambda>k x v. map fst (filter (\<lambda>p. snd p < x) (db_zset v k))),
     r_ZPOPMIN = (\<lambda>k v. (case db_zset v k of [] \<Rightarrow> None | p # _ \<Rightarrow> Some (fst p),
        v\<lparr>db_sets := (db_sets v)(k := sset_tl (db_sets v k))\<rparr>)),
     r_HSET = (\<lambda>k f x v. v\<lparr>db_hashes := (db_hashes v)(k := (db_hashes v k)(f \<mapsto> x))\<rparr>),
     r_HGET = (\<lambda>k f v. db_hashes v k f),
     r_HDEL = (\<lambda>k f v. v\<lparr>db_hashes := (db_hashes v)(k := (db_hashes v k)(f := None))\<rparr>),
     r_GET = (\<lambda>k v. db_strings v k),
     r_SET = (\<lambda>k w v. v\<lparr>db_strings := (db_strings v)(k \<mapsto> w)\<rparr>),
     r_SETNX = db_lease,
     r_INCR = (\<lambda>k v. (db_count k v + 1, v\<lparr>db_strings := (db_strings v)(k \<mapsto> itoa (db_count k v + 1))\<rparr>)),
     r_DEL = (\<lambda>ks v. \<lparr>db_sets = (\<lambda>k. if k \<in> set ks then sset_empty else db_sets v k),
        db_hashes = (\<lambda>k. if k \<in> set ks then Map.empty else db_hashes v k),
        db_strings = (\<lambda>k. if k \<in> set ks then None else db_strings v k)\<rparr>),
     r_tonumber = (\<lambda>s. case ParseInt 10 s of Inr n \<Rightarrow> Some (of_int n) | Inl e \<Rightarrow> None),
     r_tostring = (\<lambda>x. itoa (floor x))\<rparr>"

definition demo_client :: client where
  "demo_client = \<lparr>
     cl_AsInt64 = (\<lambda>r. case r of RInt n \<Rightarrow> Ok n | RNil \<Rightarrow> Err ''valkey nil message'' | _ \<Rightarrow> Err ''parse error''),
     cl_ToArray = (\<lambda>r. case r of RArr rs \<Rightarrow> Ok rs | RNil \<Rightarrow> Err ''valkey nil message'' | _ \<Rightarrow> Err ''parse error''),
     cl_ToString = (\<lambda>r. case r of RStr s \<Rightarrow> Ok s | RNil \<Rightarrow> Err ''valkey nil message'' | _ \<Rightarrow> Err ''parse error''),
     cl_Error = (\<lambda>r. case r of RNil \<Rightarrow> Some ''valkey nil message'' | _ \<Rightarrow> None),
     cl_nil = ''valkey nil message'',
     cl_ParseFloat = (\<lambda>s. case ParseInt 10 s of Inr n \<Rightarrow> Some (of_int n) | Inl e \<Rightarrow> None)\<rparr>"

lemma db_zset_simps [simp]:
  "db_zset (v\<lparr>db_sets := f\<rparr>) = (\<lambda>k. members (f k))"
  "db_zset (v\<lparr>db_hashes := h\<rparr>) = db_zset v"
  "db_zset (v\<lparr>db_strings := t\<rparr>) = db_zset v"
  "db_zset empty_db k = []"
  by (simp_all add: db_zset_def fun_eq_iff empty_db_def sset_empty.rep_eq)

lemma db_count_itoa:
  assumes "db_strings v k = None \<and> n = 0 \<or> db_strings v k = Some (itoa n)" "0 \<le> n" "n < 2 ^ 63 - 1"
  shows "db_count k v = n"
proof -
  have "in_s64 n" using assms(2,3) by (simp add: in_s64_def)
  with assms(1) ParseInt_itoa [of n 10] show ?thesis by (auto simp: db_count_def)
qed

interpretation demo_db: valkey_server db_redis demo_client db_zset db_hashes db_strings
  by unfold_locales
    (auto simp: db_redis_def demo_client_def db_lease_def db_count_itoa fun_eq_iff db_zset_def
      sset_add.rep_eq sset_remove.rep_eq sset_tl.rep_eq sset_empty.rep_eq members [simplified]
      split: list.splits)

end
