(* ===== verification/ValkeyProps.thy ===== *)
theory ValkeyProps
  imports ValkeyRefine ValkeyModel Prober
begin

text \<open>
  What the shared store of \<^verbatim>\<open>valkeystore.go\<close> guarantees, for every server and client library with the
  documented behaviour (\<open>valkey_server\<close>) and every fate of the requests on the network. The
  witnesses run it on the server of \<open>ValkeyModel\<close>.
\<close>

section \<open>Reading the server\<close>

definition vk_room ::
  "('v \<Rightarrow> string \<Rightarrow> zset) \<Rightarrow> ('v \<Rightarrow> string \<Rightarrow> string \<rightharpoonup> int) \<Rightarrow> ('v \<Rightarrow> string \<Rightarrow> string option) \<Rightarrow>
     string \<Rightarrow> 'v \<Rightarrow> room" where
  "vk_room zs hs st p v = data_room (vk_data_of zs hs st (NewWithClient p) v)"

definition vk_consistent ::
  "('v \<Rightarrow> string \<Rightarrow> zset) \<Rightarrow> ('v \<Rightarrow> string \<Rightarrow> string \<rightharpoonup> int) \<Rightarrow> ('v \<Rightarrow> string \<Rightarrow> string option) \<Rightarrow>
     string \<Rightarrow> 'v \<Rightarrow> bool" where
  "vk_consistent zs hs st p v \<longleftrightarrow> data_inv (vk_data_of zs hs st (NewWithClient p) v)"

text \<open>How many tickets can still be numbered: scores are floating-point numbers on the server.\<close>

definition vk_headroom ::
  "('v \<Rightarrow> string \<Rightarrow> zset) \<Rightarrow> ('v \<Rightarrow> string \<Rightarrow> string \<rightharpoonup> int) \<Rightarrow> ('v \<Rightarrow> string \<Rightarrow> string option) \<Rightarrow>
     string \<Rightarrow> 'v \<Rightarrow> nat" where
  "vk_headroom zs hs st p v = data_budget (vk_data_of zs hs st (NewWithClient p) v)"

text \<open>A server on which nothing is stored under the keys of the prefix.\<close>

definition vk_fresh ::
  "('v \<Rightarrow> string \<Rightarrow> zset) \<Rightarrow> ('v \<Rightarrow> string \<Rightarrow> string \<rightharpoonup> int) \<Rightarrow> ('v \<Rightarrow> string \<Rightarrow> string option) \<Rightarrow>
     string \<Rightarrow> 'v \<Rightarrow> bool" where
  "vk_fresh zs hs st p v \<longleftrightarrow> vk_data_of zs hs st (NewWithClient p) v = empty_data"

lemma fresh_room:
  assumes "vk_fresh zs hs st p v"
  shows "vk_consistent zs hs st p v" "vk_room zs hs st p v = empty_room" "vk_headroom zs hs st p v = 2 ^ 53 - 1"
  using assms empty_data_inv data_room_empty
  by (simp_all add: vk_fresh_def vk_consistent_def vk_room_def vk_headroom_def data_budget_def
      seq_value_def empty_data_def)

lemma empty_db_fresh: "vk_fresh db_zset db_hashes db_strings p empty_db"
  by (simp add: vk_fresh_def vk_data_of_def empty_data_def) (simp add: empty_db_def)

lemmas vk_reading = vk_room_def vk_consistent_def vk_headroom_def

text \<open>The facts of the locales, with the server as a hypothesis.\<close>

lemma replicas: "valkey_server rc cl zs hs st \<Longrightarrow> valkey_replicas rc cl zs hs st"
  by (rule valkey_replicas.intro)

lemmas vk_room_store = valkey_replicas.vk_room_store [OF replicas]
lemmas vk_reliable_store = valkey_replicas.vk_reliable_store [OF replicas]
lemmas vk_run_ok = reliable_store.run_ok [OF vk_reliable_store, folded vk_reading]
lemmas vk_run_capacity = room_store.run_capacity [OF vk_room_store, folded vk_reading]

lemmas vk_enqueue_budget = room_store.enqueue_budget [OF vk_room_store, folded vk_reading]
lemmas vk_run_outranks = room_store.run_outranks [OF vk_room_store, folded vk_reading]

section \<open>The shared store is a room\<close>

text \<open>
  C2: Whatever calls the replicas make, in whatever order, while the network delivers, the data on the
  server stay consistent and are the abstract waiting room after the same calls: the scripts
  implement the room. The bound is where sequence numbers stop being exact as scores.
\<close>

theorem valkey_runs_are_room_runs:
  assumes "valkey_server rc cl zs hs st" and "vk_fresh zs hs st p v"
    and "\<forall>(d, c) \<in> set cs. d = Delivered" and "length cs < 2 ^ 53"
  shows "vk_consistent zs hs st p (store_run (valkey_ops rc cl quote (NewWithClient p)) cs v) \<and>
    vk_room zs hs st p (store_run (valkey_ops rc cl quote (NewWithClient p)) cs v) =
      fold (room_exec valkey_clocking) (map snd cs) empty_room"
  using vk_run_ok [OF assms(1), of p v cs quote] fresh_room [OF assms(2)] assms(3,4) by simp

theorem valkey_runs_are_room_runs_witness:
  "vk_room db_zset db_hashes db_strings ''gowait:'' (store_run (valkey_ops db_redis demo_client id (NewWithClient ''gowait:''))
     [(Delivered, CTryAdmit ''a'' 1 0), (Delivered, CEnqueue ''b'' second),
      (Delivered, CReconcile 2 (10 * second) (20 * second) (2 * second))] empty_db) =
   fold (room_exec valkey_clocking) [CTryAdmit ''a'' 1 0, CEnqueue ''b'' second,
     CReconcile 2 (10 * second) (20 * second) (2 * second)] empty_room"
  using valkey_runs_are_room_runs [OF demo_db.valkey_server_axioms empty_db_fresh,
      of "[(Delivered, CTryAdmit ''a'' 1 0), (Delivered, CEnqueue ''b'' second),
      (Delivered, CReconcile 2 (10 * second) (20 * second) (2 * second))]" "''gowait:''" id]
  by (simp del: store_run.simps fold.simps)

text \<open>
  Whatever the network loses and however the calls of the replicas interleave, the shared store
  never holds more active sessions than the largest capacity any call was given.
\<close>

lemma valkey_never_overfills:
  assumes "valkey_server rc cl zs hs st" and "vk_consistent zs hs st p v"
    and "length cs \<le> vk_headroom zs hs st p v" and "active_count (vk_room zs hs st p v) \<le> C"
    and "\<forall>(d, c) \<in> set cs. honest cl d \<and> (\<forall>cap. call_cap c = Some cap \<longrightarrow> cap \<le> C)"
  shows "active_count (vk_room zs hs st p (store_run (valkey_ops rc cl quote (NewWithClient p)) cs v)) \<le> C"
  using assms by (intro vk_run_capacity [OF assms(1), of "honest cl"]) auto

text \<open>The ids in the line, in order, and those inside.\<close>

definition vk_line :: "('v \<Rightarrow> string \<Rightarrow> zset) \<Rightarrow> string \<Rightarrow> 'v \<Rightarrow> string list" where
  "vk_line zs p v = map fst (zs v (k_order (NewWithClient p)))"

definition vk_inside :: "('v \<Rightarrow> string \<Rightarrow> zset) \<Rightarrow> string \<Rightarrow> 'v \<Rightarrow> string set" where
  "vk_inside zs p v = fst ` set (zs v (k_active (NewWithClient p)))"

lemma vk_room_line:
  "queued (vk_room zs hs st p v) i \<longleftrightarrow> i \<in> set (vk_line zs p v)"
  "is_active (vk_room zs hs st p v) i \<longleftrightarrow> i \<in> vk_inside zs p v"
  "ahead (vk_room zs hs st p v) i j \<longleftrightarrow> subseq [i, j] (vk_line zs p v)"
  by (simp_all add: vk_room_def queued_def ahead_def ids_data_room is_active_data members_of_def vk_line_def
      vk_inside_def vk_data_of_def del: data_room_sel)

lemma distinct_vk_line: "vk_consistent zs hs st p v \<Longrightarrow> distinct (vk_line zs p v)"
  using data_invD(1) [of "vk_data_of zs hs st (NewWithClient p) v"]
  by (simp add: vk_consistent_def vk_line_def vk_data_of_def zset_ok_def)

text \<open>
  C10: First come, first served across replicas: while ticket \<open>i\<close> keeps its place in the shared queue,
  no ticket that was neither inside nor ahead of it gets inside or ahead, whatever calls the
  replicas make and whatever the network loses.
\<close>

theorem valkey_first_come_first_served:
  assumes "valkey_server rc cl zs hs st" and "vk_consistent zs hs st p v"
    and "length cs \<le> vk_headroom zs hs st p v" and "\<forall>(d, c) \<in> set cs. honest cl d"
    and "i \<noteq> j" and "j \<notin> vk_inside zs p v" and "\<not> subseq [j, i] (vk_line zs p v)"
    and "\<forall>k \<le> length cs. i \<in> set (vk_line zs p (store_run (valkey_ops rc cl quote (NewWithClient p)) (take k cs) v))"
  shows "j \<notin> vk_inside zs p (store_run (valkey_ops rc cl quote (NewWithClient p)) cs v) \<and>
    \<not> subseq [j, i] (vk_line zs p (store_run (valkey_ops rc cl quote (NewWithClient p)) cs v))"
proof -
  let ?v = "store_run (valkey_ops rc cl quote (NewWithClient p)) cs v"
  note run = vk_run_outranks [OF assms(1), of "honest cl" p v cs i j quote, unfolded vk_room_line]
  have "i \<in> set (vk_line zs p v)" using assms(8) [THEN spec, of 0] by simp
  then have "outranks i j (vk_room zs hs st p v)"
    using subseq_pair_total [of i "vk_line zs p v" j] assms(5-7) by (auto simp: outranks_def vk_room_line)
  with run assms(2-4,8) have o: "vk_consistent zs hs st p ?v" "outranks i j (vk_room zs hs st p ?v)" by simp_all
  show ?thesis using o(2) distinct_vk_line [OF o(1)]
    using subseq_pair_distinct(1) [of i j "vk_line zs p ?v"] subseq_pair_mem [of j i "vk_line zs p ?v"]
    by (auto simp: outranks_def vk_room_line)
qed

text \<open>A server with one ticket in its line.\<close>

definition line_db :: db where
  "line_db = snd (vk_Enqueue db_redis demo_client (NewWithClient ''gowait:'') Delivered ''b'' 0 empty_db)"

lemma line_db_run: "store_run (valkey_ops db_redis demo_client id (NewWithClient ''gowait:'')) cs line_db =
    store_run (valkey_ops db_redis demo_client id (NewWithClient ''gowait:'')) ((Delivered, CEnqueue ''b'' 0) # cs) empty_db"
  by (simp add: line_db_def)

lemma line_db_room:
  assumes "\<forall>(d, c) \<in> set cs. d = Delivered" "length cs < 2 ^ 53 - 1"
  shows "vk_consistent db_zset db_hashes db_strings ''gowait:''
      (store_run (valkey_ops db_redis demo_client id (NewWithClient ''gowait:'')) cs line_db) \<and>
    vk_room db_zset db_hashes db_strings ''gowait:''
      (store_run (valkey_ops db_redis demo_client id (NewWithClient ''gowait:'')) cs line_db) =
    fold (room_exec valkey_clocking) (map snd cs)
      \<lparr>waiting = [\<lparr>w_id = ''b'', w_enqueued = 0, w_seen = 0\<rparr>], sessions = Map.empty, override = None\<rparr>"
  using vk_run_ok [OF demo_db.valkey_server_axioms, of "''gowait:''" empty_db "(Delivered, CEnqueue ''b'' 0) # cs" id]
    assms fresh_room [OF empty_db_fresh, of "''gowait:''"]
  unfolding line_db_run by (simp add: room_Enqueue_def empty_room_def queued_def is_active_def unix_milli_def s64_def
      Let_def)

theorem valkey_first_come_first_served_witness:
  "''c'' \<notin> vk_inside db_zset ''gowait:'' (store_run (valkey_ops db_redis demo_client id (NewWithClient ''gowait:''))
     [(Delivered, CTryAdmit ''c'' 5 second)] line_db)"
proof -
  let ?run = "store_run (valkey_ops db_redis demo_client id (NewWithClient ''gowait:''))"
  let ?cs = "[(Delivered, CTryAdmit ''c'' 5 second)]"
  have room: "vk_consistent db_zset db_hashes db_strings ''gowait:'' (?run cs line_db) \<and>
      vk_room db_zset db_hashes db_strings ''gowait:'' (?run cs line_db) =
        \<lparr>waiting = [\<lparr>w_id = ''b'', w_enqueued = 0, w_seen = 0\<rparr>], sessions = Map.empty, override = None\<rparr>"
    if "cs \<in> {[], ?cs}" for cs
    using line_db_room [of cs] that by (auto simp: room_TryAdmit_def is_active_def active_count_def)
  have line: "set (vk_line db_zset ''gowait:'' (?run cs line_db)) = {''b''}"
      "vk_inside db_zset ''gowait:'' (?run cs line_db) = {}" if "cs \<in> {[], ?cs}" for cs
    using vk_room_line(1,2) [of db_zset db_hashes db_strings "''gowait:''" "?run cs line_db"] room [OF that]
    by (auto simp: queued_def is_active_def)
  have now: "set (vk_line db_zset ''gowait:'' line_db) = {''b''}" "vk_inside db_zset ''gowait:'' line_db = {}"
    using line [of "[]"] by simp_all
  have "\<forall>k \<le> length ?cs. ''b'' \<in> set (vk_line db_zset ''gowait:'' (?run (take k ?cs) line_db))"
    using line(1) by (auto simp: le_Suc_eq simp del: store_run.simps)
  moreover have "\<not> subseq [''c'', ''b''] (vk_line db_zset ''gowait:'' line_db)"
    using subseq_pair_mem [of "''c''" "''b''" "vk_line db_zset ''gowait:'' line_db"] now by auto
  moreover have "length ?cs \<le> vk_headroom db_zset db_hashes db_strings ''gowait:'' line_db"
    using vk_enqueue_budget [OF demo_db.valkey_server_axioms, of "honest demo_client" Delivered "''gowait:''" empty_db id "''b''" 0]
      fresh_room [OF empty_db_fresh, of "''gowait:''"] by (simp add: line_db_def honest_def)
  ultimately show ?thesis
    using valkey_first_come_first_served [OF demo_db.valkey_server_axioms, of "''gowait:''" line_db ?cs "''b''" "''c''" id]
      conjunct1 [OF room [of "[]", simplified]] now by (simp add: honest_def del: store_run.simps(2))
qed

text \<open>
  C12: The promote loop of the reconcile script ends from every consistent state, after as many
  rounds as there are queue heads for free slots, whatever it had collected before.
\<close>

theorem promote_loop_ends:
  fixes cap :: int
  assumes "valkey_server rc cl zs hs st" and "vk_consistent zs hs st p v"
  defines "s \<equiv> NewWithClient p" and "heads \<equiv> waiting (vk_room zs hs st p v)"
  defines "k \<equiv> min (nat (cap - active_count (vk_room zs hs st p v))) (length heads)"
  shows "\<exists>v'. script_promote rc (k_active s) (k_admitted s) (k_order s) (k_seen s) (k_enqueued s) cap now n ws v =
    Some (n + int k, ws @ map (\<lambda>w. now - w_enqueued w) (take k heads), v')"
proof -
  have inv: "data_inv (vk_data_of zs hs st s v)" using assms(2) by (simp add: vk_consistent_def s_def)
  let ?d = "vk_data_of zs hs st s v"
  have "k = min (nat (cap - int (length (d_active ?d)))) (length (d_order ?d))"
    using active_count_data [OF inv] by (simp add: k_def heads_def vk_room_def s_def)
  from valkey_replicas.script_promote_data [OF replicas [OF assms(1)] inv [unfolded s_def] this [unfolded s_def], of now n ws]
  show ?thesis unfolding heads_def vk_room_def s_def by blast
qed

theorem promote_loop_ends_witness:
  "\<exists>v'. script_promote db_redis ''wr:active'' ''wr:admitted'' ''wr:order'' ''wr:seen'' ''wr:enqueued'' 5 7 0 [] empty_db =
     Some (0, [], v')"
  using promote_loop_ends [OF demo_db.valkey_server_axioms fresh_room(1) [OF empty_db_fresh], of "''wr:''" 5 7 0 "[]"]
  by (simp add: NewWithClient_def fresh_room [OF empty_db_fresh] empty_room_def)

section \<open>Leases\<close>

text \<open>
  Attempts of the replicas to take one lease, and its expiry on the server, in the order in which
  they happen; the run counts the attempts that were told they hold it.
\<close>

datatype lease_event = Attempt delivery dur | Expiry

fun lease_run :: "'v redis \<Rightarrow> client \<Rightarrow> vk_store \<Rightarrow> string \<Rightarrow> lease_event list \<Rightarrow> 'v \<Rightarrow> nat \<times> 'v" where
  "lease_run rc cl s name [] v = (0, v)"
| "lease_run rc cl s name (Expiry # es) v = lease_run rc cl s name es (r_DEL rc [k_lockPrefix s @ name] v)"
| "lease_run rc cl s name (Attempt d ttl # es) v =
     (let (won, v) = vk_TryLock rc cl s d name ttl v; (n, v) = lease_run rc cl s name es v
      in (if won = Ok True then n + 1 else n, v))"

definition expiries :: "lease_event list \<Rightarrow> nat" where
  "expiries es = length (filter (\<lambda>e. e = Expiry) es)"

lemma TryLock_step:
  fixes s name d ttl v
  assumes "valkey_server rc cl zs hs st"
  defines "k \<equiv> k_lockPrefix s @ name" and "out \<equiv> vk_TryLock rc cl s d name ttl v"
  shows "fst out = Ok True \<Longrightarrow> st v k = None \<and> st (snd out) k \<noteq> None"
    and "st v k \<noteq> None \<Longrightarrow> st (snd out) k \<noteq> None"
proof -
  note SETNX = valkey_server.SETNX [OF assms(1)] and Error = valkey_server.Error [OF assms(1)]
  let ?f = "r_SETNX rc k ''1'' (milliseconds ttl)"
  have f: "st v k = None \<or> fst (?f v) \<noteq> Ok (RStr ''OK'')" "st v k \<noteq> None \<Longrightarrow> st (snd (?f v)) k \<noteq> None"
    "fst (?f v) = Ok (RStr ''OK'') \<Longrightarrow> st (snd (?f v)) k \<noteq> None"
    "fst (?f v) = Ok (RStr ''OK'') \<or> fst (?f v) = Ok RNil \<or> (\<exists>e. fst (?f v) = Err e)"
    using SETNX(1,2) [of "milliseconds ttl" k "''1''" v] SETNX(3) [of "milliseconds ttl" k "''1''" v]
    by (cases "0 < milliseconds ttl"; auto split: if_splits)+
  show "st v k \<noteq> None \<Longrightarrow> st (snd out) k \<noteq> None"
    using f(2) by (cases d) (auto simp: out_def vk_TryLock_def split_beta Let_def simp flip: k_def)
  assume "fst out = Ok True"
  then have "d = Delivered \<and> fst (?f v) = Ok (RStr ''OK'')"
    using f(4) by (cases d) (auto simp: out_def vk_TryLock_def reply_error_def reply_as_def Error split_beta
        Let_def split: if_splits simp flip: k_def)
  with f(1,3) show "st v k = None \<and> st (snd out) k \<noteq> None"
    by (auto simp: out_def vk_TryLock_def split_beta Let_def simp flip: k_def)
qed

text \<open>
  C11: A lease has one holder: of all the attempts of all replicas, whatever the network does to them,
  at most one is told that it holds the lease until the lease expires, and none if the lease is
  held already.
\<close>

theorem lease_is_exclusive:
  assumes "valkey_server rc cl zs hs st"
  shows "fst (lease_run rc cl s name es v) \<le>
    expiries es + (if st v (k_lockPrefix s @ name) = None then 1 else 0)"
proof (induction es arbitrary: v)
  case (Cons e es)
  show ?case
  proof (cases e)
    case (Attempt d ttl)
    obtain won v1 where t: "vk_TryLock rc cl s d name ttl v = (won, v1)" by fastforce
    obtain n v2 where r: "lease_run rc cl s name es v1 = (n, v2)" by fastforce
    from TryLock_step [OF assms, where s = s and name = name and d = d and ttl = ttl and v = v] Cons.IH [of v1]
    show ?thesis by (auto simp: Attempt t r expiries_def split: if_splits)
  next
    case Expiry
    then show ?thesis
      using Cons.IH [of "r_DEL rc [k_lockPrefix s @ name] v"] by (auto simp: expiries_def split: if_splits)
  qed
qed (simp add: expiries_def)

theorem lease_is_exclusive_witness:
  "fst (lease_run db_redis demo_client (NewWithClient ''wr:'') lockName
     [Attempt Delivered second, Attempt Delivered second, Expiry, Attempt (LostReply ''timeout'') second,
      Attempt Delivered second] empty_db) \<le> 2"
  using lease_is_exclusive [OF demo_db.valkey_server_axioms, of "NewWithClient ''wr:''" lockName
      "[Attempt Delivered second, Attempt Delivered second, Expiry, Attempt (LostReply ''timeout'') second,
      Attempt Delivered second]" empty_db]
  by (simp add: expiries_def empty_db_def del: lease_run.simps)

end
