(* ===== verification/BackendsAgree.thy ===== *)
theory BackendsAgree
  imports ValkeyProps MemoryProps
begin

text \<open>
  Two stores, one interface: the in-process store and the Valkey store give the same answers to the
  same calls, as long as instants are whole milliseconds (the resolution of the shared store) and
  nobody enqueues a ticket that is already inside (there the two differ in the heartbeat). Both are
  rooms, and the rooms differ in the unit of time only. Two floating-point answers need care. A waiting
  time is the same number of milliseconds, but converted to seconds in two ways, whose results may
  differ in the last places. The average session length is not compared: the in-process store smooths
  over the sessions that end in the iteration order of its map.
\<close>

section \<open>Answers\<close>

text \<open>What a caller learns from a call, except for the average session length in \<open>Stats\<close>.\<close>

datatype answer =
    Yes bool
  | Place snapshot
  | Moved int int int "float64 list" \<comment> \<open>promoted, expired, evicted, and the waits of the promoted\<close>
  | Sizes int int \<comment> \<open>queue and active\<close>
  | Accepted
  | Override "int option"
  | Dropped int

definition moved :: "reconcile_result \<Rightarrow> answer" where
  "moved rr = Moved (rr_Promoted rr) (rr_Expired rr) (rr_Evicted rr) (rr_WaitedSecs rr)"

fun store_answer :: "'s store_ops \<Rightarrow> call \<Rightarrow> 's \<Rightarrow> answer result" where
  "store_answer ops (CTryAdmit i cap now) s = map_res Yes (fst (op_TryAdmit ops i cap now s))"
| "store_answer ops (CEnqueue i now) s = map_res Place (fst (op_Enqueue ops i now s))"
| "store_answer ops (CLookup i now) s = map_res Place (fst (op_Lookup ops i now s))"
| "store_answer ops (CTouch i now) s = map_res Yes (fst (op_Touch ops i now s))"
| "store_answer ops (CReconcile cap aTTL qTTL now) s = map_res moved (fst (op_Reconcile ops cap aTTL qTTL now s))"
| "store_answer ops CStats s = map_res (\<lambda>st. Sizes (st_QueueLength st) (st_ActiveCount st)) (fst (op_Stats ops s))"
| "store_answer ops (CSetCapacity n) s = map_res (\<lambda>_. Accepted) (fst (op_SetCapacity ops n s))"
| "store_answer ops CGetCapacity s =
     map_res (\<lambda>(n, isset). Override (if isset then Some n else None)) (fst (op_GetCapacity ops s))"
| "store_answer ops CFlush s = map_res Dropped (fst (op_Flush ops s))"

fun room_answer :: "clocking \<Rightarrow> call \<Rightarrow> room \<Rightarrow> answer" where
  "room_answer ck (CTryAdmit i cap now) r = Yes (fst (room_TryAdmit i cap (ck_stamp ck now) r))"
| "room_answer ck (CEnqueue i now) r = Place (fst (room_Enqueue ck i (ck_stamp ck now) r))"
| "room_answer ck (CLookup i now) r = Place (fst (room_Lookup i (ck_stamp ck now) r))"
| "room_answer ck (CTouch i now) r = Yes (fst (room_Touch i (ck_stamp ck now) r))"
| "room_answer ck (CReconcile cap aTTL qTTL now) r = moved (fst (room_Reconcile ck cap aTTL qTTL (ck_stamp ck now) r))"
| "room_answer ck CStats r = Sizes (int (length (waiting r))) (active_count r)"
| "room_answer ck (CSetCapacity n) r = Accepted"
| "room_answer ck CGetCapacity r = Override (override r)"
| "room_answer ck CFlush r = Dropped (fst (room_Flush r))"

text \<open>
  Two waits are the same when they are one number of milliseconds, converted as a \<open>time.Duration\<close>
  and by a division; for a wait that fits 64 bits of nanoseconds the two are equal but for four
  rounding errors. All other answers are the same when they are equal.
\<close>

definition same_wait :: "float64 \<Rightarrow> float64 \<Rightarrow> bool" where
  "same_wait x y \<longleftrightarrow> (\<exists>m. x = seconds (sat64 (m * millisecond)) \<and> y = f_div (f_of_int m) 1000 \<and>
     (0 \<le> m \<and> m * millisecond < 2 ^ 63 \<longrightarrow> \<bar>x - y\<bar> \<le> of_int m / 1000 * (4 / 2 ^ 53)))"

fun same_answer :: "answer \<Rightarrow> answer \<Rightarrow> bool" where
  "same_answer (Moved p x v ws) (Moved p' x' v' ws') \<longleftrightarrow> p = p' \<and> x = x' \<and> v = v' \<and> list_all2 same_wait ws ws'"
| "same_answer a b \<longleftrightarrow> a = b"

lemma same_waitI: "same_wait (seconds (sat64 (m * millisecond))) (f_div (f_of_int m) 1000)"
proof -
  have "\<bar>seconds (sat64 (m * millisecond)) - f_div (f_of_int m) 1000\<bar> \<le> of_int m / 1000 * (4 / 2 ^ 53)"
    if m: "0 \<le> m" "m * millisecond < 2 ^ 63"
  proof -
    have "sat64 (m * millisecond) = m * millisecond" using m by (simp add: sat64_def)
    moreover have "(of_int (m * millisecond) / of_int second :: rat) = of_int m / 1000" by simp
    ultimately have "near 2 (seconds (sat64 (m * millisecond))) (of_int m / 1000)"
      using seconds_near [of "m * millisecond"] m by simp
    moreover have "near 1 (f_div (f_of_int m) 1000) (of_int m / 1000)"
    proof -
      have "m = 0 \<or> 2 powi (- 1000) \<le> (1::rat) / 1000 \<and> (1::rat) / 1000 \<le> of_int m / 1000"
        using m by (auto simp: power_int_def power_one_over field_simps)
      then have "near 1 (f64 (of_int m / 1000)) (of_int m / 1000)" by (intro near_f64) auto
      then show ?thesis using m by (simp add: f_div_def f_of_int_exact)
    qed
    ultimately have "seconds (sat64 (m * millisecond)) - f_div (f_of_int m) 1000 \<le> of_int m / 1000 * (4 / 2 ^ 53)"
      "f_div (f_of_int m) 1000 - seconds (sat64 (m * millisecond)) \<le> of_int m / 1000 * (4 / 2 ^ 53)"
      using m(1) by (simp_all add: near_def unit_roundoff_def eval_nat_numeral)
    then show ?thesis by linarith
  qed
  then show ?thesis by (auto simp: same_wait_def)
qed

text \<open>The two conversions do differ, for 1.118 seconds.\<close>

lemma conversions_differ: "seconds (1118 * millisecond) \<noteq> f_div (f_of_int 1118) 1000"
  by code_simp

context reliable_store
begin

lemma answers_ok:
  assumes "legal e" "inv s" "0 < budget s" "\<And>n. override (view s) = Some n \<Longrightarrow> ck_carries ck n"
  shows "store_answer (ops e) c s = Ok (room_answer ck c (view s))"
proof (cases c)
  case CStats
  from Stats_ok [OF assms(1,2)] obtain st where "fst (op_Stats (ops e) s) = Ok st" by (auto simp: is_ok_iff)
  with Stats_law [OF assms(1,2)] show ?thesis by (simp add: CStats)
next
  case CGetCapacity
  from GetCapacity_ok [OF assms(1,2,4)] obtain n isset where "fst (op_GetCapacity (ops e) s) = Ok (n, isset)"
    by (auto simp: is_ok_iff)
  with GetCapacity_law [OF assms(1,2)] show ?thesis by (auto simp: CGetCapacity)
qed (use meets_ok [OF TryAdmit_law TryAdmit_ok, OF assms(1,2) assms(1,2)]
    meets_ok [OF Enqueue_law Enqueue_ok, OF assms(1-3) assms(1-3)]
    meets_ok [OF Lookup_law Lookup_ok, OF assms(1,2) assms(1,2)]
    meets_ok [OF Touch_law Touch_ok, OF assms(1,2) assms(1,2)]
    meets_ok [OF Reconcile_law Reconcile_ok, OF assms(1,2) assms(1,2)]
    meets_ok [OF SetCapacity_law SetCapacity_ok, OF assms(1,2) assms(1,2)]
    meets_ok [OF Flush_law Flush_ok, OF assms(1,2) assms(1,2)] in \<open>simp_all\<close>)

end

lemmas vk_run_budget = room_store.run_budget [OF vk_room_store, folded vk_reading]
lemmas vk_answers_ok = reliable_store.answers_ok [OF vk_reliable_store, folded vk_reading]

section \<open>Rooms in another unit of time\<close>

definition scale_waiter :: "(int \<Rightarrow> int) \<Rightarrow> waiter \<Rightarrow> waiter" where
  "scale_waiter g w = \<lparr>w_id = w_id w, w_enqueued = g (w_enqueued w), w_seen = g (w_seen w)\<rparr>"

definition scale_session :: "(int \<Rightarrow> int) \<Rightarrow> session \<Rightarrow> session" where
  "scale_session g v = \<lparr>s_admitted = g (s_admitted v), s_seen = g (s_seen v)\<rparr>"

definition scale_sessions :: "(int \<Rightarrow> int) \<Rightarrow> (string \<rightharpoonup> session) \<Rightarrow> (string \<rightharpoonup> session)" where
  "scale_sessions g ss = (\<lambda>i. map_option (scale_session g) (ss i))"

definition rescale :: "(int \<Rightarrow> int) \<Rightarrow> room \<Rightarrow> room" where
  "rescale g r = \<lparr>waiting = map (scale_waiter g) (waiting r), sessions = scale_sessions g (sessions r),
     override = override r\<rparr>"

lemma rescale_sel [simp]:
  "waiting (rescale g r) = map (scale_waiter g) (waiting r)"
  "sessions (rescale g r) = scale_sessions g (sessions r)" "override (rescale g r) = override r"
  "rescale g (r\<lparr>waiting := ws\<rparr>) = (rescale g r)\<lparr>waiting := map (scale_waiter g) ws\<rparr>"
  "rescale g (r\<lparr>sessions := ss\<rparr>) = (rescale g r)\<lparr>sessions := scale_sessions g ss\<rparr>"
  "rescale g (r\<lparr>override := v\<rparr>) = (rescale g r)\<lparr>override := v\<rparr>"
  by (simp_all add: rescale_def)

lemma scale_waiter_sel [simp]:
  "w_id (scale_waiter g w) = w_id w" "w_enqueued (scale_waiter g w) = g (w_enqueued w)" "w_seen (scale_waiter g w) = g (w_seen w)"
  by (simp_all add: scale_waiter_def)

lemma scale_simps [simp]:
  "ids (map (scale_waiter g) ws) = ids ws"
  "dom (scale_sessions g ss) = dom ss"
  "scale_sessions g ss i = None \<longleftrightarrow> ss i = None"
  "scale_sessions g (ss(i \<mapsto> new_session t)) = (scale_sessions g ss)(i \<mapsto> new_session (g t))"
  "scale_sessions g (refresh_session i t ss) = refresh_session i (g t) (scale_sessions g ss)"
  "map (scale_waiter g) (refresh_waiter i t ws) = refresh_waiter i (g t) (map (scale_waiter g) ws)"
  "scale_waiter g \<lparr>w_id = i, w_enqueued = t, w_seen = u\<rparr> = \<lparr>w_id = i, w_enqueued = g t, w_seen = g u\<rparr>"
  by (auto simp: ids_def scale_sessions_def new_session_def scale_session_def refresh_session_def
      refresh_waiter_def scale_waiter_def fun_eq_iff split: option.splits)

lemma position_ids: "position ws i = length (takeWhile (\<lambda>j. j \<noteq> i) (ids ws)) + 1"
  by (induction ws) (simp_all add: position_def)

lemma reading_rescale [simp]:
  "queued (rescale g r) i = queued r i" "is_active (rescale g r) i = is_active r i"
  "active_count (rescale g r) = active_count r" "room_snapshot (rescale g r) i = room_snapshot r i"
  by (simp_all add: queued_def is_active_def active_count_def room_snapshot_def room_status_def position_ids)

section \<open>The same steps\<close>

text \<open>A call on two rooms that differ in the unit has the same answer and leaves such rooms.\<close>

definition same_step :: "(int \<Rightarrow> int) \<Rightarrow> 'a \<times> room \<Rightarrow> 'a \<times> room \<Rightarrow> bool" where
  "same_step g p q \<longleftrightarrow> fst p = fst q \<and> snd p = rescale g (snd q)"

lemma same_steps:
  "same_step g (room_TryAdmit i cap (g t) (rescale g r)) (room_TryAdmit i cap t r)"
  "same_step g (room_Lookup i (g t) (rescale g r)) (room_Lookup i t r)"
  "same_step g (room_Touch i (g t) (rescale g r)) (room_Touch i t r)"
  "same_step g (room_Flush (rescale g r)) (room_Flush r)"
  by (simp_all add: same_step_def room_TryAdmit_def room_Lookup_def room_Touch_def room_Flush_def)

lemma same_step_Enqueue:
  assumes "\<not> is_active r i"
  shows "same_step g (room_Enqueue ck i (g t) (rescale g r)) (room_Enqueue ck' i t r)"
proof -
  let ?r = "if queued r i then r\<lparr>waiting := refresh_waiter i t (waiting r)\<rparr>
    else r\<lparr>waiting := waiting r @ [\<lparr>w_id = i, w_enqueued = t, w_seen = t\<rparr>]\<rparr>"
  have "room_Enqueue ck' i t r = (room_snapshot ?r i, ?r)" using assms by (simp add: room_Enqueue_def Let_def)
  moreover have "room_Enqueue ck i (g t) (rescale g r) = (room_snapshot (rescale g ?r) i, rescale g ?r)"
    using assms by (simp add: room_Enqueue_def Let_def del: reading_rescale(4))
  ultimately show ?thesis by (simp add: same_step_def del: rescale_sel)
qed

lemma expire_rescale:
  assumes "\<And>s. ck_idle ck ttl (g t) (g s) = ck_idle ck' ttl t s"
  shows "room_expire ck ttl (g t) (scale_sessions g ss) = scale_sessions g (room_expire ck' ttl t ss)"
  using assms by (auto simp: room_expire_def scale_sessions_def scale_session_def fun_eq_iff split: option.splits)

lemma evict_rescale:
  assumes "\<And>s. ck_idle ck ttl (g t) (g s) = ck_idle ck' ttl t s"
  shows "room_evict ck ttl (g t) (map (scale_waiter g) ws) = map (scale_waiter g) (room_evict ck' ttl t ws)"
  using assms by (simp add: room_evict_def filter_map comp_def)

lemma admit_rescale:
  "room_admit (g t) (map (scale_waiter g) ws) (scale_sessions g ss) = scale_sessions g (room_admit t ws ss)"
  by (induction ws arbitrary: ss) (simp_all flip: scale_simps(4))

lemma reconcile_rescale:
  assumes "\<And>s. ck_idle ck aTTL (g t) (g s) = ck_idle ck' aTTL t s" "\<And>s. ck_idle ck qTTL (g t) (g s) = ck_idle ck' qTTL t s"
      and "\<And>s. same_wait (ck_secs ck (g t) (g s)) (ck_secs ck' t s)"
  shows "same_answer (moved (fst (room_Reconcile ck cap aTTL qTTL (g t) (rescale g r))))
      (moved (fst (room_Reconcile ck' cap aTTL qTTL t r)))"
    and "snd (room_Reconcile ck cap aTTL qTTL (g t) (rescale g r)) = rescale g (snd (room_Reconcile ck' cap aTTL qTTL t r))"
  using expire_rescale [of ck aTTL g t ck', OF assms(1)] evict_rescale [of ck qTTL g t ck', OF assms(2)]
    assms(3)
  by (simp_all add: room_Reconcile_def Let_def moved_def admit_rescale take_map drop_map list_all2_map1 list_all2_map2
      list.rel_refl_strong)

section \<open>Whole milliseconds\<close>

definition of_ms :: "int \<Rightarrow> int" where
  "of_ms n = n * 1000000"

definition whole_time :: "time \<Rightarrow> bool" where
  "whole_time t \<longleftrightarrow> t mod 1000000 = 0 \<and> in_s64 (t div 1000000)"

definition whole_dur :: "dur \<Rightarrow> bool" where
  "whole_dur d \<longleftrightarrow> d mod 1000000 = 0 \<and> 0 \<le> d \<and> in_s64 d"

fun whole_call :: "call \<Rightarrow> bool" where
  "whole_call (CTryAdmit i cap now) = whole_time now"
| "whole_call (CEnqueue i now) = whole_time now"
| "whole_call (CLookup i now) = whole_time now"
| "whole_call (CTouch i now) = whole_time now"
| "whole_call (CReconcile cap aTTL qTTL now) = (whole_dur aTTL \<and> whole_dur qTTL \<and> whole_time now)"
| "whole_call (CSetCapacity n) = in_s64 n"
| "whole_call c = True"

lemma whole_stamp: "whole_time t \<Longrightarrow> ck_stamp memory_clocking t = of_ms (ck_stamp valkey_clocking t)"
  by (auto simp: whole_time_def of_ms_def unix_milli_def s64_id)

lemma whole_idle:
  assumes "whole_dur d"
  shows "ck_idle memory_clocking d (of_ms t) (of_ms s) = ck_idle valkey_clocking d t s"
proof -
  obtain m where m: "d = 1000000 * m" "0 \<le> m"
    using assms by (auto simp: whole_dur_def elim!: dvdE dest!: iffD2 [OF dvd_eq_mod_eq_0])
  have "milliseconds d = m" using m by (simp add: milliseconds_def sdiv_nonneg)
  moreover have "sat64 x > d \<longleftrightarrow> x > d" for x
    using assms m by (auto simp: whole_dur_def sat64_def in_s64_def)
  ultimately show ?thesis using m by (simp add: time_sub_def of_ms_def) linarith
qed

lemma whole_wait: "same_wait (ck_secs memory_clocking (of_ms t) (of_ms s)) (ck_secs valkey_clocking t s)"
  using same_waitI [of "t - s"] by (simp add: of_ms_def time_sub_def left_diff_distrib)

lemma whole_step:
  assumes "whole_call c" "\<And>i now. c = CEnqueue i now \<Longrightarrow> \<not> is_active r i"
  shows "same_answer (room_answer memory_clocking c (rescale of_ms r)) (room_answer valkey_clocking c r) \<and>
    room_exec memory_clocking c (rescale of_ms r) = rescale of_ms (room_exec valkey_clocking c r)"
proof (cases c)
  case (CReconcile cap aTTL qTTL now)
  with assms(1) have w: "whole_dur aTTL" "whole_dur qTTL" "whole_time now" by simp_all
  show ?thesis
    using reconcile_rescale [of memory_clocking aTTL of_ms _ valkey_clocking, OF whole_idle [OF w(1)] whole_idle [OF w(2)] whole_wait]
    unfolding CReconcile room_answer.simps room_exec.simps whole_stamp [OF w(3)] by blast
next
  case (CEnqueue i now)
  with assms have w: "whole_time now" "\<not> is_active r i" by simp_all
  show ?thesis
    using same_step_Enqueue [OF w(2), of of_ms memory_clocking "ck_stamp valkey_clocking now" valkey_clocking]
    unfolding CEnqueue room_answer.simps room_exec.simps whole_stamp [OF w(1)] same_step_def by simp
next
  case (CTryAdmit i cap now)
  with assms(1) have w: "whole_time now" by simp
  show ?thesis using same_steps(1) [of of_ms i cap "ck_stamp valkey_clocking now" r]
    unfolding CTryAdmit room_answer.simps room_exec.simps whole_stamp [OF w] same_step_def by simp
next
  case (CLookup i now)
  with assms(1) have w: "whole_time now" by simp
  show ?thesis using same_steps(2) [of of_ms i "ck_stamp valkey_clocking now" r]
    unfolding CLookup room_answer.simps room_exec.simps whole_stamp [OF w] same_step_def by simp
next
  case (CTouch i now)
  with assms(1) have w: "whole_time now" by simp
  show ?thesis using same_steps(3) [of of_ms i "ck_stamp valkey_clocking now" r]
    unfolding CTouch room_answer.simps room_exec.simps whole_stamp [OF w] same_step_def by simp
qed (use same_steps(4) [of of_ms r] in \<open>simp_all add: same_step_def\<close>)

section \<open>The two stores\<close>

text \<open>Calls are never made to enqueue a ticket that is inside, in the run of rooms of the calls.\<close>

definition newcomers_only :: "call list \<Rightarrow> bool" where
  "newcomers_only cs \<longleftrightarrow> (\<forall>k < length cs. case cs ! k of
     CEnqueue i now \<Rightarrow> \<not> is_active (fold (room_exec memory_clocking) (take k cs) empty_room) i | _ \<Rightarrow> True)"

lemma newcomersD:
  "newcomers_only cs \<Longrightarrow> k < length cs \<Longrightarrow> cs ! k = CEnqueue i now \<Longrightarrow>
    \<not> is_active (fold (room_exec memory_clocking) (take k cs) empty_room) i"
  by (force simp: newcomers_only_def)

lemma newcomers_take: "newcomers_only cs \<Longrightarrow> newcomers_only (take k cs)"
  by (auto simp: newcomers_only_def min_absorb1 split: call.splits)

lemma rescale_empty [simp]: "rescale g empty_room = empty_room"
  by (simp add: rescale_def empty_room_def scale_sessions_def)

lemma rooms_agree:
  assumes "\<forall>c \<in> set cs. whole_call c" "newcomers_only cs"
  shows "fold (room_exec memory_clocking) cs empty_room = rescale of_ms (fold (room_exec valkey_clocking) cs empty_room)"
  using assms
proof (induction cs rule: rev_induct)
  case (snoc c cs)
  have IH: "fold (room_exec memory_clocking) cs empty_room = rescale of_ms (fold (room_exec valkey_clocking) cs empty_room)"
    using snoc newcomers_take [of "cs @ [c]" "length cs"] by simp
  have "\<not> is_active (fold (room_exec valkey_clocking) cs empty_room) i" if "c = CEnqueue i now" for i now
    using newcomersD [OF snoc.prems(2), of "length cs" i now] that IH by simp
  with whole_step [of c "fold (room_exec valkey_clocking) cs empty_room"] snoc.prems(1) IH show ?case by simp
qed simp

lemma override_carried:
  assumes "\<forall>c \<in> set cs. whole_call c" "override (fold (room_exec ck) cs empty_room) = Some n"
  shows "in_s64 n"
  using assms
proof (induction cs rule: rev_induct)
  case (snoc c cs)
  have "override (fold (room_exec ck) (cs @ [c]) empty_room) =
      (case c of CSetCapacity n \<Rightarrow> Some n | _ \<Rightarrow> override (fold (room_exec ck) cs empty_room))"
    using override_exec [of ck c "fold (room_exec ck) cs empty_room"] by simp
  with snoc show ?case by (cases c) (simp_all del: fold_append)
qed (simp add: empty_room_def)

text \<open>
  C16: The two stores are interchangeable: started empty, the in-process store and the shared store give
  the same answers to the same calls, with no error, as long as instants are whole milliseconds and
  nobody enqueues a ticket that is inside. Admissions, positions, counts and overrides are equal; the
  waiting times \<open>Reconcile\<close> reports are the same numbers of milliseconds, converted to seconds in two
  ways that agree up to four rounding errors. The average session length of \<open>Stats\<close> is not compared.
\<close>

theorem backends_agree:
  assumes "valkey_server rc cl zs hs st" and "vk_fresh zs hs st p v"
    and "\<forall>(ord, c) \<in> set cs. range_ok ord \<and> whole_call c" and "newcomers_only (map snd cs)"
    and "length cs < 2 ^ 53" and "k < length cs"
  shows "\<exists>a b. store_answer (memory_ops (fst (cs ! k))) (snd (cs ! k)) (store_run memory_ops (take k cs) New) = Ok a \<and>
    store_answer (valkey_ops rc cl quote (NewWithClient p) Delivered) (snd (cs ! k))
      (store_run (valkey_ops rc cl quote (NewWithClient p)) (map (\<lambda>(ord, c). (Delivered, c)) (take k cs)) v) = Ok b \<and>
    same_answer a b"
proof -
  let ?qs = "map snd (take k cs)" and ?c = "snd (cs ! k)"
  let ?m = "store_run memory_ops (take k cs) New"
  let ?v = "store_run (valkey_ops rc cl quote (NewWithClient p)) (map (\<lambda>(ord, c). (Delivered, c)) (take k cs)) v"
  let ?r = "fold (room_exec valkey_clocking) ?qs empty_room"
  have this_one: "range_ok (fst (cs ! k))" "whole_call ?c"
    using assms(3) nth_mem [OF assms(6)] by (simp_all add: case_prod_beta)
  have ords: "\<forall>(ord, c) \<in> set (take k cs). range_ok ord" and whole: "\<forall>c \<in> set ?qs. whole_call c"
    using assms(3) by (fastforce dest: in_set_takeD)+
  have rooms: "fold (room_exec memory_clocking) ?qs empty_room = rescale of_ms ?r"
    using rooms_agree [OF whole] newcomers_take [OF assms(4), of k] by (simp add: take_map)
  have m: "mem_inv ?m" "mem_abs ?m = rescale of_ms ?r" "0 < mem_budget ?m"
    using mem.run_ok [OF mem_inv_New, of "take k cs"] mem.run_budget [OF mem_inv_New, of "take k cs"] ords
      rooms assms(5,6) mem_budget_New by (simp_all add: mem_abs_New take_map del: mem_abs_sel)
  have v: "vk_consistent zs hs st p ?v" "vk_room zs hs st p ?v = ?r" "0 < vk_headroom zs hs st p ?v"
    using vk_run_ok [OF assms(1), of p v "map (\<lambda>(ord, c). (Delivered, c)) (take k cs)" quote]
      vk_run_budget [OF assms(1), of "\<lambda>d. d = Delivered" p v "map (\<lambda>(ord, c). (Delivered, c)) (take k cs)" quote]
      fresh_room [OF assms(2)] assms(5,6) by (auto simp: comp_def case_prod_beta take_map honest_def)
  have "store_answer (memory_ops (fst (cs ! k))) ?c ?m = Ok (room_answer memory_clocking ?c (mem_abs ?m))"
    by (rule mem.answers_ok [OF this_one(1) m(1,3)]) simp
  moreover have "store_answer (valkey_ops rc cl quote (NewWithClient p) Delivered) ?c ?v = Ok (room_answer valkey_clocking ?c (vk_room zs hs st p ?v))"
    using vk_answers_ok [OF assms(1), of Delivered p ?v quote ?c] v override_carried [OF whole] by simp
  moreover have "same_answer (room_answer memory_clocking ?c (rescale of_ms ?r)) (room_answer valkey_clocking ?c ?r)"
    using whole_step [OF this_one(2), of ?r] newcomersD [OF assms(4), of k] assms(6) rooms by (auto simp: take_map)
  ultimately show ?thesis unfolding m(2) v(2) by blast
qed

theorem backends_agree_witness:
  "\<exists>a b. store_answer (memory_ops sorted_range) (CReconcile 2 (60 * second) (60 * second) (2118 * millisecond))
     (store_run memory_ops [(sorted_range, CTryAdmit ''a'' 1 0), (sorted_range, CEnqueue ''b'' second)] New) = Ok a \<and>
   store_answer (valkey_ops db_redis demo_client id (NewWithClient ''gowait:'') Delivered)
     (CReconcile 2 (60 * second) (60 * second) (2118 * millisecond))
     (store_run (valkey_ops db_redis demo_client id (NewWithClient ''gowait:''))
       [(Delivered, CTryAdmit ''a'' 1 0), (Delivered, CEnqueue ''b'' second)] empty_db) = Ok b \<and>
   same_answer a b"
proof -
  let ?cs = "[(sorted_range, CTryAdmit ''a'' 1 0), (sorted_range, CEnqueue ''b'' second),
    (sorted_range, CReconcile 2 (60 * second) (60 * second) (2118 * millisecond))]"
  have "\<forall>(ord, c) \<in> set ?cs. range_ok ord \<and> whole_call c"
    by (simp add: range_ok_sorted_range whole_time_def whole_dur_def in_s64_def)
  moreover have "newcomers_only (map snd ?cs)"
    by (auto simp: newcomers_only_def less_Suc_eq numeral_3_eq_3 room_TryAdmit_def is_active_def empty_room_def
        active_count_def)
  ultimately show ?thesis
    using backends_agree [OF demo_db.valkey_server_axioms empty_db_fresh, of ?cs 2 id "''gowait:''"]
    by (simp del: store_run.simps store_answer.simps)
qed

end
