(* ===== verification/ControllerFaults.thy ===== *)
theory ControllerFaults
  imports ServerRun
begin

text \<open>
  The controller on a store that others use as well and whose calls may fail: a request may be lost
  before the store, or its reply after it took effect, and between two calls of one method other
  clients make theirs. Every method then returns its result or an error, never panics, and keeps
  the bounds of the room, so the controller still is the service the server relies on. Only the
  accounting of the sessions in the metrics needs replies that arrive (\<open>ControllerRun\<close>).
\<close>

section \<open>The invariant\<close>

text \<open>A controller's own part of the invariant, and the shared part in the store.\<close>

definition sane_policy :: "int \<Rightarrow> 's controller \<Rightarrow> bool" where
  "sane_policy C c \<longleftrightarrow> 1 \<le> Capacity c \<and> Capacity c \<le> C \<and>
     1 \<le> cfg_Capacity (ct_cfg c) \<and> cfg_Capacity (ct_cfg c) \<le> C"

lemma sane_policy_frame [simp]:
  "sane_policy C (c\<lparr>ct_store := s\<rparr>) = sane_policy C c" "sane_policy C (c\<lparr>ct_reads := n\<rparr>) = sane_policy C c"
  "sane_policy C (c\<lparr>ct_metrics := m\<rparr>) = sane_policy C c" "sane_policy C (c\<lparr>ct_statsCache := x\<rparr>) = sane_policy C c"
  "sane_policy C (c\<lparr>ct_lastReconcile := t\<rparr>) = sane_policy C c"
  by (simp_all add: sane_policy_def Capacity_def)

definition roomy :: "int \<Rightarrow> room \<Rightarrow> bool" where
  "roomy C r \<longleftrightarrow> active_count r \<le> C \<and> (\<forall>n. override r = Some n \<longrightarrow> n \<le> C)"

text \<open>What a call may ask for.\<close>

definition modest :: "int \<Rightarrow> call \<Rightarrow> bool" where
  "modest C c \<longleftrightarrow> (\<forall>cap. call_cap c = Some cap \<longrightarrow> cap \<le> C) \<and> (\<forall>n. c = CSetCapacity n \<longrightarrow> n \<le> C)"

lemma roomy_exec:
  assumes "room_inv r" "roomy C r" "modest C c"
  shows "roomy C (room_exec ck c r)"
  using active_count_exec [OF assms(1), of ck c] assms(2,3)
  by (auto simp: roomy_def modest_def override_exec split: option.splits call.splits)

section \<open>A store shared with others\<close>

fun call_returns :: "'s store_ops \<Rightarrow> call \<Rightarrow> 's \<Rightarrow> bool" where
  "call_returns ops (CTryAdmit i cap now) s = (fst (op_TryAdmit ops i cap now s) \<noteq> Panic)"
| "call_returns ops (CEnqueue i now) s = (fst (op_Enqueue ops i now s) \<noteq> Panic)"
| "call_returns ops (CLookup i now) s = (fst (op_Lookup ops i now s) \<noteq> Panic)"
| "call_returns ops (CTouch i now) s = (fst (op_Touch ops i now s) \<noteq> Panic)"
| "call_returns ops (CReconcile cap aTTL qTTL now) s = (fst (op_Reconcile ops cap aTTL qTTL now s) \<noteq> Panic)"
| "call_returns ops CStats s = (fst (op_Stats ops s) \<noteq> Panic)"
| "call_returns ops (CSetCapacity n) s = (fst (op_SetCapacity ops n s) \<noteq> Panic)"
| "call_returns ops CGetCapacity s = (fst (op_GetCapacity ops s) \<noteq> Panic)"
| "call_returns ops CFlush s = (fst (op_Flush ops s) \<noteq> Panic)"

text \<open>
  All the controller needs: a call returns and keeps the shared state sound, and what it reads as the
  override is within the bound. A call costs at most \<open>w\<close> tickets of the budget, counting what
  others number meanwhile.
\<close>

locale shared_store =
  fixes ops :: "'e \<Rightarrow> 's store_ops"
    and legal :: "'e \<Rightarrow> bool"
    and sound :: "int \<Rightarrow> 's \<Rightarrow> bool"
    and budget :: "'s \<Rightarrow> nat"
    and w :: nat
  assumes some_cost: "0 < w"
    and call_keeps: "legal e \<Longrightarrow> sound C s \<Longrightarrow> w \<le> budget s \<Longrightarrow> modest C q \<Longrightarrow>
          call_returns (ops e) q s \<and> sound C (store_exec (ops e) q s) \<and>
          budget s \<le> budget (store_exec (ops e) q s) + w"
    and reads_modest: "legal e \<Longrightarrow> sound C s \<Longrightarrow> w \<le> budget s \<Longrightarrow>
          fst (op_GetCapacity (ops e) s) = Ok (n, True) \<Longrightarrow> n \<le> C"
begin

definition steady :: "int \<Rightarrow> 's controller \<Rightarrow> bool" where
  "steady C c \<longleftrightarrow> sound C (ct_store c) \<and> sane_policy C c"

text \<open>A controller that can still afford \<open>k\<close> calls, before and after a part of a request.\<close>

definition affords :: "int \<Rightarrow> nat \<Rightarrow> 's controller \<Rightarrow> bool" where
  "affords C k c \<longleftrightarrow> steady C c \<and> k * w \<le> budget (ct_store c)"

definition leaves :: "int \<Rightarrow> nat \<Rightarrow> 'a result \<times> 's controller \<Rightarrow> bool" where
  "leaves C k out \<longleftrightarrow> fst out \<noteq> Panic \<and> affords C k (snd out)"

lemma leaves_pair [simp]: "leaves C k (r, c) \<longleftrightarrow> r \<noteq> Panic \<and> affords C k c"
  by (simp add: leaves_def)

lemma affords_frame [simp]:
  "affords C k (c\<lparr>ct_reads := n\<rparr>) = affords C k c" "affords C k (c\<lparr>ct_metrics := m\<rparr>) = affords C k c"
  "affords C k (c\<lparr>ct_statsCache := x\<rparr>) = affords C k c" "affords C k (c\<lparr>ct_lastReconcile := t\<rparr>) = affords C k c"
  by (simp_all add: affords_def steady_def)

lemma affords_mono: "affords C n c \<Longrightarrow> k \<le> n \<Longrightarrow> affords C k c"
  unfolding affords_def by (meson le_trans mult_le_mono1)

lemma affords_less: "affords C (Suc k) c \<Longrightarrow> affords C k c"
  by (erule affords_mono) simp

lemma affords_capacity:
  "affords C k c \<Longrightarrow> Capacity c \<le> C" "affords C k c \<Longrightarrow> 1 \<le> Capacity c"
  by (simp_all add: affords_def steady_def sane_policy_def)

lemma affords_set_capacity: "affords C k c \<Longrightarrow> 1 \<le> n \<Longrightarrow> n \<le> C \<Longrightarrow> affords C k (c\<lparr>ct_capacity := n\<rparr>)"
  by (simp add: affords_def steady_def sane_policy_def Capacity_def)

lemma leaves_less: "leaves C (Suc k) out \<Longrightarrow> leaves C k out"
  by (auto simp: leaves_def intro: affords_less)

lemma leaves_then:
  assumes "leaves C n m" "\<And>v c. m = (Ok v, c) \<Longrightarrow> affords C n c \<Longrightarrow> leaves C k (f v c)" "k \<le> n"
  shows "leaves C k (and_then m f)"
proof -
  obtain r c where m: "m = (r, c)" by fastforce
  show ?thesis using assms by (cases r) (auto simp: m intro: affords_mono)
qed

text \<open>One call of the store.\<close>

lemma leaves_call:
  assumes "legal e" "affords C (Suc k) c" "modest C q"
    and "snd out = c\<lparr>ct_store := store_exec (ops e) q (ct_store c)\<rparr>"
    and "call_returns (ops e) q (ct_store c) \<Longrightarrow> fst out \<noteq> Panic"
  shows "leaves C k out"
proof -
  have "sound C (ct_store c)" "w \<le> budget (ct_store c)" using assms(2) by (simp_all add: affords_def steady_def)
  from call_keeps [OF assms(1) this assms(3)] assms(2,4,5) show ?thesis
    by (simp add: leaves_def affords_def steady_def)
qed

lemma on_store_parts: "fst (on_store f c) = fst (f (ct_store c))" "snd (on_store f c) = c\<lparr>ct_store := snd (f (ct_store c))\<rparr>"
  by (simp_all add: on_store_def split_beta Let_def)

lemma leaves_calls:
  assumes "legal e" "affords C (Suc k) c"
  shows "cap \<le> C \<Longrightarrow> leaves C k (on_store (op_TryAdmit (ops e) i cap now) c)"
    and "leaves C k (on_store (op_Lookup (ops e) i now) c)"
    and "leaves C k (on_store (op_Touch (ops e) i now) c)"
    and "cap \<le> C \<Longrightarrow> leaves C k (on_store (op_Reconcile (ops e) cap aTTL qTTL now) c)"
    and "leaves C k (on_store (op_Stats (ops e)) c)"
    and "n \<le> C \<Longrightarrow> leaves C k (on_store (op_SetCapacity (ops e) n) c)"
    and "leaves C k (on_store (op_GetCapacity (ops e)) c)"
    and "leaves C k (on_store (op_Flush (ops e)) c)"
    and "leaves C k (on_store (op_Enqueue (ops e) i now) c)"
proof -
  note L = leaves_call [OF assms] and P = on_store_parts modest_def
  show "cap \<le> C \<Longrightarrow> leaves C k (on_store (op_TryAdmit (ops e) i cap now) c)"
    by (rule L [of "CTryAdmit i cap now"]) (simp_all add: P)
  show "leaves C k (on_store (op_Lookup (ops e) i now) c)" by (rule L [of "CLookup i now"]) (simp_all add: P)
  show "leaves C k (on_store (op_Touch (ops e) i now) c)" by (rule L [of "CTouch i now"]) (simp_all add: P)
  show "cap \<le> C \<Longrightarrow> leaves C k (on_store (op_Reconcile (ops e) cap aTTL qTTL now) c)"
    by (rule L [of "CReconcile cap aTTL qTTL now"]) (simp_all add: P)
  show "leaves C k (on_store (op_Stats (ops e)) c)" by (rule L [of CStats]) (simp_all add: P)
  show "n \<le> C \<Longrightarrow> leaves C k (on_store (op_SetCapacity (ops e) n) c)"
    by (rule L [of "CSetCapacity n"]) (simp_all add: P)
  show "leaves C k (on_store (op_GetCapacity (ops e)) c)" by (rule L [of CGetCapacity]) (simp_all add: P)
  show "leaves C k (on_store (op_Flush (ops e)) c)" by (rule L [of CFlush]) (simp_all add: P)
  show "leaves C k (on_store (op_Enqueue (ops e) i now) c)" by (rule L [of "CEnqueue i now"]) (simp_all add: P)
qed

section \<open>The methods\<close>

lemma leaves_reconcile:
  assumes "legal e" "affords C (Suc k) c"
  shows "leaves C k (ctl_reconcile (ops e) now c)"
  unfolding ctl_reconcile_def
  by (rule leaves_then [where n = k, OF leaves_calls(4) [OF assms(1)]])
    (use assms(2) affords_capacity(1) [OF assms(2)] in simp_all)

lemma leaves_maybeReconcile:
  assumes "legal e" "affords C (Suc k) c"
  shows "leaves C k (maybeReconcile (ops e) now c)"
  using leaves_reconcile [OF assms(1)] assms(2) affords_less by (simp add: maybeReconcile_def Let_def)

lemma leaves_etaStats:
  assumes "legal e" "affords C (Suc k) c"
  shows "leaves C k (etaStats (ops e) c)"
proof -
  have "leaves C k (and_then (on_store (op_Stats (ops e)) (c\<lparr>ct_reads := n\<rparr>))
      (\<lambda>st c. (Ok st, c\<lparr>ct_statsCache := Some (st, now)\<rparr>)))" for n now
    by (rule leaves_then [where n = k, OF leaves_calls(5) [OF assms(1)]]) (use assms(2) in simp_all)
  with leaves_calls(5) [OF assms] affords_less [OF assms(2)] show ?thesis
    by (auto simp: etaStats_def read_clock_def Let_def split: option.splits prod.splits)
qed

lemma leaves_eta:
  assumes "legal e" "affords C (Suc k) c"
  shows "leaves C k (eta (ops e) pos c)"
proof -
  obtain st c' where st: "etaStats (ops e) c = (st, c')" by fastforce
  have "st \<noteq> Panic" "affords C k c'" using leaves_etaStats [OF assms] by (simp_all add: st)
  with affords_capacity(2) [of C k c'] show ?thesis by (simp add: eta_def st eta_value_def)
qed

lemma leaves_mk_result:
  assumes "legal e" "affords C (Suc k) c"
  shows "leaves C k (mk_result (ops e) d snap c)"
proof -
  have "leaves C k (and_then (eta (ops e) pos c) (\<lambda>x c. (Ok (f x), c)))" for pos and f :: "dur \<Rightarrow> qresult"
    by (rule leaves_then [OF leaves_eta [OF assms]]) simp_all
  then show ?thesis using affords_less [OF assms(2)] by (simp add: mk_result_def Let_def)
qed

lemma leaves_visit:
  assumes "legal e" "affords C (Suc (Suc (Suc k))) c"
  shows "leaves C k (check_switch (ops e) i now snap c)"
proof -
  note mk = leaves_mk_result [OF assms(1)] and less = affords_less [OF assms(2)] affords_less [OF affords_less [OF assms(2)]]
  have "leaves C k (and_then (on_store (op_Enqueue (ops e) i now) c1) (\<lambda>snap c. mk_result (ops e) DecisionWait snap c))"
    if "affords C (Suc (Suc k)) c1" for c1
    by (rule leaves_then [OF leaves_calls(9) [OF assms(1) that]]) (simp_all add: mk)
  moreover have "leaves C k (mk_result (ops e) DecisionProxy sn (c1\<lparr>ct_metrics := m\<rparr>))"
    if "affords C (Suc (Suc k)) c1" for c1 sn m
    by (rule mk) (simp add: affords_less [OF that])
  ultimately have "leaves C k (and_then (on_store (op_TryAdmit (ops e) i (Capacity c) now) c) (\<lambda>admitted c.
        if admitted then mk_result (ops e) DecisionProxy
               (snap\<lparr>sn_Status := StatusActive, sn_ActiveCount := sn_ActiveCount snap + 1\<rparr>)
               (c\<lparr>ct_metrics := ObserveAdmission 0 (ct_metrics c)\<rparr>)
        else and_then (on_store (op_Enqueue (ops e) i now) c) (\<lambda>snap c. mk_result (ops e) DecisionWait snap c)))"
    by (intro leaves_then [OF leaves_calls(1) [OF assms affords_capacity(1) [OF assms(2)]]]) simp_all
  moreover have "leaves C k (and_then (on_store (op_Touch (ops e) i now) c) (\<lambda>_ c. mk_result (ops e) DecisionProxy snap c))"
    by (rule leaves_then [OF leaves_calls(3) [OF assms(1) less(1)]]) (simp_all add: mk)
  ultimately show ?thesis
    unfolding check_switch_def using mk [OF less(2)] by (cases "sn_Status snap") simp_all
qed

lemma leaves_Check:
  assumes "legal e" "affords C (k + 5) c"
  shows "leaves C k (Check (ops e) i c)"
proof -
  let ?now = "ct_clock c (ct_reads c)" and ?c = "c\<lparr>ct_reads := ct_reads c + 1\<rparr>"
  have "affords C (Suc (Suc (Suc (Suc (Suc k))))) ?c" using assms(2) by (simp add: eval_nat_numeral)
  note r = leaves_maybeReconcile [OF assms(1) this, of ?now]
  have "leaves C k (and_then (maybeReconcile (ops e) ?now ?c) (\<lambda>_ c.
      and_then (on_store (op_Lookup (ops e) i ?now) c) (\<lambda>snap c. check_switch (ops e) i ?now snap c)))"
    by (rule leaves_then [OF r], rule leaves_then [where n = "Suc (Suc (Suc k))", OF leaves_calls(2) [OF assms(1)]])
      (simp_all add: leaves_visit [OF assms(1)])
  then show ?thesis by (simp add: Check_switch read_clock_def)
qed

lemma leaves_StatusOf:
  assumes "legal e" "affords C (k + 3) c"
  shows "leaves C k (StatusOf (ops e) i c)"
proof -
  let ?now = "ct_clock c (ct_reads c)" and ?c = "c\<lparr>ct_reads := ct_reads c + 1\<rparr>"
  have "affords C (Suc (Suc (Suc k))) ?c" using assms(2) by (simp add: eval_nat_numeral)
  note r = leaves_maybeReconcile [OF assms(1) this, of ?now]
  have "leaves C k (and_then (maybeReconcile (ops e) ?now ?c) (\<lambda>_ c.
      and_then (on_store (op_Lookup (ops e) i ?now) c) (\<lambda>snap c.
        case sn_Status snap of
           StatusActive \<Rightarrow> mk_result (ops e) DecisionProxy snap c
         | StatusUnknown \<Rightarrow>
             if sn_ActiveCount snap < Capacity c \<and> sn_QueueLength snap = 0
             then mk_result (ops e) DecisionProxy snap c
             else mk_result (ops e) DecisionWait (snap\<lparr>sn_Position := sn_QueueLength snap + 1\<rparr>) c
         | StatusQueued \<Rightarrow> mk_result (ops e) DecisionWait snap c)))"
    by (rule leaves_then [OF r], rule leaves_then [where n = "Suc k", OF leaves_calls(2) [OF assms(1)]])
      (simp_all add: leaves_mk_result [OF assms(1)] split: status.splits)
  then show ?thesis by (simp add: StatusOf_def read_clock_def)
qed

lemma leaves_refreshCapacity:
  assumes "legal e" "affords C (Suc k) c"
  shows "leaves C k (refreshCapacity (ops e) c)"
proof -
  obtain out c' where out: "on_store (op_GetCapacity (ops e)) c = (out, c')" by fastforce
  have k: "out \<noteq> Panic" "affords C k c'" using leaves_calls(7) [OF assms] by (simp_all add: out)
  have own: "1 \<le> cfg_Capacity (ct_cfg c')" "cfg_Capacity (ct_cfg c') \<le> C"
    using k(2) by (simp_all add: affords_def steady_def sane_policy_def)
  show ?thesis
  proof (cases out)
    case (Ok x)
    obtain n isset where x: "x = (n, isset)" by fastforce
    have "sound C (ct_store c)" "w \<le> budget (ct_store c)" using assms(2) by (simp_all add: affords_def steady_def)
    from reads_modest [OF assms(1) this, of n] have "isset \<Longrightarrow> n \<le> C"
      using on_store_parts(1) [of "op_GetCapacity (ops e)" c] by (simp add: out Ok x)
    then show ?thesis
      using k own by (simp add: refreshCapacity_def out Ok x affords_set_capacity)
  qed (use k in \<open>simp_all add: refreshCapacity_def out\<close>)
qed

lemma leaves_janitor_tick:
  assumes "legal e" "affords C (Suc (Suc k)) c"
  shows "leaves C k (janitor_tick (ops e) c)"
  unfolding janitor_tick_def
proof (rule leaves_then [OF leaves_refreshCapacity [OF assms]])
  fix c1 assume "affords C (Suc k) c1"
  then have "affords C (Suc k) (snd (read_clock c1))" by (simp add: read_clock_def)
  from leaves_reconcile [OF assms(1) this, of "fst (read_clock c1)"]
  show "leaves C k (let (now, c) = read_clock c1
      in case ctl_reconcile (ops e) now c of (Err e, c') \<Rightarrow> (Ok (), c') | out \<Rightarrow> out)"
    by (auto simp: read_clock_def Let_def split: prod.splits result.splits)
qed simp

lemma leaves_SetCapacity:
  assumes "legal e" "affords C (Suc k) c" "n \<le> C"
  shows "leaves C k (ctl_SetCapacity (ops e) n c)"
proof (cases "n < 1")
  case False
  have "leaves C k (and_then (on_store (op_SetCapacity (ops e) n) c) (\<lambda>_ c. (Ok (), c\<lparr>ct_capacity := n\<rparr>)))"
    by (rule leaves_then [OF leaves_calls(6) [OF assms]])
      (use False assms(3) in \<open>simp_all add: affords_set_capacity\<close>)
  then show ?thesis using False by (simp add: ctl_SetCapacity_def)
qed (use affords_less [OF assms(2)] in \<open>simp add: ctl_SetCapacity_def\<close>)

section \<open>The controller is a service\<close>

text \<open>No request makes more than five calls.\<close>

definition rounds :: "'s \<Rightarrow> nat" where
  "rounds s = budget s div (5 * w)"

lemma affords_rounds: "steady C c \<Longrightarrow> affords C (5 * rounds (ct_store c)) c"
  using div_times_less_eq_dividend [of "budget (ct_store c)" "5 * w"]
  by (simp add: affords_def rounds_def algebra_simps)

lemma rounds_affords: "affords C (5 * n) c \<Longrightarrow> n \<le> rounds (ct_store c)"
  using some_cost by (simp add: affords_def rounds_def less_eq_div_iff_mult_less_eq algebra_simps)

lemma leaves_serve:
  assumes "legal e" "affords C (k + 5) c" "\<And>n. q = RSetCapacity n \<Longrightarrow> n \<le> C"
  shows "fst (serve (ops e) q c) \<and> affords C k (snd (serve (ops e) q c))"
proof -
  have le: "affords C m c" if "m \<le> k + 5" for m using affords_mono [OF assms(2) that] .
  show ?thesis
    using leaves_Check [OF assms(1,2)] leaves_StatusOf [OF assms(1), of C k] leaves_janitor_tick [OF assms(1), of C k]
      leaves_SetCapacity [OF assms(1), of C k] leaves_calls(5,8) [OF assms(1), of C k] assms(3) le
    by (cases q) (simp_all add: no_panic_def leaves_def ctl_Stats_def ctl_Flush_def)
qed

lemma steady_service: "controller_service ops legal steady rounds"
proof
  fix C c d e q
  show "steady C c \<Longrightarrow> steady C (snd (read_clock c))" by (simp add: read_clock_def steady_def)
  show "steady C c \<Longrightarrow> steady C (c\<lparr>ct_metrics := IncRequest d (ct_metrics c)\<rparr>)" by (simp add: steady_def)
  show "fst (serve (ops e) q c) \<and> steady C (snd (serve (ops e) q c)) \<and>
      rounds (ct_store c) \<le> rounds (ct_store (snd (serve (ops e) q c))) + 1"
    if "legal e" "steady C c" "0 < rounds (ct_store c)" "\<And>n. q = RSetCapacity n \<Longrightarrow> n \<le> C"
  proof -
    let ?k = "5 * (rounds (ct_store c) - 1)"
    have "affords C (?k + 5) c" using affords_rounds [OF that(2)] that(3) by (simp add: algebra_simps)
    from leaves_serve [OF that(1) this, of q] that(4) rounds_affords show ?thesis
      by (fastforce simp: affords_def)
  qed
qed

end

section \<open>Calls of others in between\<close>

text \<open>
  What happens when a call is made, chosen per call: first the calls of others that take effect since
  the last one, then the call itself with its own environment.
\<close>

type_synonym 'e turn = "('e \<times> call) list \<times> 'e"

definition after_others ::
  "('e \<Rightarrow> 's store_ops) \<Rightarrow> (call \<Rightarrow> 'e turn) \<Rightarrow> call \<Rightarrow> ('s store_ops \<Rightarrow> 's \<Rightarrow> 'a) \<Rightarrow> 's \<Rightarrow> 'a" where
  "after_others ops f q run s = run (ops (snd (f q))) (store_run ops (fst (f q)) s)"

definition amid :: "('e \<Rightarrow> 's store_ops) \<Rightarrow> (call \<Rightarrow> 'e turn) \<Rightarrow> 's store_ops" where
  "amid ops f = \<lparr>
     op_TryAdmit = (\<lambda>i cap now. after_others ops f (CTryAdmit i cap now) (\<lambda>o'. op_TryAdmit o' i cap now)),
     op_Enqueue = (\<lambda>i now. after_others ops f (CEnqueue i now) (\<lambda>o'. op_Enqueue o' i now)),
     op_Lookup = (\<lambda>i now. after_others ops f (CLookup i now) (\<lambda>o'. op_Lookup o' i now)),
     op_Touch = (\<lambda>i now. after_others ops f (CTouch i now) (\<lambda>o'. op_Touch o' i now)),
     op_Reconcile = (\<lambda>cap aTTL qTTL now. after_others ops f (CReconcile cap aTTL qTTL now)
                       (\<lambda>o'. op_Reconcile o' cap aTTL qTTL now)),
     op_Stats = after_others ops f CStats op_Stats,
     op_SetCapacity = (\<lambda>n. after_others ops f (CSetCapacity n) (\<lambda>o'. op_SetCapacity o' n)),
     op_GetCapacity = after_others ops f CGetCapacity op_GetCapacity,
     op_Flush = after_others ops f CFlush op_Flush\<rparr>"

lemma amid_exec: "store_exec (amid ops f) q s = store_exec (ops (snd (f q))) q (store_run ops (fst (f q)) s)"
  by (cases q) (simp_all add: amid_def after_others_def)

lemma amid_returns: "call_returns (amid ops f) q s = call_returns (ops (snd (f q))) q (store_run ops (fst (f q)) s)"
  by (cases q) (simp_all add: amid_def after_others_def)

context room_store
begin

definition sound :: "int \<Rightarrow> 's \<Rightarrow> bool" where
  "sound C s \<longleftrightarrow> inv s \<and> roomy C (view s)"

lemma sound_exec:
  assumes "legal e" "sound C s" "modest C q" "0 < budget s"
  shows "sound C (store_exec (ops e) q s)"
proof -
  have s: "inv s" "roomy C (view s)" using assms(2) by (simp_all add: sound_def)
  from exec_step [OF assms(1) s(1) assms(4), of q] roomy_exec [OF abs_room [OF s(1)] s(2) assms(3), of ck]
    keeps_inv [OF assms(1) s(1) assms(4)] s(2)
  show ?thesis by (auto simp: sound_def)
qed

lemma meets_no_panic: "meets view s out spec \<Longrightarrow> fst out \<noteq> Panic"
  by (auto simp: meets_def)

lemma exec_returns:
  assumes "legal e" "inv s" "0 < budget s"
  shows "call_returns (ops e) q s"
  using meets_no_panic [OF TryAdmit_law [OF assms(1,2)]] meets_no_panic [OF Enqueue_law [OF assms]]
    meets_no_panic [OF Lookup_law [OF assms(1,2)]] meets_no_panic [OF Touch_law [OF assms(1,2)]]
    meets_no_panic [OF Reconcile_law [OF assms(1,2)]] meets_no_panic [OF SetCapacity_law [OF assms(1,2)]]
    meets_no_panic [OF Flush_law [OF assms(1,2)]] Stats_law [OF assms(1,2)] GetCapacity_law [OF assms(1,2)]
  by (cases q) simp_all

text \<open>What others may do: at most \<open>k\<close> calls before each of ours, with capacities up to \<open>M\<close>.\<close>

definition orderly :: "int \<Rightarrow> nat \<Rightarrow> (call \<Rightarrow> 'e turn) \<Rightarrow> bool" where
  "orderly M k f \<longleftrightarrow> (\<forall>q. legal (snd (f q)) \<and> length (fst (f q)) \<le> k \<and>
     (\<forall>(e, q') \<in> set (fst (f q)). legal e \<and> modest M q'))"

lemma others_keep:
  assumes "sound C s" "length cs \<le> budget s" "\<forall>(e, q) \<in> set cs. legal e \<and> modest C q"
  shows "sound C (store_run ops cs s) \<and> budget s \<le> budget (store_run ops cs s) + length cs"
  using assms
proof (induction cs arbitrary: s)
  case (Cons x cs)
  obtain e q where x: "x = (e, q)" by fastforce
  have e: "legal e" "modest C q" and pos: "0 < budget s" and inv: "inv s"
    using Cons.prems by (auto simp: x sound_def)
  note b = exec_budget [OF e(1) inv, of q]
  with Cons.IH [of "store_exec (ops e) q s"] sound_exec [OF e(1) Cons.prems(1) e(2) pos] Cons.prems(2,3)
  show ?case by (simp add: x)
qed simp

lemma others_turn:
  assumes "orderly M k f" "M \<le> C" "sound C s" "k + 1 \<le> budget s"
  shows "legal (snd (f q))" "sound C (store_run ops (fst (f q)) s)" "0 < budget (store_run ops (fst (f q)) s)"
    "budget s \<le> budget (store_run ops (fst (f q)) s) + k"
proof -
  have f: "legal (snd (f q))" "length (fst (f q)) \<le> k" "\<forall>(e, q') \<in> set (fst (f q)). legal e \<and> modest M q'"
    using assms(1) by (simp_all add: orderly_def)
  have "\<forall>(e, q') \<in> set (fst (f q)). legal e \<and> modest C q'"
    using f(3) assms(2) by (fastforce simp: modest_def)
  from others_keep [OF assms(3) _ this] f(1,2) assms(4)
  show "legal (snd (f q))" "sound C (store_run ops (fst (f q)) s)" "0 < budget (store_run ops (fst (f q)) s)"
    "budget s \<le> budget (store_run ops (fst (f q)) s) + k" by linarith+
qed

lemma amid_shared: "shared_store (amid ops) (orderly M k) (\<lambda>C s. M \<le> C \<and> sound C s) budget (Suc k)"
proof
  fix f C s q n
  assume f: "orderly M k f" and s: "M \<le> C \<and> sound C s" and b: "Suc k \<le> budget s"
  have "k + 1 \<le> budget s" using b by simp
  note T = others_turn [OF f conjunct1 [OF s] conjunct2 [OF s] this]
  have inv: "inv (store_run ops (fst (f q)) s)" for q using T(2) by (simp add: sound_def)
  show "call_returns (amid ops f) q s \<and> (M \<le> C \<and> sound C (store_exec (amid ops f) q s)) \<and>
      budget s \<le> budget (store_exec (amid ops f) q s) + Suc k" if "modest C q"
    using sound_exec [OF T(1,2) that T(3)] exec_returns [OF T(1) inv T(3)] T(4) [of q] s
      exec_budget [OF T(1) inv, where c = q, of q q]
    by (simp add: amid_exec amid_returns)
  assume "fst (op_GetCapacity (amid ops f) s) = Ok (n, True)"
  then have "fst (op_GetCapacity (ops (snd (f CGetCapacity))) (store_run ops (fst (f CGetCapacity)) s)) = Ok (n, True)"
    by (simp add: amid_def after_others_def)
  then have "override (view (store_run ops (fst (f CGetCapacity)) s)) = Some n"
    using GetCapacity_law [OF T(1) inv, of CGetCapacity CGetCapacity] by fastforce
  with T(2) show "n \<le> C" by (simp add: sound_def roomy_def)
qed simp

end

section \<open>A ticket admitted in between\<close>

text \<open>
  \<open>Check\<close> answers the line also to a ticket that got inside between its \<open>TryAdmit\<close> and its \<open>Enqueue\<close>
  (two requests of one visitor): it does not look at the status that \<open>Enqueue\<close> reports, and the
  position it shows is then 0. The visitor is let in at his next request.
\<close>

context reliable_store
begin

lemma late_admission_waits:
  fixes f :: "call \<Rightarrow> 'a turn" and i :: string and now :: time
  defines "s1 \<equiv> \<lambda>c. snd (op_TryAdmit (amid ops f) i (Capacity c) now (ct_store c))"
  defines "s2 \<equiv> \<lambda>c. store_run ops (fst (f (CEnqueue i now))) (s1 c)"
  assumes "sn_Status snap = StatusUnknown"
    and "fst (op_TryAdmit (amid ops f) i (Capacity c) now (ct_store c)) = Ok False"
    and "legal (snd (f (CEnqueue i now)))" "inv (s2 c)" "0 < budget (s2 c)" "is_active (view (s2 c)) i"
  shows "\<exists>res c'. check_switch (amid ops f) i now snap c = (Ok res, c') \<and>
    q_Decision res = DecisionWait \<and> q_Position res = 0 \<and> is_active (view (ct_store c')) i"
proof -
  let ?out = "op_Enqueue (ops (snd (f (CEnqueue i now)))) i now (s2 c)"
  have enq: "op_Enqueue (amid ops f) i now (s1 c) = ?out"
    by (simp add: amid_def after_others_def s2_def)
  note law = meets_ok [OF Enqueue_law [OF assms(5-7)] Enqueue_ok [OF assms(5-7)]]
  obtain v s3 where out: "?out = (v, s3)" by fastforce
  have "is_active (snd (room_Enqueue ck i t r)) i \<and> fst (room_Enqueue ck i t r) = room_snapshot (snd (room_Enqueue ck i t r)) i"
    if "is_active r i" for t r
    using that by (auto simp: room_Enqueue_def Let_def is_active_def refresh_session_def split: option.splits)
  note room = this [OF assms(8)]
  have v: "v = Ok (room_snapshot (view s3) i)" and act: "is_active (view s3) i"
    using law [of i now] room [of "ck_stamp ck now"] by (simp_all add: out)
  have "sn_Position (room_snapshot (view s3) i) = 0"
    using act by (simp add: room_snapshot_def room_status_def)
  moreover have "check_switch (amid ops f) i now snap c =
      mk_result (amid ops f) DecisionWait (room_snapshot (view s3) i) (c\<lparr>ct_store := s3\<rparr>)"
    using assms(3,4) enq out v
    by (simp add: check_switch_def on_store_def s1_def split_beta Let_def)
  ultimately show ?thesis using act by (simp add: mk_result_def Let_def)
qed

end

end
