(* ===== verification/Fleet.thy ===== *)
theory Fleet
  imports GowaitProps ControllerFaults
begin

text \<open>
  Several gowait processes on one shared store. Each replica is a site of its own (\<open>Gowait\<close>); the
  store is the one thing they share. Replicas join and leave at any time, requests and ticks reach
  them in any order, and leases lapse on the server by themselves. The steps are an inductive
  relation, and a run is a sequence of labelled steps. A step is one replica's; what the others do
  to the store while it runs is in the operations it is given (\<open>amid\<close> of \<open>ControllerFaults\<close>).
\<close>

section \<open>Replicas and their steps\<close>

definition site_store :: "'s site \<Rightarrow> 's" where
  "site_store si = ct_store (sv_ctrl (si_server si))"

definition put_store :: "'s \<Rightarrow> 's site \<Rightarrow> 's site" where
  "put_store s si = si\<lparr>si_server := (si_server si)\<lparr>sv_ctrl := (sv_ctrl (si_server si))\<lparr>ct_store := s\<rparr>\<rparr>\<rparr>"

record 's fleet =
  fl_store :: 's
  fl_sites :: "'s site list"

text \<open>A label says what happens, and whether it was dealt with (\<open>site_step\<close>).\<close>

datatype ('s, 'tmpl) fleet_event =
    Serve nat "'s request_env" event bool
  | Join "('s, 'tmpl) boot"
  | Leave nat
  | Lapse

inductive fleet_step ::
  "('s \<Rightarrow> 's \<Rightarrow> bool) \<Rightarrow> 's fleet \<Rightarrow> ('s, 'tmpl) fleet_event \<Rightarrow> 's fleet \<Rightarrow> bool"
  for lapse :: "'s \<Rightarrow> 's \<Rightarrow> bool"
where
  serve: "k < length (fl_sites fl) \<Longrightarrow> site_step env ev (put_store (fl_store fl) (fl_sites fl ! k)) = (ok, si) \<Longrightarrow>
    fleet_step lapse fl (Serve k env ev ok) \<lparr>fl_store = site_store si, fl_sites = (fl_sites fl)[k := si]\<rparr>"
| join: "start b = Ok si \<Longrightarrow>
    fleet_step lapse fl (Join b) (fl\<lparr>fl_sites := fl_sites fl @ [si]\<rparr>)"
| leave: "fleet_step lapse fl (Leave k) (fl\<lparr>fl_sites := take k (fl_sites fl) @ drop (k + 1) (fl_sites fl)\<rparr>)"
| lapse: "lapse (fl_store fl) s \<Longrightarrow> fleet_step lapse fl Lapse (fl\<lparr>fl_store := s\<rparr>)"

inductive_cases serveE: "fleet_step lapse fl (Serve k env ev ok) fl'"
inductive_cases joinE: "fleet_step lapse fl (Join b) fl'"
inductive_cases leaveE: "fleet_step lapse fl (Leave k) fl'"
inductive_cases lapseE: "fleet_step lapse fl Lapse fl'"

inductive fleet_run ::
  "('s \<Rightarrow> 's \<Rightarrow> bool) \<Rightarrow> 's fleet \<Rightarrow> ('s, 'tmpl) fleet_event list \<Rightarrow> 's fleet \<Rightarrow> bool"
  for lapse :: "'s \<Rightarrow> 's \<Rightarrow> bool"
where
  stop: "fleet_run lapse fl [] fl"
| more: "fleet_run lapse fl evs fl' \<Longrightarrow> fleet_step lapse fl' ev fl'' \<Longrightarrow> fleet_run lapse fl (evs @ [ev]) fl''"

definition served_events :: "('s, 'tmpl) fleet_event list \<Rightarrow> nat" where
  "served_events evs = length (filter (\<lambda>ev. case ev of Serve k env e ok \<Rightarrow> True | _ \<Rightarrow> False) evs)"

lemma served_events_simps [simp]:
  "served_events [] = 0"
  "served_events (evs @ [ev]) = served_events evs + (case ev of Serve k env e ok \<Rightarrow> 1 | _ \<Rightarrow> 0)"
  by (simp_all add: served_events_def split: fleet_event.split)

lemma site_store_put [simp]: "site_store (put_store s si) = s"
  by (simp add: site_store_def put_store_def)

section \<open>No fleet overfills its room\<close>

text \<open>A replica's own part of the invariant.\<close>

definition modest_site :: "int \<Rightarrow> 's site \<Rightarrow> bool" where
  "modest_site C si \<longleftrightarrow> sane_policy C (sv_ctrl (si_server si)) \<and>
     (\<forall>p. si_prober si = Some p \<longrightarrow> pr_Max (p_cfg p) \<le> C)"

lemma modest_site_put [simp]: "modest_site C (put_store s si) = modest_site C si"
  by (simp add: modest_site_def put_store_def)

lemma modest_start:
  assumes "start b = Ok si" "c_Capacity (sv_cfg (si_server si)) \<le> C" "c_ProbeMax (sv_cfg (si_server si)) \<le> C"
  shows "modest_site C si"
proof -
  let ?cfg = "sv_cfg (si_server si)"
  have "1 \<le> c_Capacity ?cfg" using load_sound [OF start_parts(2) [OF assms(1)]] by simp
  moreover obtain s where "sv_ctrl (si_server si) = start_controller b ?cfg s"
    using start_parts(1) [OF assms(1)] by blast
  ultimately show ?thesis
    using assms(2,3) start_parts(3) [OF assms(1)]
    by (auto simp: modest_site_def sane_policy_def start_controller_def new_controller_def SetMetrics_def
        Capacity_def queue_config_def Let_def start_prober_def new_prober_def split: if_splits)
qed

sublocale shared_store \<subseteq> service: controller_service ops legal steady rounds
  by (rule steady_service)

context shared_store
begin

lemma service_site_bounded: "service.site_bounded C si \<longleftrightarrow> sound C (site_store si) \<and> modest_site C si"
  by (simp add: service.site_bounded_def steady_def modest_site_def site_store_def)

definition fleet_ok :: "int \<Rightarrow> 's fleet \<Rightarrow> bool" where
  "fleet_ok C fl \<longleftrightarrow> sound C (fl_store fl) \<and> (\<forall>si \<in> set (fl_sites fl). modest_site C si)"

text \<open>What the environment of a fleet may do.\<close>

definition polite :: "int \<Rightarrow> ('s, 'tmpl) fleet_event \<Rightarrow> bool" where
  "polite C ev \<longleftrightarrow> (case ev of
     Serve k env e ok \<Rightarrow> service.allowed C True (env, e)
   | Join b \<Rightarrow> (\<forall>si. start b = Ok si \<longrightarrow>
       c_Capacity (sv_cfg (si_server si)) \<le> C \<and> c_ProbeMax (sv_cfg (si_server si)) \<le> C)
   | _ \<Rightarrow> True)"

definition silent :: "('s \<Rightarrow> 's \<Rightarrow> bool) \<Rightarrow> bool" where
  "silent lapse \<longleftrightarrow> (\<forall>C s s'. lapse s s' \<longrightarrow> sound C s \<longrightarrow> sound C s' \<and> rounds s \<le> rounds s')"

lemma fleet_step_ok:
  assumes "fleet_step lapse fl ev fl'" "silent lapse" "polite C ev" "fleet_ok C fl"
    and "(case ev of Serve k env e ok \<Rightarrow> 0 < rounds (fl_store fl) | _ \<Rightarrow> True)"
  shows "fleet_ok C fl' \<and> (\<forall>k env e ok. ev = Serve k env e ok \<longrightarrow> ok) \<and>
    rounds (fl_store fl) \<le> rounds (fl_store fl') + (case ev of Serve k env e ok \<Rightarrow> 1 | _ \<Rightarrow> 0)"
  using assms(1)
proof (cases rule: fleet_step.cases)
  case (serve k env e ok si)
  let ?si = "put_store (fl_store fl) (fl_sites fl ! k)"
  have "service.site_bounded C ?si"
    using assms(4) serve(3) by (simp add: service_site_bounded fleet_ok_def)
  moreover have "service.allowed C (si_locker ?si) (env, e)"
    using assms(3) by (auto simp: serve(1) polite_def service.allowed_def)
  moreover have "0 < rounds (ct_store (sv_ctrl (si_server ?si)))"
    using assms(5) serve(1) site_store_put [of "fl_store fl" "fl_sites fl ! k"] by (simp add: site_store_def)
  ultimately have "ok \<and> service.site_bounded C si \<and> rounds (fl_store fl) \<le> rounds (site_store si) + 1"
    using service.site_step_bounded [of C ?si env e] serve(4) site_store_put [of "fl_store fl" "fl_sites fl ! k"]
    by (simp add: site_store_def)
  then show ?thesis
    using assms(4) serve(1,2) set_update_subset_insert [of "fl_sites fl" k si]
    by (auto simp: fleet_ok_def service_site_bounded)
next
  case (join b si)
  then have "modest_site C si" using modest_start [of b si C] assms(3) by (simp add: polite_def)
  then show ?thesis using assms(4) join by (auto simp: fleet_ok_def)
next
  case (leave k)
  then show ?thesis using assms(4) by (auto simp: fleet_ok_def dest: in_set_takeD in_set_dropD)
next
  case (lapse s)
  then show ?thesis using assms(2,4) by (auto simp: fleet_ok_def silent_def)
qed

lemma fleet_run_ok:
  assumes "fleet_run lapse fl evs fl'" "silent lapse" "\<forall>ev \<in> set evs. polite C ev" "fleet_ok C fl"
    and "served_events evs \<le> rounds (fl_store fl)"
  shows "fleet_ok C fl' \<and> (\<forall>k env e ok. Serve k env e ok \<in> set evs \<longrightarrow> ok) \<and>
    rounds (fl_store fl) \<le> rounds (fl_store fl') + served_events evs"
  using assms
proof (induction rule: fleet_run.induct)
  case (more fl evs fl' ev fl'')
  have prems: "\<forall>ev \<in> set evs. polite C ev" "served_events evs \<le> rounds (fl_store fl)" "polite C ev"
    using more.prems(2,4) by simp_all
  note IH = more.IH [OF more.prems(1) prems(1) more.prems(3) prems(2)]
  have pos: "case ev of Serve k env e ok \<Rightarrow> 0 < rounds (fl_store fl') | _ \<Rightarrow> True"
    using IH more.prems(4) by (cases ev) simp_all
  note step = fleet_step_ok [OF more.hyps(2) more.prems(1) prems(3) conjunct1 [OF IH] pos]
  have "ok" if "Serve k env e ok \<in> set (evs @ [ev])" for k env e ok
    using that IH step unfolding set_append by (metis Un_iff empty_iff empty_set set_ConsD)
  moreover have "rounds (fl_store fl) \<le> rounds (fl_store fl'') + served_events (evs @ [ev])"
    using IH step by simp
  ultimately show ?case using step by blast
qed simp

lemma fleet_stays_sound:
  assumes "fleet_run lapse fl evs fl'" "silent lapse" "\<forall>ev \<in> set evs. polite C ev"
    and "sound C (fl_store fl)" "fl_sites fl = []" "served_events evs \<le> rounds (fl_store fl)"
  shows "sound C (fl_store fl') \<and> (\<forall>k env e ok. Serve k env e ok \<in> set evs \<longrightarrow> ok)"
proof -
  have "fleet_ok C fl" using assms(4,5) by (simp add: fleet_ok_def)
  note run = fleet_run_ok [OF assms(1-3) this assms(6)]
  then have "sound C (fl_store fl')" by (simp add: fleet_ok_def)
  with run show ?thesis by blast
qed

end

end
