(* ===== verification/FleetProps.thy ===== *)
theory FleetProps
  imports Fleet ValkeyProps
begin

text \<open>
  Replicas of gowait that share a Valkey server: the fleet of \<open>Fleet\<close> on the store of \<open>ValkeyStore\<close>,
  with the calls of different requests interleaved and every request to the server at the mercy of
  the network.
\<close>

section \<open>Leases do not disturb the room\<close>

context valkey_replicas
begin

lemma lock_key:
  "k_order ks \<noteq> k_lockPrefix ks @ name" "k_seen ks \<noteq> k_lockPrefix ks @ name"
  "k_active ks \<noteq> k_lockPrefix ks @ name" "k_admitted ks \<noteq> k_lockPrefix ks @ name"
  "k_enqueued ks \<noteq> k_lockPrefix ks @ name" "k_seq ks \<noteq> k_lockPrefix ks @ name"
  "k_capacityKey ks \<noteq> k_lockPrefix ks @ name"
  by (simp_all add: NewWithClient_def)

lemma TryLock_data: "data (snd (vk_TryLock rc cl ks d name ttl v)) = data v"
proof -
  have "data (snd (r_SETNX rc (k_lockPrefix ks @ name) w ms v)) = data v" for w ms
    using SETNX(2,3) [of ms "k_lockPrefix ks @ name" w v] SETNX(4,5) [of "k_lockPrefix ks @ name" w ms v] lock_key [of name]
    by (cases "0 < ms") (auto simp: vk_data_of_def)
  then show ?thesis by (cases d) (simp_all add: vk_TryLock_def split_beta Let_def)
qed

lemma TryLock_returns: "fst (vk_TryLock rc cl ks d name ttl v) \<noteq> Panic"
proof -
  have "fst (r_SETNX rc (k_lockPrefix ks @ name) w ms v) \<noteq> Panic" for w ms
    using SETNX(1,3) [of ms "k_lockPrefix ks @ name" w v] by (cases "0 < ms") auto
  then show ?thesis
    by (cases d) (auto simp: vk_TryLock_def split_beta Let_def reply_error_def reply_as_def split: result.splits option.splits)
qed

lemma expiry_data: "data (r_DEL rc [k_lockPrefix ks @ name] v) = data v"
  using lock_key [of name] by (simp add: vk_data_of_def DEL)

end

section \<open>A fleet on one server\<close>

text \<open>A lease that lapses is a key that the server deletes by itself.\<close>

definition lease_lapse :: "'v redis \<Rightarrow> string \<Rightarrow> 'v \<Rightarrow> 'v \<Rightarrow> bool" where
  "lease_lapse rc p v v' \<longleftrightarrow> (\<exists>name. v' = r_DEL rc [k_lockPrefix (NewWithClient p) @ name] v)"

text \<open>
  What may happen to a replica. Its calls and leases go to the server under the prefix \<open>p\<close>, each with
  a fate of its own, and up to \<open>k\<close> calls of others come before each; nobody asks for a capacity above \<open>C\<close>.
\<close>

definition vk_turn :: "client \<Rightarrow> int \<Rightarrow> nat \<Rightarrow> (call \<Rightarrow> delivery turn) \<Rightarrow> bool" where
  "vk_turn cl C k f \<longleftrightarrow> (\<forall>q. honest cl (snd (f q)) \<and> length (fst (f q)) \<le> k \<and>
     (\<forall>(d, q') \<in> set (fst (f q)). honest cl d \<and> modest C q'))"

definition vk_event ::
  "'v redis \<Rightarrow> client \<Rightarrow> (string \<Rightarrow> string) \<Rightarrow> string \<Rightarrow> int \<Rightarrow> nat \<Rightarrow> ('v, 'tmpl) fleet_event \<Rightarrow> bool" where
  "vk_event rc cl quote p C k ev \<longleftrightarrow> (case ev of
     Serve n env e ok \<Rightarrow>
       (\<exists>f. vk_turn cl C k f \<and> ev_ops env = amid (valkey_ops rc cl quote (NewWithClient p)) f) \<and>
       (\<exists>d. ev_locker env = valkey_locker rc cl (NewWithClient p) d) \<and> ev_rand env \<noteq> Panic \<and>
       (\<forall>r n. e = Request r \<longrightarrow> rq_Body r = Ok n \<longrightarrow> n \<le> C)
   | Join b \<Rightarrow> (\<forall>si. start b = Ok si \<longrightarrow>
       c_Capacity (sv_cfg (si_server si)) \<le> C \<and> c_ProbeMax (sv_cfg (si_server si)) \<le> C)
   | _ \<Rightarrow> True)"

text \<open>So the server's store is one that can be shared, and a fleet on it is sound.\<close>

locale valkey_fleet = valkey_replicas rc cl zs hs st quote pfx
  for rc :: "'v redis" and cl :: client and zs :: "'v \<Rightarrow> string \<Rightarrow> zset"
    and hs :: "'v \<Rightarrow> string \<Rightarrow> string \<rightharpoonup> int" and st :: "'v \<Rightarrow> string \<Rightarrow> string option"
    and quote :: "string \<Rightarrow> string" and pfx :: string +
  fixes C :: int and k :: nat
begin

abbreviation vk_sound :: "int \<Rightarrow> 'v \<Rightarrow> bool" where
  "vk_sound M v \<equiv> vk_inv v \<and> roomy M (vk_view v)"

lemma vk_shared: "shared_store (amid ops) (vk_turn cl C k) (\<lambda>M v. C \<le> M \<and> vk_sound M v) vk_budget (Suc k)"
proof -
  have "lossy.orderly C k = vk_turn cl C k" "lossy.sound = vk_sound"
    by (simp_all add: fun_eq_iff lossy.orderly_def vk_turn_def lossy.sound_def)
  with lossy.amid_shared [of C k] show ?thesis by simp
qed

end

sublocale valkey_fleet \<subseteq> shared: shared_store "amid ops" "vk_turn cl C k" "\<lambda>M v. C \<le> M \<and> vk_sound M v" vk_budget "Suc k"
  by (rule vk_shared)

context valkey_fleet
begin

lemma lease_quiet: "shared.service.quiet_lock (valkey_locker rc cl ks d)"
  by (simp add: shared.service.quiet_lock_def valkey_locker_def TryLock_returns shared.steady_def
      shared.rounds_def TryLock_data)

lemma lapse_silent: "shared.silent (lease_lapse rc pfx)"
  by (auto simp: shared.silent_def lease_lapse_def shared.rounds_def expiry_data)

lemma event_polite: "vk_event rc cl quote pfx C k ev \<Longrightarrow> shared.polite C ev"
  using lease_quiet by (cases ev) (auto simp: vk_event_def shared.polite_def shared.service.allowed_def)

lemma vk_fleet:
  assumes "fleet_run (lease_lapse rc pfx) fl evs fl'" "fl_sites fl = []" "vk_sound C (fl_store fl)"
    and "\<forall>ev \<in> set evs. vk_event rc cl quote pfx C k ev"
    and "served_events evs \<le> vk_budget (fl_store fl) div (5 * Suc k)"
  shows "vk_sound C (fl_store fl') \<and> (\<forall>n env e ok. Serve n env e ok \<in> set evs \<longrightarrow> ok)"
proof -
  have "\<forall>ev \<in> set evs. shared.polite C ev" using assms(4) event_polite by blast
  from shared.fleet_stays_sound [OF assms(1) lapse_silent this _ assms(2)] assms(3,5)
  have "(C \<le> C \<and> vk_sound C (fl_store fl')) \<and> (\<forall>n env e ok. Serve n env e ok \<in> set evs \<longrightarrow> ok)"
    unfolding shared.rounds_def by blast
  then show ?thesis by blast
qed

end

section \<open>A concrete fleet\<close>

definition shared_settings :: settings where
  "shared_settings = demo_settings\<lparr>c_Store := ''valkey'', c_ValkeyURL := ''localhost:6379'',
     c_ProbeURL := ''http://backend:80''\<rparr>"

definition shared_boot :: "(db, string) boot" where
  "shared_boot = \<lparr>bt_url_parse = demo_parse, bt_quote = id, bt_environ = demo_env,
     bt_args = map flag_arg (settings_flags ''http://backend:80'' shared_settings),
     bt_rand = Ok (replicate 32 (CHR ''s'')), bt_hmac = (\<lambda>k d. k @ take 4 d), bt_page = bt_page demo_boot,
     bt_clock = (\<lambda>n. int n * second), bt_version = ''dev'', bt_memory_New = empty_db,
     bt_valkey_New = (\<lambda>_ _. Ok empty_db)\<rparr>"

text \<open>Somebody else's request whose answer is lost comes before every call.\<close>

definition shared_env :: "db request_env" where
  "shared_env = \<lparr>ev_ops = amid (valkey_ops db_redis demo_client id (NewWithClient ''gowait:''))
       (\<lambda>_. ([(LostReply ''timeout'', CTryAdmit ''x'' 50 second)], Delivered)),
     ev_locker = valkey_locker db_redis demo_client (NewWithClient ''gowait:'') Delivered,
     ev_rand = Ok (replicate 16 (CHR ''z'')),
     ev_RFC3339 = (\<lambda>_. ''2026-01-01T00:00:00Z''), ev_fmt_g = (\<lambda>_. ''0''), ev_fmt_q = id\<rparr>"

lemma shared_load:
  "Load demo_parse id demo_env (map flag_arg (settings_flags ''http://backend:80'' shared_settings)) = Ok shared_settings"
proof (rule settings_flags_load)
  show "fits shared_settings" using demo_fits by (simp add: shared_settings_def fits_def)
  show "Validate demo_parse id shared_settings = Ok ()"
    by (simp add: Validate_Ok shared_settings_def demo_settings_def SupportedLang_iff s64_def demo_parse_def
        demo_url_def absolute_def)
  show "demo_parse ''http://backend:80'' = Ok demo_url" by (simp add: demo_parse_def)
qed (simp_all add: shared_settings_def demo_settings_def demo_url_def)

lemma shared_start: "\<exists>si. start shared_boot = Ok si \<and> sv_cfg (si_server si) = shared_settings"
proof -
  obtain srv where srv: "new_server (bt_page demo_boot) shared_settings (start_controller shared_boot shared_settings empty_db)
      (NewSigner (bt_hmac shared_boot) (hex_encode (replicate 32 (CHR ''s'')))) = Ok srv"
    using demo_page [of shared_settings] by (auto simp: shared_settings_def demo_settings_def)
  moreover have "cookie_secret (bt_rand shared_boot) shared_settings = Ok (hex_encode (replicate 32 (CHR ''s'')))"
    using demo_secret [of shared_settings] by (simp add: shared_settings_def demo_settings_def shared_boot_def)
  moreover have "open_store shared_boot shared_settings = Ok empty_db"
    by (simp add: open_store_def shared_settings_def shared_boot_def)
  ultimately show ?thesis
    using new_server_Ok [OF srv] shared_load unfolding start_Ok by (fastforce simp: shared_boot_def)
qed

lemma serve_alone:
  assumes "site_step env ev (put_store s si) = (ok, si')"
  shows "fleet_step lapse \<lparr>fl_store = s, fl_sites = [si]\<rparr> (Serve 0 env ev ok) \<lparr>fl_store = site_store si', fl_sites = [si']\<rparr>"
  using serve [of 0 "\<lparr>fl_store = s, fl_sites = [si]\<rparr>" env ev ok si' lapse] assms by simp

section \<open>Properties\<close>

text \<open>
  C5: A fleet never lets in more visitors than it may: replicas that start and stop at any time, on
  one Valkey server that behaves as documented, serve any requests and ticks, with the store calls
  of different requests interleaved in any way, answers and requests to the server lost, and
  leases lapsing. Every request is answered, nothing panics, and at most \<open>C\<close> tickets are active,
  if no configuration, prober or administrator asks for more. The bound on the number of events
  counts the tickets that may be numbered, five calls for each event with \<open>k\<close> others before each.
\<close>

theorem valkey_fleet_never_overfills:
  assumes "valkey_server rc cl zs hs st"
    and "fleet_run (lease_lapse rc p) \<lparr>fl_store = v, fl_sites = []\<rparr> evs fl"
    and "vk_consistent zs hs st p v" and "roomy C (vk_room zs hs st p v)"
    and "\<forall>ev \<in> set evs. vk_event rc cl quote p C k ev"
    and "served_events evs \<le> vk_headroom zs hs st p v div (5 * Suc k)"
  shows "vk_consistent zs hs st p (fl_store fl) \<and> active_count (vk_room zs hs st p (fl_store fl)) \<le> C \<and>
    (\<forall>n env e ok. Serve n env e ok \<in> set evs \<longrightarrow> ok)"
proof -
  note fleet = valkey_fleet.vk_fleet [OF valkey_fleet.intro [OF replicas [OF assms(1)]] assms(2), folded vk_reading]
  have "(vk_consistent zs hs st p (fl_store fl) \<and> roomy C (vk_room zs hs st p (fl_store fl))) \<and>
      (\<forall>n env e ok. Serve n env e ok \<in> set evs \<longrightarrow> ok)"
    by (rule fleet [OF _ _ assms(5)]) (use assms(3,4,6) in \<open>simp_all del: mult_Suc_right\<close>)
  then show ?thesis unfolding roomy_def by blast
qed

text \<open>A replica that starts on an empty server, a visitor, a lease that lapses, and a tick of the janitor.\<close>

theorem valkey_fleet_never_overfills_witness:
  "\<exists>ok ok' fl. fleet_run (lease_lapse db_redis ''gowait:'') \<lparr>fl_store = empty_db, fl_sites = []\<rparr>
     [Join shared_boot, Serve 0 shared_env (Request (demo_request ''GET'' ''/shop'' [] [])) ok, Lapse,
      Serve 0 shared_env JanitorTick ok'] fl \<and> ok \<and> ok' \<and>
     active_count (vk_room db_zset db_hashes db_strings ''gowait:'' (fl_store fl)) \<le> 50"
proof -
  let ?run = "fleet_run (lease_lapse db_redis ''gowait:'') \<lparr>fl_store = empty_db, fl_sites = []\<rparr>"
  let ?q = "Request (demo_request ''GET'' ''/shop'' [] [])"
  obtain si where si: "start shared_boot = Ok si" "sv_cfg (si_server si) = shared_settings" using shared_start by blast
  obtain ok si1 where s1: "site_step shared_env ?q (put_store empty_db si) = (ok, si1)" by fastforce
  define v where "v = r_DEL db_redis [k_lockPrefix (NewWithClient ''gowait:'') @ lockName] (site_store si1)"
  obtain ok' si2 where s2: "site_step shared_env JanitorTick (put_store v si1) = (ok', si2)" by fastforce
  let ?evs = "[Join shared_boot, Serve 0 shared_env ?q ok, Lapse, Serve 0 shared_env JanitorTick ok']"
  have "?run [Join shared_boot] \<lparr>fl_store = empty_db, fl_sites = [si]\<rparr>"
    using more [OF stop join [OF si(1)], where fl = "\<lparr>fl_store = empty_db, fl_sites = []\<rparr>"] by simp
  from more [OF this serve_alone [OF s1]]
  have "?run [Join shared_boot, Serve 0 shared_env ?q ok] \<lparr>fl_store = site_store si1, fl_sites = [si1]\<rparr>" by simp
  from more [OF this lapse [where s = v]]
  have "?run [Join shared_boot, Serve 0 shared_env ?q ok, Lapse] \<lparr>fl_store = v, fl_sites = [si1]\<rparr>"
    by (auto simp: lease_lapse_def v_def)
  from more [OF this serve_alone [OF s2]]
  have run: "?run ?evs \<lparr>fl_store = site_store si2, fl_sites = [si2]\<rparr>" by simp
  have turn: "vk_turn demo_client 50 1 (\<lambda>_. ([(LostReply ''timeout'', CTryAdmit ''x'' 50 second)], Delivered))"
    by (simp add: vk_turn_def honest_def demo_client_def modest_def)
  have events: "\<forall>ev \<in> set ?evs. vk_event db_redis demo_client id ''gowait:'' 50 1 ev"
    using turn si by (auto simp: vk_event_def shared_env_def demo_request_def shared_settings_def demo_settings_def)
  have room: "roomy 50 (vk_room db_zset db_hashes db_strings ''gowait:'' empty_db)"
    unfolding fresh_room(2) [OF empty_db_fresh] by (simp add: roomy_def empty_room_def active_count_def)
  have long: "served_events ?evs \<le> vk_headroom db_zset db_hashes db_strings ''gowait:'' empty_db div (5 * Suc 1)"
    unfolding fresh_room(3) [OF empty_db_fresh] by (simp add: served_events_def)
  note fleet = valkey_fleet_never_overfills [OF demo_db.valkey_server_axioms run
      fresh_room(1) [OF empty_db_fresh] room events long]
  note all_ok = conjunct2 [OF conjunct2 [OF fleet], rule_format]
  have "ok" by (rule all_ok [of 0 shared_env ?q]) simp
  moreover have "ok'" by (rule all_ok [of 0 shared_env JanitorTick]) simp
  ultimately show ?thesis using run conjunct1 [OF conjunct2 [OF fleet]] by (intro exI conjI)
qed

end
