(* ===== verification/Proxy.thy ===== *)
theory Proxy
  imports GoHttp GoText
begin

text \<open>
  \<^verbatim>\<open>internal/proxy/proxy.go\<close>: the request that reaches the backend. \<open>httputil.ReverseProxy\<close> copies the
  request it received, takes the forwarding headers of the client off the copy, lets \<open>Rewrite\<close> change
  it and sends it; an error on the way goes to \<open>ErrorHandler\<close>. \<open>SetURL\<close>, \<open>SetXForwarded\<close> and
  \<open>net.SplitHostPort\<close> are those of the standard library. The copy is an argument, and so is the
  escaped form of a path (\<open>URL.EscapedPath\<close>).
\<close>

section \<open>Requests on their way\<close>

record wire_url = url +
  u_RawPath :: string

record wire_request =
  wq_URL :: wire_url
  wq_Host :: string \<comment> \<open>empty in an outgoing request: the host of the URL\<close>
  wq_Header :: "string \<Rightarrow> string list"
  wq_RemoteAddr :: string
  wq_TLS :: bool

record proxy_request =
  pr_In :: wire_request
  pr_Out :: wire_request

section \<open>The standard library\<close>

text \<open>\<open>net.SplitHostPort\<close>; \<open>None\<close> stands for its errors.\<close>

definition last_colon :: "string \<Rightarrow> (string \<times> string) option" where
  "last_colon s = (if CHR '':'' \<in> set s
     then Some (rev (tl (dropWhile (\<lambda>c. c \<noteq> CHR '':'') (rev s))), rev (takeWhile (\<lambda>c. c \<noteq> CHR '':'') (rev s)))
     else None)"

definition SplitHostPort :: "string \<Rightarrow> (string \<times> string) option" where
  "SplitHostPort s =
     (case last_colon s of
        None \<Rightarrow> None
      | Some (h, port) \<Rightarrow>
          if take 1 s = ''[''
          then let host = takeWhile (\<lambda>c. c \<noteq> CHR '']'') (tl s)
               in if h \<noteq> ''['' @ host @ '']'' \<or> CHR ''['' \<in> set (tl s) \<or> CHR '']'' \<in> set port then None
                  else Some (host, port)
          else if CHR '':'' \<in> set h \<or> CHR ''['' \<in> set s \<or> CHR '']'' \<in> set s then None
          else Some (h, port))"

definition HasSlashSuffix :: "string \<Rightarrow> bool" where
  "HasSlashSuffix a \<longleftrightarrow> a \<noteq> [] \<and> last a = CHR ''/''"

definition HasSlashPrefix :: "string \<Rightarrow> bool" where
  "HasSlashPrefix b \<longleftrightarrow> b \<noteq> [] \<and> hd b = CHR ''/''"

definition singleJoiningSlash :: "string \<Rightarrow> string \<Rightarrow> string" where
  "singleJoiningSlash a b =
     (if HasSlashSuffix a \<and> HasSlashPrefix b then a @ tl b
      else if \<not> HasSlashSuffix a \<and> \<not> HasSlashPrefix b then a @ ''/'' @ b
      else a @ b)"

definition joinURLPath :: "(wire_url \<Rightarrow> string) \<Rightarrow> wire_url \<Rightarrow> wire_url \<Rightarrow> string \<times> string" where
  "joinURLPath esc a b =
     (if u_RawPath a = [] \<and> u_RawPath b = [] then (singleJoiningSlash (u_Path a) (u_Path b), [])
      else let apath = esc a; bpath = esc b
           in if HasSlashSuffix apath \<and> HasSlashPrefix bpath then (u_Path a @ tl (u_Path b), apath @ tl bpath)
              else if \<not> HasSlashSuffix apath \<and> \<not> HasSlashPrefix bpath
                then (u_Path a @ ''/'' @ u_Path b, apath @ ''/'' @ bpath)
              else (u_Path a @ u_Path b, apath @ bpath))"

definition SetURL :: "(wire_url \<Rightarrow> string) \<Rightarrow> wire_url \<Rightarrow> proxy_request \<Rightarrow> proxy_request" where
  "SetURL esc target r =
     (let out = pr_Out r; u = wq_URL out; (path, raw) = joinURLPath esc target u
      in r\<lparr>pr_Out := out\<lparr>wq_URL := \<lparr>u_Scheme = u_Scheme target, u_Host = u_Host target, u_Path = path,
             u_RawQuery = (if u_RawQuery target = [] \<or> u_RawQuery u = [] then u_RawQuery target @ u_RawQuery u
                           else u_RawQuery target @ ''&'' @ u_RawQuery u),
             u_RawPath = raw\<rparr>, wq_Host := []\<rparr>\<rparr>)"

definition set_header :: "string \<Rightarrow> string list \<Rightarrow> wire_request \<Rightarrow> wire_request" where
  "set_header k vs q = q\<lparr>wq_Header := (wq_Header q)(k := vs)\<rparr>"

definition SetXForwarded :: "proxy_request \<Rightarrow> proxy_request" where
  "SetXForwarded r =
     (let prior = wq_Header (pr_Out r) ''X-Forwarded-For'';
          for = (case SplitHostPort (wq_RemoteAddr (pr_In r)) of
                   None \<Rightarrow> []
                 | Some (ip, _) \<Rightarrow> [if prior = [] then ip else join '', '' prior @ '', '' @ ip])
      in r\<lparr>pr_Out :=
             set_header ''X-Forwarded-Proto'' [if wq_TLS (pr_In r) then ''https'' else ''http'']
               (set_header ''X-Forwarded-Host'' [wq_Host (pr_In r)]
                 (set_header ''X-Forwarded-For'' for (pr_Out r)))\<rparr>)"

section \<open>\<open>New\<close>\<close>

definition Rewrite :: "(wire_url \<Rightarrow> string) \<Rightarrow> wire_url \<Rightarrow> bool \<Rightarrow> proxy_request \<Rightarrow> proxy_request" where
  "Rewrite esc backend preserveHost r =
     (let host = wq_Host (pr_In r);
          r = SetURL esc backend r;
          r = SetXForwarded r
      in if preserveHost then r\<lparr>pr_Out := (pr_Out r)\<lparr>wq_Host := host\<rparr>\<rparr> else r)"

definition ErrorHandler :: "writer \<Rightarrow> writer" where
  "ErrorHandler w =
     Write (Bytes (''<!doctype html><title>Backend unavailable</title><h1>502 '' @ bytes [226, 128, 148] @
         '' backend unavailable</h1><p>The service behind this waiting room is not responding. Please try again shortly.</p>''))
       (WriteHeader 502 (SetHeader ''Content-Type'' ''text/html; charset=utf-8'' w))"

text \<open>What the backend is sent for a request, with the proxy's copy of it.\<close>

definition sent_to_backend ::
  "(wire_url \<Rightarrow> string) \<Rightarrow> (wire_request \<Rightarrow> wire_request) \<Rightarrow> wire_url \<Rightarrow> bool \<Rightarrow> wire_request \<Rightarrow> wire_request" where
  "sent_to_backend esc copy backend preserveHost q =
     pr_Out (Rewrite esc backend preserveHost \<lparr>pr_In = q, pr_Out = copy q\<rparr>)"

section \<open>Where it goes and what it says\<close>

text \<open>\<open>net.JoinHostPort\<close>, which writes the addresses of peers.\<close>

definition JoinHostPort :: "string \<Rightarrow> string \<Rightarrow> string" where
  "JoinHostPort h port = (if CHR '':'' \<in> set h then ''['' @ h @ '']:'' @ port else h @ '':'' @ port)"

lemma last_colon_append: "CHR '':'' \<notin> set port \<Longrightarrow> last_colon (h @ CHR '':'' # port) = Some (h, port)"
proof -
  assume "CHR '':'' \<notin> set port"
  then have not: "\<And>c. c \<in> set (rev port) \<Longrightarrow> c \<noteq> CHR '':''" by auto
  have "dropWhile (\<lambda>c. c \<noteq> CHR '':'') (rev port @ CHR '':'' # rev h) = CHR '':'' # rev h"
    by (subst dropWhile_append2) (use not in simp_all)
  moreover have "takeWhile (\<lambda>c. c \<noteq> CHR '':'') (rev port @ CHR '':'' # rev h) = rev port"
    by (subst takeWhile_append2) (use not in simp_all)
  ultimately have "dropWhile (\<lambda>c. c \<noteq> CHR '':'') (rev port @ CHR '':'' # rev h) = CHR '':'' # rev h"
    "takeWhile (\<lambda>c. c \<noteq> CHR '':'') (rev port @ CHR '':'' # rev h) = rev port" by blast+
  then show ?thesis by (simp add: last_colon_def)
qed

lemma SplitHostPort_Join:
  assumes "set h \<inter> {CHR ''['', CHR '']''} = {}" "set port \<inter> {CHR '':'', CHR ''['', CHR '']''} = {}"
  shows "SplitHostPort (JoinHostPort h port) = Some (h, port)"
proof (cases "CHR '':'' \<in> set h")
  case True
  have "takeWhile (\<lambda>c. c \<noteq> CHR '']'') (h @ CHR '']'' # CHR '':'' # port) = h"
    using assms(1) by (subst takeWhile_append2) auto
  with True assms last_colon_append [of port "''['' @ h @ '']''"] show ?thesis
    by (simp add: SplitHostPort_def JoinHostPort_def Let_def)
next
  case False
  with assms last_colon_append [of port h] show ?thesis
    by (cases h) (auto simp: SplitHostPort_def JoinHostPort_def)
qed

definition one_slash :: "string \<Rightarrow> string \<Rightarrow> string" where
  "one_slash a b = (if HasSlashSuffix a then butlast a else a) @ ''/'' @ (if HasSlashPrefix b then tl b else b)"

lemma singleJoiningSlash_one: "singleJoiningSlash a b = one_slash a b"
  by (cases a rule: rev_cases; cases b)
    (auto simp: singleJoiningSlash_def one_slash_def HasSlashSuffix_def HasSlashPrefix_def)

text \<open>
  Without raw paths the decoded paths are joined. Otherwise the escaped forms are, and the decoded
  paths follow them, if at the joint a slash of the one is a slash of the other.
\<close>

lemma joinURLPath_plain:
  "u_RawPath a = [] \<Longrightarrow> u_RawPath b = [] \<Longrightarrow> joinURLPath esc a b = (one_slash (u_Path a) (u_Path b), [])"
  by (simp add: joinURLPath_def singleJoiningSlash_one)

lemma joinURLPath_escaped:
  assumes "u_RawPath a \<noteq> [] \<or> u_RawPath b \<noteq> []"
  shows "snd (joinURLPath esc a b) = one_slash (esc a) (esc b)"
    and "HasSlashSuffix (esc a) = HasSlashSuffix (u_Path a) \<Longrightarrow> HasSlashPrefix (esc b) = HasSlashPrefix (u_Path b) \<Longrightarrow>
      fst (joinURLPath esc a b) = one_slash (u_Path a) (u_Path b)"
  using assms singleJoiningSlash_one [of "esc a" "esc b"] singleJoiningSlash_one [of "u_Path a" "u_Path b"]
  by (auto simp: joinURLPath_def singleJoiningSlash_def Let_def)

text \<open>
  C33: The backend hears from the proxy who asks, whatever the visitor sends. The request goes to the
  configured scheme and host. Its forwarding headers are the address of the visitor's connection, as
  \<open>net.JoinHostPort\<close> wrote it into \<open>RemoteAddr\<close>, and the host and the scheme he asked for; nothing that the
  visitor wrote there himself is left, given that \<open>ReverseProxy\<close> took \<open>X-Forwarded-For\<close> off its copy; all
  other headers are those of the copy. The Host header is the visitor's exactly if that was configured.
  The path is the backend's and the visitor's joined by one slash: the decoded paths, if neither needs
  another escaping than the default; else the escaped forms, so that an encoded slash stays encoded, and
  the decoded paths with them, if at the joint a slash in the one form is a slash in the other. The
  query is the backend's and the visitor's.
\<close>

theorem backend_sees_the_visitor:
  assumes "wq_RemoteAddr q = JoinHostPort ip port"
    and "set ip \<inter> {CHR ''['', CHR '']''} = {}" and "set port \<inter> {CHR '':'', CHR ''['', CHR '']''} = {}"
    and "wq_Header (copy q) ''X-Forwarded-For'' = []"
    and "u = wq_URL (copy q)" and "out = sent_to_backend esc copy backend preserveHost q"
  shows "u_Scheme (wq_URL out) = u_Scheme backend \<and> u_Host (wq_URL out) = u_Host backend \<and>
    wq_Host out = (if preserveHost then wq_Host q else []) \<and>
    wq_Header out = (wq_Header (copy q))(''X-Forwarded-For'' := [ip], ''X-Forwarded-Host'' := [wq_Host q],
      ''X-Forwarded-Proto'' := [if wq_TLS q then ''https'' else ''http'']) \<and>
    (u_RawPath backend = [] \<and> u_RawPath u = [] \<longrightarrow>
      u_Path (wq_URL out) = one_slash (u_Path backend) (u_Path u) \<and> u_RawPath (wq_URL out) = []) \<and>
    (u_RawPath backend \<noteq> [] \<or> u_RawPath u \<noteq> [] \<longrightarrow>
      u_RawPath (wq_URL out) = one_slash (esc backend) (esc u) \<and>
      (HasSlashSuffix (esc backend) = HasSlashSuffix (u_Path backend) \<and> HasSlashPrefix (esc u) = HasSlashPrefix (u_Path u) \<longrightarrow>
        u_Path (wq_URL out) = one_slash (u_Path backend) (u_Path u))) \<and>
    u_RawQuery (wq_URL out) = join ''&'' (filter (\<lambda>x. x \<noteq> []) [u_RawQuery backend, u_RawQuery u])"
proof -
  have "wq_URL out = \<lparr>u_Scheme = u_Scheme backend, u_Host = u_Host backend, u_Path = fst (joinURLPath esc backend u),
      u_RawQuery = join ''&'' (filter (\<lambda>x. x \<noteq> []) [u_RawQuery backend, u_RawQuery u]),
      u_RawPath = snd (joinURLPath esc backend u)\<rparr>"
    by (simp add: assms(5,6) sent_to_backend_def Rewrite_def SetURL_def SetXForwarded_def set_header_def
        split_beta Let_def)
  moreover have "wq_Host out = (if preserveHost then wq_Host q else [])"
    "wq_Header out = (wq_Header (copy q))(''X-Forwarded-For'' := [ip], ''X-Forwarded-Host'' := [wq_Host q],
      ''X-Forwarded-Proto'' := [if wq_TLS q then ''https'' else ''http''])"
    using assms(1,4) SplitHostPort_Join [OF assms(2,3)]
    by (simp_all add: assms(6) sent_to_backend_def Rewrite_def SetURL_def SetXForwarded_def set_header_def
        split_beta Let_def)
  ultimately show ?thesis using joinURLPath_plain joinURLPath_escaped [of backend u esc] by auto
qed

text \<open>A visitor over IPv6 who claims another address and whose path has an encoded slash.\<close>

definition demo_target :: wire_url where
  "demo_target = \<lparr>u_Scheme = ''http'', u_Host = ''app:80'', u_Path = ''/base/'', u_RawQuery = [], u_RawPath = []\<rparr>"

definition demo_visit :: wire_request where
  "demo_visit = \<lparr>wq_URL = \<lparr>u_Scheme = [], u_Host = [], u_Path = ''/a/b'', u_RawQuery = ''q=1'', u_RawPath = ''/a%2Fb''\<rparr>,
     wq_Host = ''shop.example'', wq_Header = (\<lambda>k. [''10.0.0.1'']), wq_RemoteAddr = ''[::1]:5000'', wq_TLS = True\<rparr>"

definition demo_escaped :: "wire_url \<Rightarrow> string" where
  "demo_escaped u = (if u_RawPath u = [] then u_Path u else u_RawPath u)"

theorem backend_sees_the_visitor_witness:
  "u_Path (wq_URL (sent_to_backend demo_escaped (set_header ''X-Forwarded-For'' []) demo_target False demo_visit)) = ''/base/a/b'' \<and>
   u_RawPath (wq_URL (sent_to_backend demo_escaped (set_header ''X-Forwarded-For'' []) demo_target False demo_visit)) = ''/base/a%2Fb'' \<and>
   wq_Header (sent_to_backend demo_escaped (set_header ''X-Forwarded-For'' []) demo_target False demo_visit) ''X-Forwarded-For'' = [''::1'']"
  using backend_sees_the_visitor [of demo_visit "''::1''" "''5000''" "set_header ''X-Forwarded-For'' []",
      OF _ _ _ _ refl refl, of demo_escaped demo_target False]
  by (simp add: demo_visit_def demo_target_def demo_escaped_def JoinHostPort_def set_header_def one_slash_def
      HasSlashSuffix_def HasSlashPrefix_def)

end
