(* ===== verification/Goroutines.thy ===== *)
theory Goroutines
  imports ControllerFaults
begin

text \<open>
  The goroutines of one gowait process, which share one controller (\<^verbatim>\<open>controller.go\<close>). Every method of
  the controller is written once more as a resumption: the sequence of its atomic actions (an
  operation on an atomic, a reading of the clock, a counter of the metrics, a store call), each with
  what follows its result. A schedule then interleaves any number of such goroutines between any two
  actions; a goroutine that is left alone does what the function of \<open>Controller\<close> does.
\<close>

section \<open>Resumptions\<close>

text \<open>A store call and its reply.\<close>

datatype reply =
    RepBool "bool result"
  | RepSnapshot "snapshot result"
  | RepReconcile "reconcile_result result"
  | RepStats "stats result"
  | RepUnit "unit result"
  | RepCapacity "(int \<times> bool) result"
  | RepInt "int result"

fun as_bool :: "reply \<Rightarrow> bool result" where
  "as_bool (RepBool r) = r" | "as_bool _ = Panic"

fun as_snapshot :: "reply \<Rightarrow> snapshot result" where
  "as_snapshot (RepSnapshot r) = r" | "as_snapshot _ = Panic"

fun as_reconcile :: "reply \<Rightarrow> reconcile_result result" where
  "as_reconcile (RepReconcile r) = r" | "as_reconcile _ = Panic"

fun as_stats :: "reply \<Rightarrow> stats result" where
  "as_stats (RepStats r) = r" | "as_stats _ = Panic"

fun as_unit :: "reply \<Rightarrow> unit result" where
  "as_unit (RepUnit r) = r" | "as_unit _ = Panic"

fun as_capacity :: "reply \<Rightarrow> (int \<times> bool) result" where
  "as_capacity (RepCapacity r) = r" | "as_capacity _ = Panic"

fun as_int :: "reply \<Rightarrow> int result" where
  "as_int (RepInt r) = r" | "as_int _ = Panic"

fun store_call :: "'s store_ops \<Rightarrow> call \<Rightarrow> 's \<Rightarrow> reply \<times> 's" where
  "store_call ops (CTryAdmit i cap now) s = map_prod RepBool id (op_TryAdmit ops i cap now s)"
| "store_call ops (CEnqueue i now) s = map_prod RepSnapshot id (op_Enqueue ops i now s)"
| "store_call ops (CLookup i now) s = map_prod RepSnapshot id (op_Lookup ops i now s)"
| "store_call ops (CTouch i now) s = map_prod RepBool id (op_Touch ops i now s)"
| "store_call ops (CReconcile cap aTTL qTTL now) s = map_prod RepReconcile id (op_Reconcile ops cap aTTL qTTL now s)"
| "store_call ops CStats s = map_prod RepStats id (op_Stats ops s)"
| "store_call ops (CSetCapacity n) s = map_prod RepUnit id (op_SetCapacity ops n s)"
| "store_call ops CGetCapacity s = map_prod RepCapacity id (op_GetCapacity ops s)"
| "store_call ops CFlush s = map_prod RepInt id (op_Flush ops s)"

text \<open>
  What a goroutine has still to do. The actions are those of the fields of \<open>Controller\<close>:
  \<open>lastReconcile\<close> (\<open>Load\<close>, \<open>Store\<close>, \<open>CompareAndSwap\<close>), \<open>capacity\<close> (\<open>Load\<close>, \<open>Store\<close>),
  \<open>statsCache\<close> (\<open>Load\<close>, \<open>Store\<close>), \<open>now\<close>, \<open>metrics\<close> and \<open>store\<close>.
\<close>

datatype 'a prog =
    Return 'a
  | Now "time \<Rightarrow> 'a prog"
  | LoadLast "int \<Rightarrow> 'a prog"
  | StoreLast int "'a prog"
  | CasLast int int "bool \<Rightarrow> 'a prog"
  | LoadCapacity "int \<Rightarrow> 'a prog"
  | StoreCapacity int "'a prog"
  | LoadCache "(stats \<times> time) option \<Rightarrow> 'a prog"
  | StoreCache "stats \<times> time" "'a prog"
  | Count "registry option \<Rightarrow> registry option" "'a prog"
  | Call call "reply \<Rightarrow> 'a prog"

primrec bind_prog :: "'a prog \<Rightarrow> ('a \<Rightarrow> 'b prog) \<Rightarrow> 'b prog" where
  "bind_prog (Return x) f = f x"
| "bind_prog (Now k) f = Now (\<lambda>t. bind_prog (k t) f)"
| "bind_prog (LoadLast k) f = LoadLast (\<lambda>l. bind_prog (k l) f)"
| "bind_prog (StoreLast v p) f = StoreLast v (bind_prog p f)"
| "bind_prog (CasLast u v k) f = CasLast u v (\<lambda>b. bind_prog (k b) f)"
| "bind_prog (LoadCapacity k) f = LoadCapacity (\<lambda>n. bind_prog (k n) f)"
| "bind_prog (StoreCapacity n p) f = StoreCapacity n (bind_prog p f)"
| "bind_prog (LoadCache k) f = LoadCache (\<lambda>x. bind_prog (k x) f)"
| "bind_prog (StoreCache x p) f = StoreCache x (bind_prog p f)"
| "bind_prog (Count g p) f = Count g (bind_prog p f)"
| "bind_prog (Call q k) f = Call q (\<lambda>r. bind_prog (k r) f)"

text \<open>\<open>if err != nil { return ..., err }\<close>; a panic unwinds the goroutine.\<close>

definition then_ok :: "'a result prog \<Rightarrow> ('a \<Rightarrow> 'b result prog) \<Rightarrow> 'b result prog" where
  "then_ok p f = bind_prog p (\<lambda>r. case r of Ok v \<Rightarrow> f v | Err e \<Rightarrow> Return (Err e) | Panic \<Rightarrow> Return Panic)"

definition ask :: "call \<Rightarrow> (reply \<Rightarrow> 'a result) \<Rightarrow> 'a result prog" where
  "ask q get = Call q (\<lambda>r. Return (get r))"

section \<open>The methods\<close>

definition go_SetCapacity :: "int \<Rightarrow> unit result prog" where
  "go_SetCapacity n =
     (if n < 1 then Return (Err (''capacity must be >= 1, got '' @ itoa n))
      else then_ok (ask (CSetCapacity n) as_unit) (\<lambda>_. StoreCapacity n (Return (Ok ()))))"

definition go_refreshCapacity :: "config \<Rightarrow> unit result prog" where
  "go_refreshCapacity cfg =
     bind_prog (ask CGetCapacity as_capacity) (\<lambda>r. case r of
        Err e \<Rightarrow> Return (Ok ())
      | Panic \<Rightarrow> Return Panic
      | Ok (n, isset) \<Rightarrow>
          if isset \<and> n \<ge> 1 then StoreCapacity n (Return (Ok ()))
          else StoreCapacity (cfg_Capacity cfg) (Return (Ok ())))"

definition go_reconcile :: "config \<Rightarrow> time \<Rightarrow> unit result prog" where
  "go_reconcile cfg now =
     StoreLast (unix_nano now) (LoadCapacity (\<lambda>cap.
       then_ok (ask (CReconcile cap (cfg_ActiveTTL cfg) (cfg_QueueTTL cfg) now) as_reconcile) (\<lambda>res.
         Count (AddReconcile res)
           (foldr (\<lambda>waited. Count (ObserveAdmission waited)) (rr_WaitedSecs res) (Return (Ok ()))))))"

definition go_maybeReconcile :: "config \<Rightarrow> time \<Rightarrow> unit result prog" where
  "go_maybeReconcile cfg now =
     (let gap = cfg_MinReconcileGap cfg
      in if gap > 0
         then LoadLast (\<lambda>last.
                if s64 (unix_nano now - last) < gap then Return (Ok ())
                else CasLast last (unix_nano now) (\<lambda>swapped.
                  if swapped then go_reconcile cfg now else Return (Ok ())))
         else go_reconcile cfg now)"

definition go_etaStats :: "config \<Rightarrow> stats result prog" where
  "go_etaStats cfg =
     (let ttl = cfg_StatsCacheTTL cfg
      in if ttl \<le> 0 then ask CStats as_stats
         else Now (\<lambda>now. LoadCache (\<lambda>cached. case cached of
                Some (stats, cachedAt) \<Rightarrow>
                  if time_sub now cachedAt < ttl then Return (Ok stats)
                  else then_ok (ask CStats as_stats) (\<lambda>stats. StoreCache (stats, now) (Return (Ok stats)))
              | None \<Rightarrow>
                  then_ok (ask CStats as_stats) (\<lambda>stats. StoreCache (stats, now) (Return (Ok stats))))))"

definition go_eta :: "config \<Rightarrow> int \<Rightarrow> dur result prog" where
  "go_eta cfg pos =
     bind_prog (go_etaStats cfg) (\<lambda>st.
       if st = Panic then Return Panic
       else LoadCapacity (\<lambda>cap. Return (eta_value pos (avg_duration (cfg_ActiveTTL cfg) st) cap)))"

definition go_result :: "config \<Rightarrow> decision \<Rightarrow> snapshot \<Rightarrow> qresult result prog" where
  "go_result cfg d snap =
     (let res = \<lparr>q_Decision = d, q_Position = sn_Position snap, q_QueueLength = sn_QueueLength snap,
                 q_ActiveCount = sn_ActiveCount snap, q_ETA = 0\<rparr>
      in if d = DecisionWait \<and> sn_Position snap > 0
         then then_ok (go_eta cfg (sn_Position snap)) (\<lambda>e. Return (Ok (res\<lparr>q_ETA := e\<rparr>)))
         else Return (Ok res))"

definition go_Check :: "config \<Rightarrow> string \<Rightarrow> qresult result prog" where
  "go_Check cfg i =
     Now (\<lambda>now.
       then_ok (go_maybeReconcile cfg now) (\<lambda>_.
       then_ok (ask (CLookup i now) as_snapshot) (\<lambda>snap.
       case sn_Status snap of
         StatusActive \<Rightarrow>
           then_ok (ask (CTouch i now) as_bool) (\<lambda>_. go_result cfg DecisionProxy snap)
       | StatusQueued \<Rightarrow> go_result cfg DecisionWait snap
       | StatusUnknown \<Rightarrow> LoadCapacity (\<lambda>cap.
           then_ok (ask (CTryAdmit i cap now) as_bool) (\<lambda>admitted.
           if admitted
           then Count (ObserveAdmission 0)
                  (go_result cfg DecisionProxy
                     (snap\<lparr>sn_Status := StatusActive, sn_ActiveCount := sn_ActiveCount snap + 1\<rparr>))
           else then_ok (ask (CEnqueue i now) as_snapshot) (\<lambda>snap.
                  go_result cfg DecisionWait snap))))))"

definition go_StatusOf :: "config \<Rightarrow> string \<Rightarrow> qresult result prog" where
  "go_StatusOf cfg i =
     Now (\<lambda>now.
       then_ok (go_maybeReconcile cfg now) (\<lambda>_.
       then_ok (ask (CLookup i now) as_snapshot) (\<lambda>snap.
       case sn_Status snap of
         StatusActive \<Rightarrow> go_result cfg DecisionProxy snap
       | StatusUnknown \<Rightarrow> LoadCapacity (\<lambda>cap.
           if sn_ActiveCount snap < cap \<and> sn_QueueLength snap = 0
           then go_result cfg DecisionProxy snap
           else go_result cfg DecisionWait (snap\<lparr>sn_Position := sn_QueueLength snap + 1\<rparr>))
       | StatusQueued \<Rightarrow> go_result cfg DecisionWait snap)))"

definition go_tick :: "config \<Rightarrow> unit result prog" where
  "go_tick cfg =
     then_ok (go_refreshCapacity cfg) (\<lambda>_. Now (\<lambda>now.
       bind_prog (go_reconcile cfg now) (\<lambda>r. case r of Err e \<Rightarrow> Return (Ok ()) | _ \<Rightarrow> Return r)))"

text \<open>The goroutine of a request; its value says that it did not panic.\<close>

definition returns :: "'a result prog \<Rightarrow> bool prog" where
  "returns p = bind_prog p (\<lambda>r. Return (r \<noteq> Panic))"

fun go_serve :: "config \<Rightarrow> request \<Rightarrow> bool prog" where
  "go_serve cfg (RCheck i) = returns (go_Check cfg i)"
| "go_serve cfg (RStatus i) = returns (go_StatusOf cfg i)"
| "go_serve cfg RTick = returns (go_tick cfg)"
| "go_serve cfg (RSetCapacity n) = returns (go_SetCapacity n)"
| "go_serve cfg RStats = returns (ask CStats as_stats)"
| "go_serve cfg RFlush = returns (ask CFlush as_int)"

section \<open>Actions\<close>

text \<open>The next action of a goroutine on the controller; a goroutine that has returned stays.\<close>

fun act :: "'s store_ops \<Rightarrow> 'a prog \<Rightarrow> 's controller \<Rightarrow> 'a prog \<times> 's controller" where
  "act ops (Return x) c = (Return x, c)"
| "act ops (Now k) c = (k (ct_clock c (ct_reads c)), c\<lparr>ct_reads := ct_reads c + 1\<rparr>)"
| "act ops (LoadLast k) c = (k (ct_lastReconcile c), c)"
| "act ops (StoreLast v p) c = (p, c\<lparr>ct_lastReconcile := v\<rparr>)"
| "act ops (CasLast u v k) c =
     (if ct_lastReconcile c = u then (k True, c\<lparr>ct_lastReconcile := v\<rparr>) else (k False, c))"
| "act ops (LoadCapacity k) c = (k (Capacity c), c)"
| "act ops (StoreCapacity n p) c = (p, c\<lparr>ct_capacity := n\<rparr>)"
| "act ops (LoadCache k) c = (k (ct_statsCache c), c)"
| "act ops (StoreCache x p) c = (p, c\<lparr>ct_statsCache := Some x\<rparr>)"
| "act ops (Count g p) c = (p, c\<lparr>ct_metrics := g (ct_metrics c)\<rparr>)"
| "act ops (Call q k) c = (case store_call ops q (ct_store c) of (r, s) \<Rightarrow> (k r, c\<lparr>ct_store := s\<rparr>))"

text \<open>A process: the shared controller and its goroutines, running or returned.\<close>

record 's process =
  pc_ctrl :: "'s controller"
  pc_threads :: "bool prog list"

text \<open>
  A move of the schedule: a request starts a goroutine, \<open>Run\<close> adopts an override as it starts, a
  goroutine does its next action, or another process that shares the store makes a call of its own.
  (The ticks of the one janitor come one after the other; here they may also overlap.)
\<close>

datatype 'e move = Spawn request | Adopt | Advance nat 'e | Elsewhere 'e call

fun make_move :: "('e \<Rightarrow> 's store_ops) \<Rightarrow> 'e move \<Rightarrow> 's process \<Rightarrow> 's process" where
  "make_move ops (Spawn q) P = P\<lparr>pc_threads := pc_threads P @ [go_serve (ct_cfg (pc_ctrl P)) q]\<rparr>"
| "make_move ops Adopt P = P\<lparr>pc_threads := pc_threads P @ [returns (go_refreshCapacity (ct_cfg (pc_ctrl P)))]\<rparr>"
| "make_move ops (Advance n e) P =
     (if n < length (pc_threads P)
      then (case act (ops e) (pc_threads P ! n) (pc_ctrl P) of (p, c) \<Rightarrow>
              \<lparr>pc_ctrl = c, pc_threads = (pc_threads P)[n := p]\<rparr>)
      else P)"
| "make_move ops (Elsewhere e q) P =
     P\<lparr>pc_ctrl := (pc_ctrl P)\<lparr>ct_store := store_exec (ops e) q (ct_store (pc_ctrl P))\<rparr>\<rparr>"

definition interleave :: "('e \<Rightarrow> 's store_ops) \<Rightarrow> 'e move list \<Rightarrow> 's process \<Rightarrow> 's process" where
  "interleave ops ms P = fold (make_move ops) ms P"

lemma interleave_simps [simp]:
  "interleave ops [] P = P" "interleave ops (m # ms) P = interleave ops ms (make_move ops m P)"
  by (simp_all add: interleave_def)

section \<open>A goroutine left alone\<close>

primrec run_prog :: "'a prog \<Rightarrow> 's store_ops \<Rightarrow> 's controller \<Rightarrow> 'a \<times> 's controller" where
  "run_prog (Return x) ops c = (x, c)"
| "run_prog (Now k) ops c = run_prog (k (ct_clock c (ct_reads c))) ops (c\<lparr>ct_reads := ct_reads c + 1\<rparr>)"
| "run_prog (LoadLast k) ops c = run_prog (k (ct_lastReconcile c)) ops c"
| "run_prog (StoreLast v p) ops c = run_prog p ops (c\<lparr>ct_lastReconcile := v\<rparr>)"
| "run_prog (CasLast u v k) ops c =
     (if ct_lastReconcile c = u then run_prog (k True) ops (c\<lparr>ct_lastReconcile := v\<rparr>)
      else run_prog (k False) ops c)"
| "run_prog (LoadCapacity k) ops c = run_prog (k (Capacity c)) ops c"
| "run_prog (StoreCapacity n p) ops c = run_prog p ops (c\<lparr>ct_capacity := n\<rparr>)"
| "run_prog (LoadCache k) ops c = run_prog (k (ct_statsCache c)) ops c"
| "run_prog (StoreCache x p) ops c = run_prog p ops (c\<lparr>ct_statsCache := Some x\<rparr>)"
| "run_prog (Count g p) ops c = run_prog p ops (c\<lparr>ct_metrics := g (ct_metrics c)\<rparr>)"
| "run_prog (Call q k) ops c =
     run_prog (k (fst (store_call ops q (ct_store c)))) ops (c\<lparr>ct_store := snd (store_call ops q (ct_store c))\<rparr>)"

lemma run_prog_bind:
  "run_prog (bind_prog p f) ops c = (case run_prog p ops c of (x, c') \<Rightarrow> run_prog (f x) ops c')"
  by (induction p arbitrary: c) simp_all

lemma run_prog_then_ok [simp]:
  "run_prog (then_ok p f) ops c = and_then (run_prog p ops c) (\<lambda>v c'. run_prog (f v) ops c')"
  by (simp add: then_ok_def run_prog_bind and_then_def split: prod.split result.split)

lemma run_prog_cfg [simp]: "ct_cfg (snd (run_prog p ops c)) = ct_cfg c"
  by (induction p arbitrary: c) simp_all

lemma run_ask [simp]:
  "run_prog (ask (CTryAdmit i cap now) as_bool) ops c = on_store (op_TryAdmit ops i cap now) c"
  "run_prog (ask (CEnqueue i now) as_snapshot) ops c = on_store (op_Enqueue ops i now) c"
  "run_prog (ask (CLookup i now) as_snapshot) ops c = on_store (op_Lookup ops i now) c"
  "run_prog (ask (CTouch i now) as_bool) ops c = on_store (op_Touch ops i now) c"
  "run_prog (ask (CReconcile cap aTTL qTTL now) as_reconcile) ops c = on_store (op_Reconcile ops cap aTTL qTTL now) c"
  "run_prog (ask CStats as_stats) ops c = on_store (op_Stats ops) c"
  "run_prog (ask (CSetCapacity n) as_unit) ops c = on_store (op_SetCapacity ops n) c"
  "run_prog (ask CGetCapacity as_capacity) ops c = on_store (op_GetCapacity ops) c"
  "run_prog (ask CFlush as_int) ops c = on_store (op_Flush ops) c"
  by (simp_all add: ask_def on_store_def split_beta Let_def)

text \<open>The actions of a goroutine, one after the other.\<close>

lemma run_prog_act: "run_prog p ops c = (case act ops p c of (p', c') \<Rightarrow> run_prog p' ops c')"
  by (cases p) (simp_all add: split_beta)

lemma acts_more:
  assumes "\<exists>n. ((\<lambda>(p, c). act ops p c) ^^ n) (act ops p c) = z"
  shows "\<exists>n. ((\<lambda>(p, c). act ops p c) ^^ n) (p, c) = z"
proof -
  obtain n where "((\<lambda>(p, c). act ops p c) ^^ n) (act ops p c) = z" using assms by blast
  then have "((\<lambda>(p, c). act ops p c) ^^ Suc n) (p, c) = z" unfolding funpow_Suc_right by simp
  then show ?thesis by blast
qed

lemma acts_to_the_end:
  "\<exists>n. ((\<lambda>(p, c). act ops p c) ^^ n) (p, c) = (Return (fst (run_prog p ops c)), snd (run_prog p ops c))"
proof (induction p arbitrary: c)
  case (Return x)
  show ?case by (rule exI [of _ 0]) simp
qed (rule acts_more, simp add: split_beta)+

text \<open>So it does what the method of \<open>Controller\<close> does.\<close>

lemma and_then_same:
  "m = m' \<Longrightarrow> (\<And>v c. m = (Ok v, c) \<Longrightarrow> f v c = g v c) \<Longrightarrow> and_then m f = and_then m' g"
  by (auto simp: and_then_def split: prod.split result.split)

lemma alone_cfg: "run_prog p ops c = (r, c') \<Longrightarrow> ct_cfg c' = ct_cfg c"
  using run_prog_cfg [of p ops c] by simp

lemma on_store_cfg: "on_store f c = (r, c') \<Longrightarrow> ct_cfg c' = ct_cfg c"
  by (auto simp: on_store_def split_beta Let_def)

lemma count_all:
  "run_prog (foldr (\<lambda>w. Count (ObserveAdmission w)) ws p) ops c =
   run_prog p ops (c\<lparr>ct_metrics := fold ObserveAdmission ws (ct_metrics c)\<rparr>)"
  by (induction ws arbitrary: c) simp_all

lemma go_SetCapacity_alone: "run_prog (go_SetCapacity n) ops c = ctl_SetCapacity ops n c"
  by (simp add: go_SetCapacity_def ctl_SetCapacity_def)

lemma go_refreshCapacity_alone:
  "run_prog (go_refreshCapacity (ct_cfg c)) ops c = refreshCapacity ops c"
  by (auto simp: go_refreshCapacity_def refreshCapacity_def run_prog_bind split: prod.split result.split
      dest: on_store_cfg)

lemma go_reconcile_alone: "run_prog (go_reconcile (ct_cfg c) now) ops c = ctl_reconcile ops now c"
  by (simp add: go_reconcile_def ctl_reconcile_def count_all Capacity_def)

lemma go_maybeReconcile_alone: "run_prog (go_maybeReconcile (ct_cfg c) now) ops c = maybeReconcile ops now c"
  using go_reconcile_alone [of c now ops]
    go_reconcile_alone [of "c\<lparr>ct_lastReconcile := unix_nano now\<rparr>" now ops]
  by (simp add: go_maybeReconcile_def maybeReconcile_def Let_def)

lemma go_etaStats_alone: "run_prog (go_etaStats (ct_cfg c)) ops c = etaStats ops c"
  by (simp add: go_etaStats_def etaStats_def read_clock_def Let_def split: option.split)

lemma go_eta_alone: "run_prog (go_eta (ct_cfg c) n) ops c = eta ops n c"
proof -
  obtain st c' where st: "etaStats ops c = (st, c')" by fastforce
  then have "ct_cfg c' = ct_cfg c" using alone_cfg [of "go_etaStats (ct_cfg c)" ops c] by (simp add: go_etaStats_alone)
  with st show ?thesis by (simp add: go_eta_def eta_def run_prog_bind go_etaStats_alone)
qed

lemma go_result_alone: "run_prog (go_result (ct_cfg c) d snap) ops c = mk_result ops d snap c"
  by (simp add: go_result_def mk_result_def Let_def go_eta_alone)

lemma go_result_next:
  "ct_cfg c' = ct_cfg c \<Longrightarrow> run_prog (go_result (ct_cfg c) d snap) ops c' = mk_result ops d snap c'"
  using go_result_alone [of c'] by simp

lemma maybeReconcile_cfg: "maybeReconcile ops now c = (r, c') \<Longrightarrow> ct_cfg c' = ct_cfg c"
  using alone_cfg [of "go_maybeReconcile (ct_cfg c) now" ops c] by (simp add: go_maybeReconcile_alone)

lemma go_maybeReconcile_next:
  "ct_cfg c' = ct_cfg c \<Longrightarrow> run_prog (go_maybeReconcile (ct_cfg c) now) ops c' = maybeReconcile ops now c'"
  using go_maybeReconcile_alone [of c'] by simp

lemmas go_next = go_result_next go_maybeReconcile_next

lemma go_Check_alone: "run_prog (go_Check (ct_cfg c) i) ops c = Check ops i c"
  unfolding go_Check_def Check_def read_clock_def Let_def
  by (auto simp: go_next split: status.split dest!: on_store_cfg maybeReconcile_cfg intro!: and_then_same)

lemma go_StatusOf_alone: "run_prog (go_StatusOf (ct_cfg c) i) ops c = StatusOf ops i c"
  unfolding go_StatusOf_def StatusOf_def read_clock_def Let_def
  by (auto simp: go_next split: status.split dest!: on_store_cfg maybeReconcile_cfg intro!: and_then_same)

lemma go_tick_alone: "run_prog (go_tick (ct_cfg c)) ops c = janitor_tick ops c"
proof -
  have cfg: "ct_cfg c' = ct_cfg c" if "refreshCapacity ops c = (r, c')" for r c'
    using alone_cfg [of "go_refreshCapacity (ct_cfg c)" ops c] that by (simp add: go_refreshCapacity_alone)
  have rec: "run_prog (go_reconcile (ct_cfg c) now) ops c' = ctl_reconcile ops now c'" if "ct_cfg c' = ct_cfg c" for now c'
    using go_reconcile_alone [of c'] that by simp
  show ?thesis
    unfolding go_tick_def janitor_tick_def
    by (auto simp: go_refreshCapacity_alone run_prog_bind read_clock_def rec cfg split: prod.split result.split
        intro!: and_then_same)
qed

lemma go_serve_alone: "run_prog (go_serve (ct_cfg c) q) ops c = serve ops q c"
  by (cases q) (simp_all add: returns_def run_prog_bind no_panic_def go_Check_alone go_StatusOf_alone
      go_tick_alone go_SetCapacity_alone ctl_Stats_def ctl_Flush_def split_beta)

end
