(* ===== verification/GoroutineSafety.thy ===== *)
theory GoroutineSafety
  imports Goroutines
begin

text \<open>
  Whatever the schedule of the goroutines: none panics, and the bounds of the room hold between any
  two actions. A goroutine is \<open>safe\<close> if it keeps the bounds and ends as wanted, provided that what
  it reads is within the bounds; being safe is kept by its actions, and the bounds by those of safe
  goroutines, so any number of them may interleave.
\<close>

section \<open>Safe goroutines\<close>

text \<open>What a store call may answer while capacities up to \<open>C\<close> are set.\<close>

fun proper :: "int \<Rightarrow> call \<Rightarrow> reply \<Rightarrow> bool" where
  "proper C (CTryAdmit i cap now) r = (as_bool r \<noteq> Panic)"
| "proper C (CEnqueue i now) r = (as_snapshot r \<noteq> Panic)"
| "proper C (CLookup i now) r = (as_snapshot r \<noteq> Panic)"
| "proper C (CTouch i now) r = (as_bool r \<noteq> Panic)"
| "proper C (CReconcile cap aTTL qTTL now) r = (as_reconcile r \<noteq> Panic)"
| "proper C CStats r = (as_stats r \<noteq> Panic)"
| "proper C (CSetCapacity n) r = (as_unit r \<noteq> Panic)"
| "proper C CGetCapacity r = (as_capacity r \<noteq> Panic \<and> (\<forall>n. as_capacity r = Ok (n, True) \<longrightarrow> n \<le> C))"
| "proper C CFlush r = (as_int r \<noteq> Panic)"

primrec safe :: "'a prog \<Rightarrow> int \<Rightarrow> ('a \<Rightarrow> bool) \<Rightarrow> bool" where
  "safe (Return x) C Q = Q x"
| "safe (Now k) C Q = (\<forall>t. safe (k t) C Q)"
| "safe (LoadLast k) C Q = (\<forall>l. safe (k l) C Q)"
| "safe (StoreLast v p) C Q = safe p C Q"
| "safe (CasLast u v k) C Q = (\<forall>b. safe (k b) C Q)"
| "safe (LoadCapacity k) C Q = (\<forall>n. 1 \<le> n \<longrightarrow> n \<le> C \<longrightarrow> safe (k n) C Q)"
| "safe (StoreCapacity n p) C Q = (1 \<le> n \<and> n \<le> C \<and> safe p C Q)"
| "safe (LoadCache k) C Q = (\<forall>x. safe (k x) C Q)"
| "safe (StoreCache x p) C Q = safe p C Q"
| "safe (Count g p) C Q = safe p C Q"
| "safe (Call q k) C Q = (modest C q \<and> (\<forall>r. proper C q r \<longrightarrow> safe (k r) C Q))"

lemma safe_mono: "safe p C Q \<Longrightarrow> (\<And>x. Q x \<Longrightarrow> Q' x) \<Longrightarrow> safe p C Q'"
  by (induction p) auto

lemma safe_bind [simp]: "safe (bind_prog p f) C Q = safe p C (\<lambda>x. safe (f x) C Q)"
  by (induction p) simp_all

lemma safe_ask [simp]: "safe (ask q get) C Q \<longleftrightarrow> modest C q \<and> (\<forall>r. proper C q r \<longrightarrow> Q (get r))"
  by (simp add: ask_def)

abbreviation calm :: "int \<Rightarrow> 'a result prog \<Rightarrow> bool" where
  "calm C p \<equiv> safe p C (\<lambda>r. r \<noteq> Panic)"

lemma calm_then: "calm C p \<Longrightarrow> (\<And>v. calm C (f v)) \<Longrightarrow> calm C (then_ok p f)"
  by (auto simp: then_ok_def elim!: safe_mono split: result.split)

lemma calm_returns: "calm C p \<Longrightarrow> safe (returns p) C id"
  by (auto simp: returns_def elim!: safe_mono)

text \<open>Every method is safe, if the configuration is.\<close>

lemma calm_calls:
  "calm C (ask (CLookup i now) as_snapshot)" "calm C (ask (CTouch i now) as_bool)"
  "calm C (ask (CEnqueue i now) as_snapshot)" "calm C (ask CStats as_stats)" "calm C (ask CFlush as_int)"
  "cap \<le> C \<Longrightarrow> calm C (ask (CTryAdmit i cap now) as_bool)"
  "cap \<le> C \<Longrightarrow> calm C (ask (CReconcile cap aTTL qTTL now) as_reconcile)"
  "n \<le> C \<Longrightarrow> calm C (ask (CSetCapacity n) as_unit)"
  by (simp_all add: modest_def)

lemma calm_SetCapacity: "n \<le> C \<Longrightarrow> calm C (go_SetCapacity n)"
  unfolding go_SetCapacity_def by (auto intro!: calm_then calm_calls simp del: safe_ask)

lemma calm_refreshCapacity:
  "1 \<le> cfg_Capacity cfg \<Longrightarrow> cfg_Capacity cfg \<le> C \<Longrightarrow> calm C (go_refreshCapacity cfg)"
  by (auto simp: go_refreshCapacity_def modest_def split: result.split)

lemma calm_count: "safe p C Q \<Longrightarrow> safe (foldr (\<lambda>w. Count (g w)) ws p) C Q"
  by (induction ws) simp_all

lemma calm_reconcile: "calm C (go_reconcile cfg now)"
  unfolding go_reconcile_def by (auto intro!: calm_then calm_calls calm_count simp del: safe_ask)

lemma calm_maybeReconcile: "calm C (go_maybeReconcile cfg now)"
  by (simp add: go_maybeReconcile_def Let_def calm_reconcile)

lemma calm_etaStats: "calm C (go_etaStats cfg)"
  unfolding go_etaStats_def Let_def
  by (auto intro!: calm_then calm_calls split: option.split simp del: safe_ask)

lemma calm_eta: "calm C (go_eta cfg n)"
  unfolding go_eta_def safe_bind
  by (rule safe_mono [OF calm_etaStats]) (simp add: eta_value_def)

lemma calm_result: "calm C (go_result cfg d snap)"
  by (auto simp: go_result_def Let_def intro!: calm_then calm_eta)

lemma calm_Check: "calm C (go_Check cfg i)"
  unfolding go_Check_def
  by (auto intro!: calm_then calm_calls calm_maybeReconcile calm_result simp del: safe_ask split: status.split)

lemma calm_StatusOf: "calm C (go_StatusOf cfg i)"
  unfolding go_StatusOf_def
  by (auto intro!: calm_then calm_calls calm_maybeReconcile calm_result simp del: safe_ask split: status.split)

lemma calm_tick:
  assumes "1 \<le> cfg_Capacity cfg" "cfg_Capacity cfg \<le> C"
  shows "calm C (go_tick cfg)"
  unfolding go_tick_def
  by (rule calm_then [OF calm_refreshCapacity [OF assms]])
    (auto intro!: safe_mono [OF calm_reconcile] split: result.split)

lemma safe_serve:
  assumes "1 \<le> cfg_Capacity cfg" "cfg_Capacity cfg \<le> C" "\<And>n. q = RSetCapacity n \<Longrightarrow> n \<le> C"
  shows "safe (go_serve cfg q) C id"
  using assms(3)
  by (cases q) (auto intro!: calm_returns calm_Check calm_StatusOf calm_tick [OF assms(1,2)] calm_SetCapacity
      calm_calls simp del: safe_ask)

section \<open>Schedules\<close>

text \<open>What a schedule may ask for.\<close>

fun decent :: "('e \<Rightarrow> bool) \<Rightarrow> int \<Rightarrow> 'e move \<Rightarrow> bool" where
  "decent legal C (Spawn q) = (\<forall>n. q = RSetCapacity n \<longrightarrow> n \<le> C)"
| "decent legal C Adopt = True"
| "decent legal C (Advance k e) = legal e"
| "decent legal C (Elsewhere e q) = (legal e \<and> modest C q)"

lemma store_call_exec: "snd (store_call ops q s) = store_exec ops q s"
  by (cases q) simp_all

context shared_store
begin

lemma call_proper:
  assumes "legal e" "sound C s" "w \<le> budget s" "modest C q"
  shows "proper C q (fst (store_call (ops e) q s))"
  using call_keeps [OF assms] reads_modest [OF assms(1-3)] by (cases q) auto

definition safe_process :: "int \<Rightarrow> 's process \<Rightarrow> bool" where
  "safe_process C P \<longleftrightarrow> steady C (pc_ctrl P) \<and> (\<forall>p \<in> set (pc_threads P). safe p C id)"

lemma act_keeps:
  assumes "legal e" "steady C c" "w \<le> budget (ct_store c)" "safe p C Q" "act (ops e) p c = (p', c')"
  shows "steady C c' \<and> safe p' C Q \<and> budget (ct_store c) \<le> budget (ct_store c') + w"
proof (cases p)
  case (LoadCapacity k)
  then show ?thesis using assms by (auto simp: steady_def sane_policy_def)
next
  case (StoreCapacity n p1)
  then show ?thesis using assms by (auto simp: steady_def sane_policy_def Capacity_def)
next
  case (Call q k)
  have s: "sound C (ct_store c)" using assms(2) by (simp add: steady_def)
  have q: "modest C q" using assms(4) by (simp add: Call)
  from call_keeps [OF assms(1) s assms(3) q] call_proper [OF assms(1) s assms(3) q] assms
  show ?thesis by (auto simp: Call steady_def store_call_exec [symmetric] split: prod.splits)
qed (use assms in \<open>auto simp: steady_def split: if_splits\<close>)

lemma make_move_keeps:
  assumes "decent legal C m" "safe_process C P" "w \<le> budget (ct_store (pc_ctrl P))"
  shows "safe_process C (make_move ops m P) \<and>
    budget (ct_store (pc_ctrl P)) \<le> budget (ct_store (pc_ctrl (make_move ops m P))) + w"
proof -
  have c: "steady C (pc_ctrl P)" "1 \<le> cfg_Capacity (ct_cfg (pc_ctrl P))" "cfg_Capacity (ct_cfg (pc_ctrl P)) \<le> C"
    using assms(2) by (simp_all add: safe_process_def steady_def sane_policy_def)
  show ?thesis
  proof (cases m)
    case (Spawn q)
    with safe_serve [OF c(2,3), of q] assms(1,2) show ?thesis by (auto simp: safe_process_def)
  next
    case Adopt
    with calm_returns [OF calm_refreshCapacity [OF c(2,3)]] assms(2) show ?thesis by (auto simp: safe_process_def)
  next
    case (Advance n e)
    show ?thesis
    proof (cases "n < length (pc_threads P)")
      case True
      obtain p' c' where a: "act (ops e) (pc_threads P ! n) (pc_ctrl P) = (p', c')" by fastforce
      have "legal e" "safe (pc_threads P ! n) C id" using assms(1,2) True by (simp_all add: Advance safe_process_def)
      from act_keeps [OF this(1) c(1) assms(3) this(2) a] assms(2) show ?thesis
        using set_update_subset_insert [of "pc_threads P" n p'] by (auto simp: Advance True a safe_process_def)
    qed (use assms in \<open>simp add: Advance\<close>)
  next
    case (Elsewhere e q)
    have "sound C (ct_store (pc_ctrl P))" using c(1) by (simp add: steady_def)
    with call_keeps [of e C "ct_store (pc_ctrl P)" q] assms show ?thesis
      by (simp add: Elsewhere safe_process_def steady_def)
  qed
qed

lemma interleave_safe:
  assumes "\<forall>m \<in> set ms. decent legal C m" "safe_process C P" "length ms * w \<le> budget (ct_store (pc_ctrl P))"
  shows "safe_process C (interleave ops ms P)"
  using assms
proof (induction ms arbitrary: P)
  case (Cons m ms)
  have "decent legal C m" "w \<le> budget (ct_store (pc_ctrl P))" using Cons.prems(1,3) by simp_all
  from make_move_keeps [OF this(1) Cons.prems(2) this(2)] Cons show ?case by simp
qed simp

lemma interleaving_stays_sound:
  assumes "steady C c" "\<forall>m \<in> set ms. decent legal C m" "length ms * w \<le> budget (ct_store c)"
    and "interleave ops ms \<lparr>pc_ctrl = c, pc_threads = []\<rparr> = P"
  shows "sound C (ct_store (pc_ctrl P))" "1 \<le> Capacity (pc_ctrl P)" "Capacity (pc_ctrl P) \<le> C"
    "Return False \<notin> set (pc_threads P)"
proof -
  have "safe_process C P"
    using interleave_safe [OF assms(2), of "\<lparr>pc_ctrl = c, pc_threads = []\<rparr>"] assms(1,3,4)
    by (simp add: safe_process_def)
  then show "sound C (ct_store (pc_ctrl P))" "1 \<le> Capacity (pc_ctrl P)" "Capacity (pc_ctrl P) \<le> C"
    "Return False \<notin> set (pc_threads P)"
    by (auto simp: safe_process_def steady_def sane_policy_def)
qed

end

text \<open>The store calls that a move makes: to the store a schedule is a run of calls.\<close>

fun made :: "'e move \<Rightarrow> 's process \<Rightarrow> ('e \<times> call) list" where
  "made (Advance n e) P =
     (if n < length (pc_threads P)
      then case pc_threads P ! n of Call q k \<Rightarrow> [(e, q)] | _ \<Rightarrow> []
      else [])"
| "made (Elsewhere e q) P = [(e, q)]"
| "made _ P = []"

lemma make_move_store:
  "ct_store (pc_ctrl (make_move ops m P)) = store_run ops (made m P) (ct_store (pc_ctrl P))"
proof (cases m)
  case (Advance n e)
  show ?thesis
  proof (cases "n < length (pc_threads P)")
    case True
    then show ?thesis
      by (cases "pc_threads P ! n") (auto simp: Advance store_call_exec [symmetric] split: prod.split)
  qed (simp add: Advance)
qed simp_all

fun legal_move :: "('e \<Rightarrow> bool) \<Rightarrow> 'e move \<Rightarrow> bool" where
  "legal_move legal (Advance n e) = legal e"
| "legal_move legal (Elsewhere e q) = legal e"
| "legal_move legal _ = True"

lemma made_short: "length (made m P) \<le> 1"
proof (cases m)
  case (Advance n e)
  then show ?thesis by (cases "pc_threads P ! n") simp_all
qed simp_all

lemma made_legal:
  assumes "legal_move legal m" "(e, q) \<in> set (made m P)"
  shows "legal e"
proof (cases m)
  case (Advance n e')
  with assms have "n < length (pc_threads P)" by (cases "n < length (pc_threads P)") simp_all
  with assms Advance show ?thesis by (cases "pc_threads P ! n") simp_all
qed (use assms in simp_all)

text \<open>Every store of the contract can be shared.\<close>

context room_store
begin

lemma shared_alone: "shared_store ops legal sound budget 1"
proof
  fix e C s q n
  assume e: "legal e" and s: "sound C s" and b: "1 \<le> budget s"
  have inv: "inv s" and pos: "0 < budget s" using s b by (simp_all add: sound_def)
  show "call_returns (ops e) q s \<and> sound C (store_exec (ops e) q s) \<and>
      budget s \<le> budget (store_exec (ops e) q s) + 1" if "modest C q"
    using exec_returns [OF e inv pos] sound_exec [OF e s that pos] exec_budget [OF e inv, of q] by simp
  assume "fst (op_GetCapacity (ops e) s) = Ok (n, True)"
  then have "override (view s) = Some n" using GetCapacity_law [OF e inv] by fastforce
  with s show "n \<le> C" by (simp add: sound_def roomy_def)
qed simp

text \<open>And it keeps the order of the line in every schedule, whatever the goroutines do.\<close>

lemma interleave_outranks:
  assumes "inv (ct_store (pc_ctrl P))" "length ms \<le> budget (ct_store (pc_ctrl P))" "\<forall>m \<in> set ms. legal_move legal m"
    and "outranks i j (view (ct_store (pc_ctrl P)))"
    and "\<And>k. k \<le> length ms \<Longrightarrow> queued (view (ct_store (pc_ctrl (interleave ops (take k ms) P)))) i"
  shows "inv (ct_store (pc_ctrl (interleave ops ms P))) \<and> outranks i j (view (ct_store (pc_ctrl (interleave ops ms P))))"
  using assms
proof (induction ms arbitrary: P)
  case (Cons m ms)
  let ?P = "make_move ops m P" and ?s = "ct_store (pc_ctrl P)"
  have cs: "length (made m P) \<le> 1" "\<forall>(e, q) \<in> set (made m P). legal e"
    using made_short made_legal [of legal m _ _ P] Cons.prems(3) by fastforce+
  have len: "length (made m P) \<le> budget ?s" using cs(1) Cons.prems(2) by simp
  have q: "queued (view (store_run ops (take k (made m P)) ?s)) i" if "k \<le> length (made m P)" for k
  proof (cases k)
    case 0
    then show ?thesis using Cons.prems(5) [of 0] by simp
  next
    case (Suc k')
    then have "take k (made m P) = made m P" using that cs(1) by simp
    then show ?thesis using Cons.prems(5) [of 1] by (simp add: make_move_store)
  qed
  have step: "inv (ct_store (pc_ctrl ?P))" "outranks i j (view (ct_store (pc_ctrl ?P)))"
    using run_outranks [OF Cons.prems(1) len cs(2) Cons.prems(4) q] by (simp_all add: make_move_store)
  have "budget ?s \<le> budget (ct_store (pc_ctrl ?P)) + length (made m P)"
    using run_budget [OF Cons.prems(1) len cs(2)] by (simp add: make_move_store)
  then have "length ms \<le> budget (ct_store (pc_ctrl ?P))" using Cons.prems(2) cs(1) by simp
  moreover have "queued (view (ct_store (pc_ctrl (interleave ops (take k ms) ?P)))) i" if "k \<le> length ms" for k
    using Cons.prems(5) [of "Suc k"] that by simp
  ultimately show ?case using Cons.IH [OF step(1) _ _ step(2)] Cons.prems(3) by simp
qed simp

end

end
