(* ===== verification/ReconcileGap.thy ===== *)
theory ReconcileGap
  imports Goroutines
begin

text \<open>
  \<open>MinReconcileGap\<close> under concurrency: requests reconcile only if they win the compare-and-swap on
  \<open>lastReconcile\<close>. The winners of a schedule are logged with the instants they swapped in. They are
  a gap apart, up to the time that passes between a goroutine's reading of the clock and its writes
  of \<open>lastReconcile\<close>, because such a write may move \<open>lastReconcile\<close> backwards.
\<close>

section \<open>Winners and delays\<close>

definition latest :: "'s controller \<Rightarrow> int" where
  "latest c = unix_nano (ct_clock c (ct_reads c - 1))"

fun winner :: "'e move \<Rightarrow> 's process \<Rightarrow> int list" where
  "winner (Advance n e) P =
     (if n < length (pc_threads P)
      then case pc_threads P ! n of
             CasLast u v k \<Rightarrow> if ct_lastReconcile (pc_ctrl P) = u then [v] else []
           | _ \<Rightarrow> []
      else [])"
| "winner _ P = []"

fun winners :: "('e \<Rightarrow> 's store_ops) \<Rightarrow> 'e move list \<Rightarrow> 's process \<Rightarrow> int list" where
  "winners ops [] P = []"
| "winners ops (m # ms) P = winner m P @ winners ops ms (make_move ops m P)"

text \<open>A goroutine writes \<open>lastReconcile\<close> while its reading is not older than \<open>d\<close>.\<close>

fun written :: "'a prog \<Rightarrow> int option" where
  "written (StoreLast v p) = Some v"
| "written (CasLast u v k) = Some v"
| "written _ = None"

fun in_time :: "dur \<Rightarrow> 'e move \<Rightarrow> 's process \<Rightarrow> bool" where
  "in_time d (Advance n e) P =
     (if n < length (pc_threads P)
      then case written (pc_threads P ! n) of Some v \<Rightarrow> latest (pc_ctrl P) \<le> v + d | None \<Rightarrow> True
      else True)"
| "in_time d _ P = True"

fun prompt :: "('e \<Rightarrow> 's store_ops) \<Rightarrow> dur \<Rightarrow> 'e move list \<Rightarrow> 's process \<Rightarrow> bool" where
  "prompt ops d [] P = True"
| "prompt ops d (m # ms) P = (in_time d m P \<and> prompt ops d ms (make_move ops m P))"

text \<open>Instants whose differences do not wrap: from 1970 to 2116.\<close>

definition datable :: "int \<Rightarrow> bool" where
  "datable t \<longleftrightarrow> 0 \<le> t \<and> t < 2 ^ 62"

lemma datable_nano: "datable t \<Longrightarrow> unix_nano t = t"
  by (simp add: datable_def unix_nano_def s64_def)

lemma datable_sub: "datable t \<Longrightarrow> datable u \<Longrightarrow> s64 (t - u) = t - u"
  by (simp add: datable_def s64_def)

section \<open>What a goroutine writes\<close>

text \<open>It writes instants read before, up to \<open>b\<close> so far, and swaps only a gap after what it replaces.\<close>

primrec stamped :: "'a prog \<Rightarrow> dur \<Rightarrow> int \<Rightarrow> bool" where
  "stamped (Return x) gap b = True"
| "stamped (Now k) gap b = (\<forall>t. datable t \<longrightarrow> stamped (k t) gap (max b t))"
| "stamped (LoadLast k) gap b = (\<forall>l. datable l \<longrightarrow> stamped (k l) gap b)"
| "stamped (StoreLast v p) gap b = (datable v \<and> v \<le> b \<and> stamped p gap b)"
| "stamped (CasLast u v k) gap b = (datable v \<and> v \<le> b \<and> u + gap \<le> v \<and> (\<forall>s. stamped (k s) gap b))"
| "stamped (LoadCapacity k) gap b = (\<forall>n. stamped (k n) gap b)"
| "stamped (StoreCapacity n p) gap b = stamped p gap b"
| "stamped (LoadCache k) gap b = (\<forall>x. stamped (k x) gap b)"
| "stamped (StoreCache x p) gap b = stamped p gap b"
| "stamped (Count g p) gap b = stamped p gap b"
| "stamped (Call q k) gap b = (\<forall>r. stamped (k r) gap b)"

lemma stamped_mono: "stamped p gap b \<Longrightarrow> b \<le> b' \<Longrightarrow> stamped p gap b'"
proof (induction p arbitrary: b b')
  case (Now k)
  have "stamped (k t) gap (max b' t)" if "datable t" for t
  proof (rule Now.IH [OF rangeI])
    show "stamped (k t) gap (max b t)" using Now.prems(1) that by simp
    show "max b t \<le> max b' t" using Now.prems(2) by (rule max.mono) simp
  qed
  then show ?case by simp
next
  case (LoadLast k)
  then show ?case by (metis rangeI stamped.simps(3))
next
  case (StoreLast v p)
  then show ?case using StoreLast.IH [of b b'] by simp
next
  case (CasLast u v k)
  then show ?case by (metis (no_types) order_trans rangeI stamped.simps(5))
next
  case (LoadCapacity k)
  then show ?case by (metis rangeI stamped.simps(6))
next
  case (LoadCache k)
  then show ?case by (metis rangeI stamped.simps(8))
next
  case (Call q k)
  then show ?case by (metis rangeI stamped.simps(11))
qed simp_all

lemma stamped_bind:
  "stamped p gap b \<Longrightarrow> (\<And>x b'. b \<le> b' \<Longrightarrow> stamped (f x) gap b') \<Longrightarrow> stamped (bind_prog p f) gap b"
  by (induction p arbitrary: b) auto

lemma stamped_then:
  "stamped p gap b \<Longrightarrow> (\<And>v b'. b \<le> b' \<Longrightarrow> stamped (f v) gap b') \<Longrightarrow> stamped (then_ok p f) gap b"
  unfolding then_ok_def by (rule stamped_bind) (auto split: result.split)

lemma stamped_ask [simp]: "stamped (ask q get) gap b"
  by (simp add: ask_def)

lemma stamped_count: "stamped p gap b \<Longrightarrow> stamped (foldr (\<lambda>w. Count (g w)) ws p) gap b"
  by (induction ws) simp_all

lemma stamped_reconcile: "datable now \<Longrightarrow> now \<le> b \<Longrightarrow> stamped (go_reconcile cfg now) gap b"
  by (auto simp: go_reconcile_def datable_nano intro!: stamped_then stamped_count)

lemma stamped_maybeReconcile:
  "datable now \<Longrightarrow> now \<le> b \<Longrightarrow> stamped (go_maybeReconcile cfg now) (cfg_MinReconcileGap cfg) b"
  by (auto simp: go_maybeReconcile_def Let_def datable_nano datable_sub stamped_reconcile)

lemma stamped_result: "stamped (go_result cfg d snap) gap b"
  by (auto simp: go_result_def go_eta_def go_etaStats_def Let_def
      intro!: stamped_then stamped_bind split: option.split)

lemma stamped_refreshCapacity: "stamped (go_refreshCapacity cfg) gap b"
  by (auto simp: go_refreshCapacity_def intro!: stamped_bind split: result.split)

lemma stamped_Check: "stamped (go_Check cfg i) (cfg_MinReconcileGap cfg) b"
  by (auto simp: go_Check_def intro!: stamped_then stamped_maybeReconcile stamped_result split: status.split)

lemma stamped_StatusOf: "stamped (go_StatusOf cfg i) (cfg_MinReconcileGap cfg) b"
  by (auto simp: go_StatusOf_def intro!: stamped_then stamped_maybeReconcile stamped_result split: status.split)

lemma stamped_tick: "stamped (go_tick cfg) gap b"
  by (auto simp: go_tick_def intro!: stamped_then stamped_bind stamped_refreshCapacity stamped_reconcile
      split: result.split)

lemma stamped_returns: "stamped p gap b \<Longrightarrow> stamped (returns p) gap b"
  by (auto simp: returns_def intro!: stamped_bind)

lemma stamped_serve: "stamped (go_serve cfg q) (cfg_MinReconcileGap cfg) b"
  by (cases q) (auto simp: go_SetCapacity_def intro!: stamped_returns stamped_Check stamped_StatusOf stamped_tick
      stamped_then)

section \<open>The winners are apart\<close>

lemma act_frame:
  "act ops p c = (p', c') \<Longrightarrow> ct_cfg c' = ct_cfg c \<and> ct_clock c' = ct_clock c \<and> ct_reads c \<le> ct_reads c'"
  by (cases p) (auto split: prod.splits if_splits)

text \<open>\<open>w\<close> is the newest winner so far.\<close>

definition gapped :: "dur \<Rightarrow> int \<Rightarrow> 's process \<Rightarrow> bool" where
  "gapped d w P \<longleftrightarrow> mono (ct_clock (pc_ctrl P)) \<and> (\<forall>n. datable (ct_clock (pc_ctrl P) n)) \<and>
     datable (ct_lastReconcile (pc_ctrl P)) \<and> w \<le> ct_lastReconcile (pc_ctrl P) + d \<and> w \<le> latest (pc_ctrl P) \<and>
     (\<forall>p \<in> set (pc_threads P). stamped p (cfg_MinReconcileGap (ct_cfg (pc_ctrl P))) (latest (pc_ctrl P)))"

lemma act_gapped:
  assumes "act ops p c = (p', c')" "stamped p gap (latest c)" "mono (ct_clock c)" "\<forall>n. datable (ct_clock c n)"
    and "datable (ct_lastReconcile c)" "0 \<le> d" "w \<le> ct_lastReconcile c + d" "w \<le> latest c"
    and "\<And>v. written p = Some v \<Longrightarrow> latest c \<le> v + d"
  shows "stamped p' gap (latest c') \<and> datable (ct_lastReconcile c') \<and> latest c \<le> latest c' \<and> w \<le> ct_lastReconcile c' + d"
proof (cases p)
  case (Now k)
  then have c': "p' = k (ct_clock c (ct_reads c))" "c' = c\<lparr>ct_reads := ct_reads c + 1\<rparr>" using assms(1) by auto
  have now: "latest c' = ct_clock c (ct_reads c)" using assms(4) by (simp add: latest_def c' datable_nano)
  have le: "latest c \<le> latest c'"
    unfolding now using assms(4) monoD [OF assms(3), of "ct_reads c - 1" "ct_reads c"]
    by (simp add: latest_def datable_nano)
  from assms(2,4) have "stamped p' gap (max (latest c) (ct_clock c (ct_reads c)))" by (simp add: Now c')
  with le have "stamped p' gap (latest c')" by (simp add: now)
  with le assms(5,7) c' show ?thesis by simp
qed (use assms in \<open>auto simp: latest_def split: prod.splits if_splits\<close>)

lemma gapped_threads:
  assumes "gapped d w P" "n < length (pc_threads P)"
  shows "stamped (pc_threads P ! n) (cfg_MinReconcileGap (ct_cfg (pc_ctrl P))) (latest (pc_ctrl P))"
  using assms by (simp add: gapped_def)

lemma move_gapped:
  assumes "gapped d w P" "in_time d m P" "0 \<le> d"
  shows "gapped d w (make_move ops m P)"
proof (cases m)
  case (Spawn q)
  with assms(1) stamped_serve show ?thesis by (auto simp: gapped_def)
next
  case Adopt
  with assms(1) stamped_returns [OF stamped_refreshCapacity] show ?thesis by (auto simp: gapped_def)
next
  case (Advance n e)
  show ?thesis
  proof (cases "n < length (pc_threads P)")
    case True
    let ?gap = "cfg_MinReconcileGap (ct_cfg (pc_ctrl P))"
    obtain p' c' where a: "act (ops e) (pc_threads P ! n) (pc_ctrl P) = (p', c')" by fastforce
    have "latest (pc_ctrl P) \<le> v + d" if "written (pc_threads P ! n) = Some v" for v
      using assms(2) that True by (simp add: Advance)
    with assms(1,3) act_gapped [OF a gapped_threads [OF assms(1) True], of d w]
    have c': "stamped p' ?gap (latest c')" "datable (ct_lastReconcile c')" "latest (pc_ctrl P) \<le> latest c'"
      "w \<le> ct_lastReconcile c' + d" by (simp_all add: gapped_def)
    have "stamped p ?gap (latest c')" if p: "p \<in> set ((pc_threads P)[n := p'])" for p
    proof -
      consider "p = p'" | "p \<in> set (pc_threads P)" using subsetD [OF set_update_subset_insert p] by auto
      then show ?thesis using c'(1) assms(1) stamped_mono [OF _ c'(3), of p ?gap] by cases (simp_all add: gapped_def)
    qed
    with assms(1) c'(2-4) act_frame [OF a] show ?thesis
      by (auto simp: Advance True a gapped_def)
  qed (use assms(1) in \<open>simp add: Advance\<close>)
next
  case (Elsewhere e q)
  with assms(1) show ?thesis by (simp add: gapped_def latest_def)
qed

lemma winnerE:
  assumes "winner m P \<noteq> []"
  obtains n e v k where "m = Advance n e" "n < length (pc_threads P)"
    "pc_threads P ! n = CasLast (ct_lastReconcile (pc_ctrl P)) v k" "winner m P = [v]"
  using assms by (cases m) (auto split: if_splits prog.splits)

lemma winner_gapped:
  assumes "gapped d w P" "in_time d m P" "0 \<le> d" "winner m P = v # vs"
  shows "vs = []" "w + (cfg_MinReconcileGap (ct_cfg (pc_ctrl P)) - d) \<le> v" "gapped d v (make_move ops m P)"
proof -
  from assms(4) obtain n e k where m: "m = Advance n e" "n < length (pc_threads P)"
    "pc_threads P ! n = CasLast (ct_lastReconcile (pc_ctrl P)) v k" "winner m P = [v]"
    by (metis list.distinct(1) list.inject winnerE)
  then show "vs = []" using assms(4) by simp
  have "v \<le> latest (pc_ctrl P)" "ct_lastReconcile (pc_ctrl P) + cfg_MinReconcileGap (ct_cfg (pc_ctrl P)) \<le> v"
    using gapped_threads [OF assms(1) m(2)] by (simp_all add: m(3))
  with assms(1) show "w + (cfg_MinReconcileGap (ct_cfg (pc_ctrl P)) - d) \<le> v"
    by (simp add: gapped_def)
  have "gapped d w (make_move ops m P)" by (rule move_gapped [OF assms(1-3)])
  then show "gapped d v (make_move ops m P)"
    using m(1-3) assms(3) \<open>v \<le> latest (pc_ctrl P)\<close> by (simp add: gapped_def latest_def)
qed

lemma make_move_cfg: "ct_cfg (pc_ctrl (make_move ops m P)) = ct_cfg (pc_ctrl P)"
  by (cases m) (auto dest: act_frame split: prod.split)

lemma winners_apart:
  assumes "gapped d w P" "prompt ops d ms P" "0 \<le> d" "d \<le> gap" "gap = cfg_MinReconcileGap (ct_cfg (pc_ctrl P))"
  shows "sorted_wrt (\<lambda>v v'. v + (gap - d) \<le> v') (w # winners ops ms P)"
  using assms
proof (induction ms arbitrary: w P)
  case (Cons m ms)
  let ?P = "make_move ops m P"
  have m: "in_time d m P" "prompt ops d ms ?P" "gap = cfg_MinReconcileGap (ct_cfg (pc_ctrl ?P))"
    using Cons.prems(2,5) by (simp_all add: make_move_cfg)
  show ?case
  proof (cases "winner m P")
    case Nil
    with Cons.IH [OF move_gapped [OF Cons.prems(1) m(1) Cons.prems(3)] m(2) Cons.prems(3,4) m(3)] show ?thesis by simp
  next
    case (Cons v vs)
    note v = winner_gapped [OF Cons.prems(1) m(1) Cons.prems(3) Cons]
    from Cons.IH [OF v(3) m(2) Cons.prems(3,4) m(3)] v(2) Cons.prems(4,5) show ?thesis
      by (auto simp: Cons v(1))
  qed
qed simp

end
