(* ===== verification/GoroutineProps.thy ===== *)
theory GoroutineProps
  imports GoroutineSafety ReconcileGap GowaitProps ValkeyProps
begin

text \<open>
  The properties of the goroutines of one process, on the in-process store and on a Valkey server that
  other replicas use as well.
\<close>

interpretation mem_alone: shared_store memory_ops range_ok "room_store.sound mem_inv mem_abs" mem_budget 1
  by (rule room_store.shared_alone [OF mem.room_store_axioms])

lemmas sound_in_memory = room_store.sound_def [OF mem.room_store_axioms]

lemma sound_New: "0 \<le> C \<Longrightarrow> room_store.sound mem_inv mem_abs C New"
  by (simp add: sound_in_memory mem_inv_New mem_abs_New roomy_def empty_room_def active_count_def del: mem_abs_sel)

lemma sound_active: "room_store.sound mem_inv mem_abs C s \<Longrightarrow> mem_inv s \<and> active s \<le> C"
  by (simp add: sound_in_memory roomy_def mem_invD(2) del: mem_abs_sel)

text \<open>A process that has just been started.\<close>

definition fresh_process :: "'s \<Rightarrow> config \<Rightarrow> registry option \<Rightarrow> (nat \<Rightarrow> time) \<Rightarrow> 's process" where
  "fresh_process s cfg reg clock =
     \<lparr>pc_ctrl = SetMetrics reg (new_controller s cfg clock), pc_threads = []\<rparr>"

lemma fresh_process_sel [simp]:
  "ct_store (pc_ctrl (fresh_process s cfg reg clock)) = s" "ct_cfg (pc_ctrl (fresh_process s cfg reg clock)) = cfg"
  "pc_threads (fresh_process s cfg reg clock) = []" "ct_clock (pc_ctrl (fresh_process s cfg reg clock)) = clock"
  "ct_lastReconcile (pc_ctrl (fresh_process s cfg reg clock)) = 0"
  "ct_reads (pc_ctrl (fresh_process s cfg reg clock)) = 0"
  "sane_policy C (pc_ctrl (fresh_process s cfg reg clock)) \<longleftrightarrow> 1 \<le> cfg_Capacity cfg \<and> cfg_Capacity cfg \<le> C"
  by (auto simp: fresh_process_def new_controller_def SetMetrics_def sane_policy_def Capacity_def)

text \<open>A process on a Valkey server.\<close>

context valkey_replicas
begin

lemma vk_process_sound:
  assumes "vk_inv v" "roomy C (vk_view v)" "1 \<le> cfg_Capacity cfg" "cfg_Capacity cfg \<le> C"
    and "\<forall>m \<in> set ms. decent (honest cl) C m" "length ms \<le> vk_budget v"
    and "interleave ops ms (fresh_process v cfg reg clock) = P"
  shows "vk_inv (ct_store (pc_ctrl P)) \<and> roomy C (vk_view (ct_store (pc_ctrl P))) \<and> Return False \<notin> set (pc_threads P)"
proof -
  note alone = lossy.shared_alone
  have "shared_store.steady lossy.sound C (pc_ctrl (fresh_process v cfg reg clock))"
    using assms(1-4) by (simp add: shared_store.steady_def [OF alone] lossy.sound_def)
  from shared_store.interleaving_stays_sound [OF alone this assms(5), of P] assms(6,7)
  show ?thesis by (simp add: fresh_process_def SetMetrics_def new_controller_def lossy.sound_def)
qed

end

lemmas vk_interleaving = valkey_replicas.vk_process_sound [OF replicas, folded vk_reading]

text \<open>The schedule of a witness: a visitor and the janitor take turns, then an administrator looks in.\<close>

definition demo_moves :: "'e \<Rightarrow> 'e move list" where
  "demo_moves e = [Spawn (RCheck ''a''), Adopt, Advance 0 e, Spawn RTick, Advance 2 e, Advance 0 e, Advance 2 e,
     Advance 0 e, Elsewhere e CStats, Advance 2 e, Advance 1 e, Advance 0 e, Spawn (RSetCapacity 2), Advance 3 e]"

definition demo_policy :: config where
  "demo_policy = \<lparr>cfg_Capacity = 1, cfg_ActiveTTL = 10 * second, cfg_QueueTTL = 20 * second,
     cfg_MinReconcileGap = 250 * millisecond, cfg_StatsCacheTTL = second\<rparr>"

lemma demo_gap: "cfg_MinReconcileGap demo_policy = 250 * millisecond"
  by (simp add: demo_policy_def)

lemma demo_moves_decent: "legal e \<Longrightarrow> \<forall>m \<in> set (demo_moves e). decent legal 2 m"
  by (simp add: demo_moves_def modest_def)

lemma demo_moves_length [simp]: "length (demo_moves e) = 14"
  by (simp add: demo_moves_def)

text \<open>The goroutine of a poll up to where it reconciles.\<close>

lemma returns_simps:
  "returns (Now k) = Now (\<lambda>t. returns (k t))"
  "returns (LoadLast k1) = LoadLast (\<lambda>l. returns (k1 l))"
  "returns (StoreLast v p) = StoreLast v (returns p)"
  "returns (CasLast u v k2) = CasLast u v (\<lambda>b. returns (k2 b))"
  by (simp_all add: returns_def)

lemma then_ok_simps:
  "then_ok (Return (Ok x)) f = f x"
  "then_ok (LoadLast k1) f = LoadLast (\<lambda>l. then_ok (k1 l) f)"
  "then_ok (StoreLast v p) f = StoreLast v (then_ok p f)"
  "then_ok (CasLast u v k2) f = CasLast u v (\<lambda>b. then_ok (k2 b) f)"
  by (simp_all add: then_ok_def)

lemma poll_actions:
  assumes "0 < cfg_MinReconcileGap cfg"
  obtains F G where
    "\<And>i. go_serve cfg (RStatus i) = Now (\<lambda>now. LoadLast (\<lambda>l.
       if s64 (unix_nano now - l) < cfg_MinReconcileGap cfg then F i now
       else CasLast l (unix_nano now) (\<lambda>b. if b then StoreLast (unix_nano now) (G i now) else F i now)))"
proof -
  obtain H where H: "\<And>i. go_StatusOf cfg i = Now (\<lambda>now. then_ok (go_maybeReconcile cfg now) (H i now))"
    by (rule that) (rule go_StatusOf_def)
  obtain R where R: "\<And>now. go_reconcile cfg now = StoreLast (unix_nano now) (R now)"
    by (rule that) (rule go_reconcile_def)
  show thesis
    by (rule that [of "\<lambda>i now. returns (H i now ())" "\<lambda>i now. returns (then_ok (R now) (H i now))"])
      (simp add: H R go_maybeReconcile_def Let_def assms returns_simps then_ok_simps fun_eq_iff)
qed

text \<open>Three polls within a second: the second finds the reconcile of the first, the third wins again.\<close>

definition poll_moves :: "'e \<Rightarrow> 'e move list" where
  "poll_moves e = [Spawn (RStatus ''a''), Spawn (RStatus ''b''), Spawn (RStatus ''c''), Advance 0 e, Advance 0 e,
     Advance 0 e, Advance 1 e, Advance 1 e, Advance 0 e, Advance 2 e, Advance 2 e, Advance 2 e, Advance 2 e]"

definition poll_clock :: "nat \<Rightarrow> time" where
  "poll_clock n = 1000 * second + (if n \<ge> 2 then 300 else if n = 1 then 100 else 0) * millisecond"

lemma poll_run:
  shows "winners memory_ops (poll_moves sorted_range) (fresh_process New demo_policy None poll_clock) =
      [1000 * second, 1000 * second + 300 * millisecond]"
    and "prompt memory_ops (100 * millisecond) (poll_moves sorted_range) (fresh_process New demo_policy None poll_clock)"
proof -
  have "0 < cfg_MinReconcileGap demo_policy" by (simp add: demo_gap)
  then obtain F G where poll: "\<And>i. go_serve demo_policy (RStatus i) = Now (\<lambda>now. LoadLast (\<lambda>l.
      if s64 (unix_nano now - l) < cfg_MinReconcileGap demo_policy then F i now
      else CasLast l (unix_nano now) (\<lambda>b. if b then StoreLast (unix_nano now) (G i now) else F i now)))"
    by (rule poll_actions) (rule that)
  show "winners memory_ops (poll_moves sorted_range) (fresh_process New demo_policy None poll_clock) =
      [1000 * second, 1000 * second + 300 * millisecond]"
    by (simp add: poll_moves_def poll demo_gap poll_clock_def unix_nano_def s64_def del: go_serve.simps)
  show "prompt memory_ops (100 * millisecond) (poll_moves sorted_range) (fresh_process New demo_policy None poll_clock)"
    by (simp add: poll_moves_def poll demo_gap poll_clock_def unix_nano_def s64_def latest_def del: go_serve.simps)
qed

text \<open>
  A goroutine that stops for a whole gap between its swap and the \<open>Store\<close> that \<open>reconcile\<close> makes of the
  same instant takes \<open>lastReconcile\<close> back, and two others win a millisecond apart.
\<close>

definition stalled_moves :: "'e \<Rightarrow> 'e move list" where
  "stalled_moves e = [Spawn (RStatus ''a''), Spawn (RStatus ''b''), Spawn (RStatus ''c''), Advance 0 e, Advance 0 e,
     Advance 0 e, Advance 1 e, Advance 1 e, Advance 1 e, Advance 1 e, Advance 0 e, Advance 2 e, Advance 2 e, Advance 2 e]"

definition stalled_clock :: "nat \<Rightarrow> time" where
  "stalled_clock n = 1000 * second + (if n \<ge> 2 then second + millisecond else if n = 1 then second else 0)"

lemma stalled_write_breaks_the_gap:
  "winners memory_ops (stalled_moves sorted_range) (fresh_process New demo_policy None stalled_clock) =
     [1000 * second, 1001 * second, 1001 * second + millisecond]"
proof -
  have "0 < cfg_MinReconcileGap demo_policy" by (simp add: demo_gap)
  then obtain F G where poll: "\<And>i. go_serve demo_policy (RStatus i) = Now (\<lambda>now. LoadLast (\<lambda>l.
      if s64 (unix_nano now - l) < cfg_MinReconcileGap demo_policy then F i now
      else CasLast l (unix_nano now) (\<lambda>b. if b then StoreLast (unix_nano now) (G i now) else F i now)))"
    by (rule poll_actions) (rule that)
  show ?thesis
    by (simp add: stalled_moves_def poll demo_gap stalled_clock_def unix_nano_def s64_def del: go_serve.simps)
qed

text \<open>
  A refresh that reads the override before an administrator sets it, and writes afterwards, undoes the
  new capacity in this process, until the next refresh (\<open>capacity_propagates\<close>).
\<close>

definition late_refresh_moves :: "'e \<Rightarrow> 'e move list" where
  "late_refresh_moves e = [Adopt, Advance 0 e, Spawn (RSetCapacity 5), Advance 1 e, Advance 1 e, Advance 0 e]"

lemma late_refresh_undoes_capacity:
  defines "P \<equiv> interleave memory_ops (late_refresh_moves sorted_range) (fresh_process New demo_policy None poll_clock)"
  shows "pc_threads P = [Return True, Return True]" "GetCapacity (ct_store (pc_ctrl P)) = (Ok (5, True), ct_store (pc_ctrl P))"
    "Capacity (pc_ctrl P) = 1"
  by (simp_all add: P_def late_refresh_moves_def go_refreshCapacity_def go_SetCapacity_def returns_def then_ok_def ask_def
      GetCapacity_def SetCapacity_def New_def Capacity_def demo_policy_def)

text \<open>
  A goroutine that nobody interrupts does what the method does: action by action it ends with the
  result of \<open>Check\<close> or \<open>StatusOf\<close>, and so for every other request, and leaves the controller as
  the method leaves it.
\<close>

lemma uninterrupted_goroutine:
  "(\<exists>n. ((\<lambda>(p, c). act ops p c) ^^ n) (go_Check (ct_cfg c) i, c) = (Return (fst (Check ops i c)), snd (Check ops i c))) \<and>
   (\<exists>n. ((\<lambda>(p, c). act ops p c) ^^ n) (go_StatusOf (ct_cfg c) i, c) =
     (Return (fst (StatusOf ops i c)), snd (StatusOf ops i c))) \<and>
   (\<exists>n. ((\<lambda>(p, c). act ops p c) ^^ n) (go_serve (ct_cfg c) q, c) = (Return (fst (serve ops q c)), snd (serve ops q c)))"
  using acts_to_the_end [of ops "go_Check (ct_cfg c) i" c] acts_to_the_end [of ops "go_StatusOf (ct_cfg c) i" c]
    acts_to_the_end [of ops "go_serve (ct_cfg c) q" c]
  by (simp only: go_Check_alone go_StatusOf_alone go_serve_alone)

section \<open>Properties\<close>

text \<open>
  C6: On the in-process store, in every schedule of the atomic actions of any number of requests, polls,
  janitor ticks and administrators, no goroutine panics, the store stays well-formed, at most \<open>C\<close>
  tickets are active and the capacity in force stays between 1 and \<open>C\<close>, if neither the
  configuration nor an administrator asks for more.
\<close>

theorem goroutines_never_overfill:
  assumes "1 \<le> cfg_Capacity cfg" and "cfg_Capacity cfg \<le> C"
    and "\<forall>m \<in> set ms. decent range_ok C m" and "length ms \<le> 2 ^ 63 - 2"
    and "interleave memory_ops ms (fresh_process New cfg reg clock) = P"
  shows "active (ct_store (pc_ctrl P)) \<le> C \<and> mem_inv (ct_store (pc_ctrl P)) \<and>
    1 \<le> Capacity (pc_ctrl P) \<and> Capacity (pc_ctrl P) \<le> C \<and> Return False \<notin> set (pc_threads P)"
proof -
  have "mem_alone.steady C (pc_ctrl (fresh_process New cfg reg clock))"
    using assms(1,2) by (simp add: mem_alone.steady_def sound_New)
  from mem_alone.interleaving_stays_sound [OF this assms(3), of P] assms(4,5) sound_active
  show ?thesis by (simp add: mem_budget_New fresh_process_def SetMetrics_def new_controller_def)
qed

theorem goroutines_never_overfill_witness:
  "active (ct_store (pc_ctrl (interleave memory_ops (demo_moves sorted_range)
     (fresh_process New demo_policy None (\<lambda>n. int n * second))))) \<le> 2"
  using goroutines_never_overfill [of demo_policy 2 "demo_moves sorted_range", OF _ _ _ _ refl]
    demo_moves_decent [of range_ok, OF range_ok_sorted_range]
  by (simp add: demo_policy_def)

text \<open>
  C9: First come, first served, however goroutines interleave: while ticket \<open>i\<close> keeps its place in the
  queue of the in-process store, no ticket \<open>j\<close> that was neither active nor ahead of it becomes
  active, in any schedule of the goroutines of a process (and of anybody else who uses the store);
  \<open>j\<close> may be behind \<open>i\<close>, unknown, or evicted and joining again.
\<close>

theorem goroutines_keep_the_line:
  assumes "mem_inv (ct_store (pc_ctrl P))" and "length ms \<le> mem_budget (ct_store (pc_ctrl P))"
    and "\<forall>m \<in> set ms. legal_move range_ok m"
    and "i \<noteq> j" and "status_of (ct_store (pc_ctrl P)) j \<noteq> StatusActive"
    and "\<not> subseq [j, i] (queue_ids (ct_store (pc_ctrl P)))"
    and "\<forall>k \<le> length ms. i \<in> set (queue_ids (ct_store (pc_ctrl (interleave memory_ops (take k ms) P))))"
    and "interleave memory_ops ms P = P'"
  shows "status_of (ct_store (pc_ctrl P')) j \<noteq> StatusActive \<and> \<not> subseq [j, i] (queue_ids (ct_store (pc_ctrl P')))"
proof -
  have "i \<in> set (queue_ids (ct_store (pc_ctrl P)))" using assms(7) [THEN spec, of 0] by simp
  then have "outranks i j (mem_abs (ct_store (pc_ctrl P)))" unfolding outranks_mem [OF assms(1)] using assms(4-6) by blast
  moreover have "queued (mem_abs (ct_store (pc_ctrl (interleave memory_ops (take k ms) P)))) i" if "k \<le> length ms" for k
    using assms(7) that queued_mem by blast
  ultimately have "mem_inv (ct_store (pc_ctrl P')) \<and> outranks i j (mem_abs (ct_store (pc_ctrl P')))"
    using room_store.interleave_outranks [OF mem.room_store_axioms assms(1-3)] unfolding assms(8) by blast
  then show ?thesis using outranks_mem by blast
qed

text \<open>While a poll is under way, another process tries to let the second in line in.\<close>

theorem goroutines_keep_the_line_witness:
  "status_of (ct_store (pc_ctrl (interleave memory_ops
     [Spawn (RStatus ''z''), Advance 0 sorted_range, Elsewhere sorted_range (CTryAdmit ''c'' 5 4), Advance 0 sorted_range]
     (fresh_process demo demo_policy None poll_clock)))) ''c'' \<noteq> StatusActive"
proof -
  let ?ms = "[Spawn (RStatus ''z''), Advance 0 sorted_range, Elsewhere sorted_range (CTryAdmit ''c'' 5 4), Advance 0 sorted_range]"
  let ?P = "fresh_process demo demo_policy None poll_clock"
  have "0 < cfg_MinReconcileGap demo_policy" by (simp add: demo_gap)
  then obtain F G where poll: "\<And>i. go_serve demo_policy (RStatus i) = Now (\<lambda>now. LoadLast (\<lambda>l.
      if s64 (unix_nano now - l) < cfg_MinReconcileGap demo_policy then F i now
      else CasLast l (unix_nano now) (\<lambda>b. if b then StoreLast (unix_nano now) (G i now) else F i now)))"
    by (rule poll_actions) (rule that)
  have refused: "snd (TryAdmit ''c'' 5 4 demo) = demo" using demo_state by (simp add: TryAdmit_def)
  have "ct_store (pc_ctrl (interleave memory_ops (take k ?ms) ?P)) = demo" if k: "k \<le> 4" for k
  proof -
    consider "k = 0" | "k = 1" | "k = 2" | "k = 3" | "k = 4" using k by linarith
    then show ?thesis by cases (simp_all add: poll refused eval_nat_numeral del: go_serve.simps)
  qed
  then have "\<forall>k \<le> length ?ms. ''b'' \<in> set (queue_ids (ct_store (pc_ctrl (interleave memory_ops (take k ?ms) ?P))))"
    by (simp only: list.size) (simp add: demo_ids)
  then show ?thesis
    by (rule goroutines_keep_the_line [of ?P ?ms "''b''" "''c''", OF _ _ _ _ _ _ _ refl, THEN conjunct1, rotated -1])
      (use demo_state(5) in \<open>simp_all add: mem_inv_demo mem_budget_demo range_ok_sorted_range demo_ids demo_state(6)
         status_of_def subseq_pair_Cons\<close>)
qed

text \<open>
  C7: The same on a Valkey server that behaves as documented and that any number of other processes use
  between any two actions, with requests and replies lost on the network: a process that joins a
  consistent room never panics, and the room never holds more than \<open>C\<close> active sessions.
\<close>

theorem valkey_goroutines_never_overfill:
  assumes "valkey_server rc cl zs hs st" and "vk_consistent zs hs st p v" and "roomy C (vk_room zs hs st p v)"
    and "1 \<le> cfg_Capacity cfg" and "cfg_Capacity cfg \<le> C"
    and "\<forall>m \<in> set ms. decent (honest cl) C m" and "length ms \<le> vk_headroom zs hs st p v"
    and "interleave (valkey_ops rc cl quote (NewWithClient p)) ms (fresh_process v cfg reg clock) = P"
  shows "active_count (vk_room zs hs st p (ct_store (pc_ctrl P))) \<le> C \<and>
    vk_consistent zs hs st p (ct_store (pc_ctrl P)) \<and> Return False \<notin> set (pc_threads P)"
  using vk_interleaving [OF assms] by (simp add: roomy_def)

theorem valkey_goroutines_never_overfill_witness:
  "active_count (vk_room db_zset db_hashes db_strings ''gowait:'' (ct_store (pc_ctrl
     (interleave (valkey_ops db_redis demo_client id (NewWithClient ''gowait:'')) (demo_moves (LostReply ''timeout''))
        (fresh_process empty_db demo_policy None (\<lambda>n. int n * second)))))) \<le> 2"
proof -
  have "honest demo_client (LostReply ''timeout'')" by (simp add: honest_def demo_client_def)
  note moves = demo_moves_decent [of "honest demo_client", OF this]
  show ?thesis
    using valkey_goroutines_never_overfill [OF demo_db.valkey_server_axioms _ _ _ _ moves _ refl,
        of "''gowait:''" empty_db demo_policy]
    by (simp add: fresh_room [OF empty_db_fresh] roomy_def empty_room_def active_count_def demo_policy_def)
qed

text \<open>
  C17: Requests reconcile one at a time per \<open>MinReconcileGap\<close>: in every schedule, on every store, the
  instants at which requests win the compare-and-swap on \<open>lastReconcile\<close> are a gap apart, less the
  longest time \<open>d\<close> that passes between a reading of the clock and the write of that reading, also
  while ticks of the janitor reset \<open>lastReconcile\<close>. The clock is monotone and shows dates before 2116.
\<close>

theorem winners_are_a_gap_apart:
  assumes "mono clock" and "\<forall>n. datable (clock n)" and "0 \<le> d" and "d \<le> cfg_MinReconcileGap cfg"
    and "prompt ops d ms (fresh_process s cfg reg clock)"
  shows "sorted_wrt (\<lambda>v v'. v + (cfg_MinReconcileGap cfg - d) \<le> v') (winners ops ms (fresh_process s cfg reg clock))"
proof -
  have "gapped d 0 (fresh_process s cfg reg clock)"
    using assms(1-3) by (simp add: gapped_def latest_def datable_nano) (simp add: datable_def)
  from winners_apart [OF this assms(5,3,4)] show ?thesis by simp
qed

theorem winners_are_a_gap_apart_witness:
  "sorted_wrt (\<lambda>v v'. v + 150 * millisecond \<le> v')
     (winners memory_ops (poll_moves sorted_range) (fresh_process New demo_policy None poll_clock)) \<and>
   length (winners memory_ops (poll_moves sorted_range) (fresh_process New demo_policy None poll_clock)) = 2"
proof -
  have "mono poll_clock" by (auto simp: mono_def poll_clock_def)
  moreover have "\<forall>n. datable (poll_clock n)" by (simp add: poll_clock_def datable_def)
  ultimately show ?thesis
    using winners_are_a_gap_apart [OF _ _ _ _ poll_run(2)] by (simp add: demo_gap poll_run(1))
qed

end
