(* ===== verification/MainProgram.thy ===== *)
theory MainProgram
  imports GowaitProps
begin

text \<open>
  The process from its start to its exit code: \<open>main\<close> and the end of \<open>run\<close> in \<^verbatim>\<open>cmd/gowait/main.go\<close>. What
  ends a running process is an argument: the error with which \<open>ListenAndServe\<close> returns, or a signal,
  after which \<open>Shutdown\<close> succeeds or fails. The log lines are left out; the requests served until
  then are in \<open>Gowait\<close>.
\<close>

datatype ending =
    ListenError error
  | Signal "error option" \<comment> \<open>with the error of \<open>Shutdown\<close>, if any\<close>

text \<open>The \<open>select\<close> at the end of \<open>run\<close>; \<open>late\<close> is \<open>errors.Is(err, context.DeadlineExceeded)\<close>.\<close>

definition wait_for_end :: "(error \<Rightarrow> bool) \<Rightarrow> ending \<Rightarrow> unit result" where
  "wait_for_end late e =
     (case e of
        ListenError err \<Rightarrow> Err err
      | Signal (Some err) \<Rightarrow> if \<not> late err then Err err else Ok ()
      | Signal None \<Rightarrow> Ok ())"

definition run_program :: "(error \<Rightarrow> bool) \<Rightarrow> ('s, 'tmpl) boot \<Rightarrow> ending \<Rightarrow> unit result" where
  "run_program late b e = and_also (start b) (\<lambda>_. wait_for_end late e)"

text \<open>What \<open>main\<close> prints, and the exit code; a panic exits with 2.\<close>

definition asks_version :: "string list \<Rightarrow> bool" where
  "asks_version args \<longleftrightarrow> length args > 0 \<and> args ! 0 = ''-version''"

definition main_program :: "(error \<Rightarrow> bool) \<Rightarrow> ('s, 'tmpl) boot \<Rightarrow> ending \<Rightarrow> string \<times> nat" where
  "main_program late b e =
     (if asks_version (bt_args b) then (''gowait '' @ bt_version b @ [CHR 10], 0)
      else case run_program late b e of
             Ok _ \<Rightarrow> ([], 0)
           | Err err \<Rightarrow> ([], 1)
           | Panic \<Rightarrow> ([], 2))"

lemma wait_for_end_returns: "wait_for_end late e \<noteq> Panic"
  by (simp add: wait_for_end_def split: ending.split option.split)

lemma wait_for_end_Ok: "wait_for_end late e = Ok () \<longleftrightarrow> (\<exists>r. e = Signal r \<and> (\<forall>err. r = Some err \<longrightarrow> late err))"
  by (auto simp: wait_for_end_def split: ending.split option.split)

lemma start_error:
  "Load (bt_url_parse b) (bt_quote b) (bt_environ b) (bt_args b) = Err err \<Longrightarrow> start b = Err err"
  by (simp add: start_def and_also_def)

text \<open>
  C18: The exit code tells how the process ended: it is 0 exactly when the version was asked for by the
  first argument, or the process started and was ended by a signal, with the connections closed or
  the grace period over; a refused configuration, like every other error, exits with 1 and prints
  nothing on the standard output; no other code occurs unless the start panics.
\<close>

theorem exit_status:
  assumes "start b \<noteq> Panic" and "main_program late b e = (out, code)"
  shows "(code = 0 \<longleftrightarrow> asks_version (bt_args b) \<or>
       (\<exists>si. start b = Ok si) \<and> (\<exists>r. e = Signal r \<and> (\<forall>err. r = Some err \<longrightarrow> late err))) \<and>
     out = (if asks_version (bt_args b) then ''gowait '' @ bt_version b @ [CHR 10] else []) \<and>
     (\<forall>err. Load (bt_url_parse b) (bt_quote b) (bt_environ b) (bt_args b) = Err err \<longrightarrow>
        \<not> asks_version (bt_args b) \<longrightarrow> code = 1) \<and>
     code \<in> {0, 1}"
proof (cases "asks_version (bt_args b)")
  case True
  have "main_program late b e = (''gowait '' @ bt_version b @ [CHR 10], 0)"
    unfolding main_program_def by (rule if_P [OF True])
  from trans [OF assms(2) [symmetric] this]
  have "out = ''gowait '' @ bt_version b @ [CHR 10]" "code = 0" by (simp_all only: prod.inject)
  with True show ?thesis by simp
next
  case False
  have "main_program late b e = (case run_program late b e of Ok _ \<Rightarrow> ([], 0) | Err err \<Rightarrow> ([], 1) | Panic \<Rightarrow> ([], 2))"
    unfolding main_program_def by (rule if_not_P [OF False])
  from trans [OF assms(2) [symmetric] this]
  have m: "out = []" "code = (case run_program late b e of Ok _ \<Rightarrow> 0 | Err err \<Rightarrow> 1 | Panic \<Rightarrow> 2)"
    by (cases "run_program late b e"; simp)+
  have ok: "run_program late b e = Ok () \<longleftrightarrow>
      (\<exists>si. start b = Ok si) \<and> (\<exists>r. e = Signal r \<and> (\<forall>err. r = Some err \<longrightarrow> late err))"
    by (cases "start b") (simp_all add: run_program_def and_also_def wait_for_end_Ok)
  have np: "run_program late b e \<noteq> Panic"
    using assms(1) wait_for_end_returns by (cases "start b") (simp_all add: run_program_def and_also_def)
  have load: "code = 1" if "Load (bt_url_parse b) (bt_quote b) (bt_environ b) (bt_args b) = Err err" for err
    using start_error [OF that] by (simp add: m(2) run_program_def and_also_def)
  have "code = 0 \<longleftrightarrow> run_program late b e = Ok ()" "code \<in> {0, 1}"
    using np by (simp_all add: m(2) split: result.split)
  with False m(1) load show ?thesis unfolding ok by simp
qed

text \<open>A process that a signal ends while a connection stays open, and one that cannot listen.\<close>

theorem exit_status_witness:
  "main_program (\<lambda>err. err = ''context deadline exceeded'') demo_boot (Signal (Some ''context deadline exceeded'')) = ([], 0) \<and>
   main_program (\<lambda>err. err = ''context deadline exceeded'') demo_boot (ListenError ''address already in use'') = ([], 1)"
proof -
  let ?main = "main_program (\<lambda>err. err = ''context deadline exceeded'') demo_boot"
  obtain si where si: "start demo_boot = Ok si" using demo_start by blast
  have args: "\<not> asks_version (bt_args demo_boot)" by (simp add: asks_version_def demo_boot_def demo_args_def)
  note exit = exit_status [of demo_boot "\<lambda>err. err = ''context deadline exceeded''", OF _ prod.collapse [symmetric]]
  show ?thesis
    using exit [of "Signal (Some ''context deadline exceeded'')"] exit [of "ListenError ''address already in use''"] si args
    by (auto simp: prod_eq_iff)
qed

end
