(* ===== verification/Spec2Isabelle.thy ===== *)
theory Spec2Isabelle
  imports MemoryProps MemoryAverage MetricsProps ControllerProps ProberProps GowaitProps
    BackendsAgree FleetProps Proxy GoroutineProps MainProgram
begin

text \<open>
  A verification of gowait, a virtual waiting room in front of a web site: a fixed number of
  tickets (cookies) is \<^emph>\<open>active\<close> at a time and proxied to the backend, everybody else waits in a
  first-come-first-served queue and polls a waiting page. This is the root theory.

  \<^bold>\<open>The program.\<close> A store (\<^verbatim>\<open>internal/store\<close>) keeps the room: the queue, the active sessions, a
  capacity override, an average session length. The in-process store (\<^verbatim>\<open>store/memory\<close>) is one
  mutex-guarded structure; the shared store (\<^verbatim>\<open>store/valkeystore\<close>) keeps the room on a Valkey server,
  where each operation is one Lua script, so that many replicas of gowait serve one room. The queue controller (\<^verbatim>\<open>internal/queue\<close>) turns a request into store
  calls: reconcile (expire, evict, promote), look the ticket up, then touch, admit or enqueue it;
  its janitor does the reconciling when nobody calls. The registry (\<^verbatim>\<open>internal/metrics\<close>) counts
  what happened; the prober (\<^verbatim>\<open>internal/prober\<close>) moves the capacity with the health of the backend.
  The server (\<^verbatim>\<open>internal/server\<close>) identifies a visitor by a signed cookie (\<^verbatim>\<open>internal/ticket\<close>), asks the
  controller, and proxies the request or answers with the waiting page (\<^verbatim>\<open>internal/waitpage\<close>); it
  also serves the status, metrics and admin endpoints; \<^verbatim>\<open>internal/proxy\<close> rewrites the request for the
  backend. \<^verbatim>\<open>internal/config\<close> loads the settings and
  \<^verbatim>\<open>cmd/gowait\<close> wires the parts together.

  \<^bold>\<open>Theories.\<close>
  \<^item> \<open>GoPrelude\<close>: results of calls (value, error, panic), 64-bit arithmetic, instants and durations,
    decimal formatting, \<open>sort.Search\<close>; \<open>GoFloat\<close>: \<open>float64\<close> as the rationals it represents, with
    round-to-nearest-even and its relative error; \<open>GoText\<close>: reading and printing integers, booleans and durations; \<open>GoUrl\<close>:
    percent-encoding and query strings; \<open>GoHttp\<close>: requests, response writers, \<open>ServeMux\<close>.
  \<^item> \<open>StoreTypes\<close>: the data and the \<open>Store\<close> interface of \<^verbatim>\<open>store.go\<close>, as a record of operations.
  \<^item> \<open>Room\<close>, \<open>RoomProps\<close>: the abstract waiting room, the specification of a store, and what it
    guarantees (well-formedness, capacity, order of the line, progress, idempotence).
  \<^item> \<open>StoreContract\<close>: the contract as the locales \<open>room_store\<close> and \<open>reliable_store\<close>: a
    representation invariant, an abstraction to rooms, one law per operation.
  \<^item> \<open>MemoryStore\<close>: \<^verbatim>\<open>memory.go\<close> on an explicit heap of entries that the map and the list share;
    \<open>MemorySeq\<close>: why sequence numbers and holes give exact positions; \<open>MemoryRefine\<close>: each
    operation keeps the invariant \<open>mem_inv\<close> and computes what the room computes;
    \<open>MemoryContract\<close>: the interpretation of the contract; \<open>MemoryProps\<close>: the properties of the store;
    \<open>MemoryAverage\<close>: the average session length, against the exponential average in exact arithmetic.
  \<^item> \<open>ValkeyServer\<close>: the commands of a Valkey server and the client library as a record of operations,
    with their documented behaviour as the locale \<open>valkey_server\<close>; \<open>ValkeyModel\<close>: a server that
    satisfies it. \<open>ValkeyStore\<close>: \<^verbatim>\<open>valkeystore.go\<close>, its scripts and its methods. \<open>ValkeyData\<close>,
    \<open>ValkeyRefine\<close>: the data under the store's keys as a room, and each script as the operation of the
    room (locale \<open>valkey_replicas\<close>): a \<open>room_store\<close> on any network, a \<open>reliable_store\<close> on one that
    delivers. \<open>ValkeyProps\<close>: capacity, order, leases, and the end of the one loop of a script.
    \<open>BackendsAgree\<close>: both stores give the same answers, being rooms in different units of time; waiting
    times up to rounding, since the stores convert milliseconds to seconds in two ways, and without the
    average session length, which the in-process store smooths in the iteration order of its map.
  \<^item> \<open>Metrics\<close>, \<open>MetricsProps\<close>: \<^verbatim>\<open>metrics.go\<close>.
  \<^item> \<open>Controller\<close>: \<^verbatim>\<open>controller.go\<close> over any store; \<open>ControllerRefine\<close> and \<open>ControllerRun\<close>: a
    request is a visit of the room, runs of requests stay bounded, both in the locale
    \<open>controlled_store\<close>; \<open>ControllerProps\<close>: the properties, on the in-process store;
    \<open>ControllerFaults\<close>: the controller on a store whose calls may fail and that others use between
    its calls (locale \<open>shared_store\<close>, operations \<open>amid\<close> the calls of others).
  \<^item> \<open>Prober\<close>, \<open>ProberProps\<close>: \<^verbatim>\<open>prober.go\<close> over any controller (locale \<open>capacity_control\<close>).
  \<^item> \<open>Ticket\<close>: \<^verbatim>\<open>ticket.go\<close>, over any keyed hash. \<open>Waitpage\<close>: \<^verbatim>\<open>waitpage.go\<close>. \<open>Config\<close>, \<open>ConfigProps\<close>:
    \<^verbatim>\<open>config.go\<close>, with the flag package as it is used; what a loaded configuration satisfies, and
    that a printed one is loaded back.
  \<^item> \<open>Server\<close>: the handlers of \<^verbatim>\<open>server.go\<close>, \<^verbatim>\<open>gatekeeper.go\<close>, \<^verbatim>\<open>status.go\<close> and \<^verbatim>\<open>admin.go\<close>;
    \<open>ServerRoutes\<close>: where a request goes; \<open>ServerRun\<close>: every request is answered and the bounds of
    the controller carry over (locale \<open>controller_service\<close>); \<open>ServerProps\<close>: who reaches the backend, what a
    cookie proves, what the endpoints answer.
  \<^item> \<open>Gowait\<close>, \<open>GowaitProps\<close>: the wiring of \<^verbatim>\<open>main.go\<close> and the properties of the whole program, from
    its arguments to its answers. \<open>Fleet\<close>, \<open>FleetProps\<close>: replicas that come and go on one shared store,
    as a step relation whose runs may interleave the store calls of different requests, and the
    bound on the fleet on a Valkey server. \<open>Proxy\<close>: \<^verbatim>\<open>proxy.go\<close>, what the backend is sent.
    \<open>MainProgram\<close>: \<open>main\<close> and the end of \<open>run\<close>, down to the exit code.
  \<^item> \<open>Goroutines\<close>: the controller once more, each method as the sequence of its atomic actions
    (\<open>go_Check\<close> for \<open>Check\<close>, and so on), and schedules that interleave any number of goroutines on one
    controller; \<open>GoroutineSafety\<close>: what every action keeps, in the locale \<open>shared_store\<close>; \<open>ReconcileGap\<close>:
    the throttle of \<open>MinReconcileGap\<close>; \<open>GoroutineProps\<close>: the properties on both stores, and two schedules
    in which a late write undoes a newer one.

  \<^bold>\<open>How the state corresponds.\<close> \<open>mem_store\<close> has the fields of \<open>Store\<close> in \<^verbatim>\<open>memory.go\<close>, with a heap
  for the entries behind its pointers; \<open>'s controller\<close> has those of \<open>Controller\<close>, the atomics as plain
  fields, the store's state inside, and the clock as the sequence of its readings; \<open>'s server\<close> has
  those of \<open>Server\<close>, with the controller inside, whose registry and clock it shares as \<^verbatim>\<open>main.go\<close> wires
  them; the Valkey store has no state but its key names (\<open>vk_store\<close>), the state is the server's;
  \<open>registry\<close>, \<open>prober\<close>, \<open>config\<close>, \<open>settings\<close> and \<open>signer\<close> have the fields of their structs. A
  definition has the name of its function, with a prefix (\<open>ctl_\<close>) where two components use the
  same one; a piece of a longer function has a name of its own (\<open>queue_flow\<close>, \<open>admin_key_flow\<close>).

  \<^bold>\<open>Bounds.\<close> No definition uses fuel: the binary search, the promotion loop and the parsers
  terminate by a measure. The loop of the reconcile script may not end on a server that does not
  behave, so it is a \<open>partial_function\<close>, and \<open>promote_loop_ends\<close> shows that it ends on one that does. Sequence numbers are 64-bit words; positions are exact while fewer than
  \<open>2 ^ 63 - 2\<close> tickets have been enqueued, which the budget of the contract counts, one per call, so
  the runs in the theorems are at most that long. On the Valkey server they are scores, exact below
  \<open>2 ^ 53\<close>. Counters wrap at 64 bits; floats are finite (an
  overflow would need more than \<open>2 ^ 1000\<close> seconds).

  \<^bold>\<open>Faults and interleaving.\<close> Each request to the Valkey server has a fate (\<open>delivery\<close>): delivered,
  lost, or executed with the reply lost. A script runs on the server without interruption; between
  two calls of one request the calls of others take effect (\<open>amid\<close>), at most \<open>k\<close> before each, which the
  budget of a run accounts for. Leases lapse by themselves. A script that does not return is \<open>Panic\<close>.
  The functions of \<open>Controller\<close> run one request from start to end; that a goroutine which is not
  interrupted does the same is \<open>uninterrupted_goroutine\<close>, and what holds when goroutines are
  interrupted between any two actions is in \<open>GoroutineProps\<close>. An action is an operation on an atomic, a
  reading of the clock, a counter of the metrics or a store call, which is atomic itself (a mutex or a
  script); Go's atomics are sequentially consistent, so interleaving is all that can happen.

  \<^bold>\<open>Not modelled.\<close> The iteration order of Go maps is an argument, restricted only to visit every
  key once. The handlers of the server, the prober and the counters within one call of the metrics
  are not interleaved action by action. The contexts (cancellation), the log lines, sockets, the fields of
  \<open>http.Server\<close> and closing the client are left out; what \<open>ListenAndServe\<close> and \<open>Shutdown\<close> return, and
  when a signal comes, is an argument. Scores, hash values and
  script arguments on the Valkey server are integers: their decimal texts, exact up to 14 digits, are
  left out. Arguments stand for what the program receives or does not contain: the outcome of a
  health probe, random bytes, HMAC-SHA256, \<open>url.Parse\<close> and \<open>EscapedPath\<close>, reading, parsing and
  executing page templates, decoding a JSON body, the copy of a request that the proxy rewrites, and
  the verbs \<open>%g\<close> and \<open>%q\<close>. A request arrives as \<open>net/http\<close> parsed it, and a JSON answer is a value, not
  its text.
\<close>

end
